(* ===== verification/Prelude.thy ===== *)
theory Prelude
  imports "HOL-Library.Word" "HOL-Library.List_Lexorder" "HOL-Library.Char_ord"
begin

text \<open>
  The vocabulary that every component of the chain shares: the Go results and errors, the
  machine integers at their width, \<^verbatim>\<open>math.Int\<close> and \<^verbatim>\<open>math.LegacyDec\<close> of
  \<^verbatim>\<open>cosmossdk.io/math\<close>, big-endian store keys and the generic facts on lists and words that
  the component proofs use.

  \<^item> \<^verbatim>\<open>math.Int\<close> is \<^typ>\<open>int\<close>.  The 256-bit overflow panic of the library is not modelled; a nil
    \<^verbatim>\<open>Int\<close> has no value of its own: where the code tests \<^verbatim>\<open>IsNil\<close> it either reads nil as 0 or, in a
    validator, refuses it.
  \<^item> \<^verbatim>\<open>LegacyDec\<close> is the \<^typ>\<open>int\<close> it stores, scaled by \<^term>\<open>10 ^ 18\<close>.  Addition, comparison,
    \<^verbatim>\<open>MulInt\<close>, \<^verbatim>\<open>Ceil\<close> and \<^verbatim>\<open>TruncateInt\<close> are exact and written out.  The operations that round
    (\<^verbatim>\<open>Mul\<close>, \<^verbatim>\<open>Quo\<close>, \<^verbatim>\<open>QuoInt64\<close>, \<^verbatim>\<open>Power\<close>) belong to the library, which is not part of the
    sources: they are the fields of a parameter \<open>dec_math\<close>, and \<open>dec_laws\<close> states what the library
    documents of them: a product or quotient lies between the floor and the ceiling of the exact value, and a zeroth
    power is 1.
  \<^item> \<^verbatim>\<open>uint64\<close> and \<^verbatim>\<open>uint32\<close> are words; \<^verbatim>\<open>int64\<close> is \<^typ>\<open>int\<close> with the wrap-around written out.
\<close>

section \<open>Results and errors\<close>

text \<open>
  The errors a handler returns, one constructor per registered error, and \<open>Panic\<close>; the bridge adapter's
  own errors are grouped.
\<close>

datatype bridge_error =
    ErrDisabled
  | ErrWrongOrigin
  | ErrWrongSender
  | ErrInvalidPayload
  | ErrTargetWentBackward
  | ErrExceedsAuthorized
  | ErrUnknownRecipient
  | ErrAppNotInitialized
  | ErrBridgeDisabled
  | ErrBelowMinimum
  | ErrDailyCapReached
  | ErrInboundCapReached
  | ErrLargeQuotaReached
  | ErrAddressCapReached
  | ErrCrisisMode
  | ErrIndivisibleAmount
  | ErrPoolInsufficient
  | ErrNotConfigured
  | ErrWrongMailbox
  | ErrIsmNotConfigured
  | ErrAboveMaximum
  | ErrNotGuardian

datatype go_error =
    Err string
  | Panic string
  | ErrPriceNotFound
  | ErrUnauthorizedFeeder
  | ErrPriceDeviationTooHigh
  | ErrInvalidPrice
  | ErrInvalidVolume
  | ErrInvalidSource
  | ErrInvalidAddress
  | ErrUnknownAddress
  | ErrInvalidGasLimit
  | ErrInvalidRequest
  | ErrInvalidCoins
  | ErrInsufficientFee
  | ErrInsufficientFunds
  | ErrInsufficientEnergy
  | ErrInsufficientBalance
  | ErrInvalidAmount
  | ErrInvalidDuration
  | ErrDelegationNotFound
  | ErrUnauthorized
  | ErrEnergyDisabled
  | ErrSelfDelegation
  | ErrAtoxDisabled
  | ErrNothingToClaim
  | ErrSupplyCapReached
  | ErrPoolInsolvent
  | ErrAtoxCannotLeave
  | ErrInsufficientClaimable
  | ErrInvalidMerkleProof
  | ErrAlreadyClaimed
  | BridgeErr bridge_error

type_synonym 'a result = "go_error + 'a"

definition bindR :: "'a result \<Rightarrow> ('a \<Rightarrow> 'b result) \<Rightarrow> 'b result" where
  "bindR r f = (case r of Inl e \<Rightarrow> Inl e | Inr x \<Rightarrow> f x)"

text \<open>As a case distinction in the code equations, so that evaluation reduces the first computation first.\<close>

declare bindR_def [code_unfold]

lemma bindR_simps [simp]:
  "bindR (Inl e) f = Inl e"
  "bindR (Inr x) f = f x"
  by (simp_all add: bindR_def)

lemma bindR_Inr_iff: "bindR r f = Inr y \<longleftrightarrow> (\<exists>x. r = Inr x \<and> f x = Inr y)"
  by (cases r) simp_all

lemma bindR_InrE [elim!]:
  assumes "bindR r f = Inr y"
  obtains x where "r = Inr x" "f x = Inr y"
  using assms by (cases r) auto

lemma bindR_cong [fundef_cong]:
  "r = r' \<Longrightarrow> (\<And>x. r' = Inr x \<Longrightarrow> f x = g x) \<Longrightarrow> bindR r f = bindR r' g"
  by (cases r') auto

section \<open>Machine integers\<close>

type_synonym u64 = "64 word"
type_synonym u32 = "32 word"

text \<open>An \<^verbatim>\<open>int64\<close> result: the value taken modulo \<^term>\<open>2 ^ 64\<close> into the signed range.\<close>

definition wrap64 :: "int \<Rightarrow> int" where
  "wrap64 x = (x + 2 ^ 63) mod 2 ^ 64 - 2 ^ 63"

definition in_int64 :: "int \<Rightarrow> bool" where
  "in_int64 x \<longleftrightarrow> - (2 ^ 63) \<le> x \<and> x < 2 ^ 63"

text \<open>\<^verbatim>\<open>int64(u)\<close> and \<^verbatim>\<open>uint64(i)\<close>.\<close>

definition i64_of_u64 :: "u64 \<Rightarrow> int" where
  "i64_of_u64 u = wrap64 (uint u)"

definition u64_of_i64 :: "int \<Rightarrow> u64" where
  "u64_of_i64 i = word_of_int i"

lemma wrap64_id [simp]: "in_int64 x \<Longrightarrow> wrap64 x = x"
  by (simp add: wrap64_def in_int64_def)

lemma wrap64_in [simp]: "in_int64 (wrap64 x)"
proof -
  have "0 \<le> (x + 2 ^ 63) mod (2 ^ 64 :: int)" "(x + 2 ^ 63) mod (2 ^ 64 :: int) < 2 ^ 64"
    by simp_all
  then show ?thesis by (simp add: wrap64_def in_int64_def)
qed

lemma i64_of_u64_small: "uint u < 2 ^ 63 \<Longrightarrow> i64_of_u64 u = uint u"
  by (simp add: i64_of_u64_def in_int64_def order_trans [OF _ uint_ge_0])

lemma uint_u64_of_i64: "0 \<le> i \<Longrightarrow> i < 2 ^ 64 \<Longrightarrow> uint (u64_of_i64 i) = i"
  by (simp add: u64_of_i64_def uint_word_of_int)

text \<open>The largest \<^verbatim>\<open>uint64\<close>, \<^verbatim>\<open>math.MaxUint64\<close>.\<close>

abbreviation max_u64 :: u64 where "max_u64 \<equiv> - 1"

lemma unat_max_u64: "unat max_u64 = 2 ^ 64 - 1"
  by (simp add: unsigned_minus_1_eq_mask mask_eq_exp_minus_1)

lemma uint_max_u64: "uint max_u64 = 2 ^ 64 - 1"
  by (simp add: unsigned_minus_1_eq_mask mask_eq_exp_minus_1)

lemma uint_u64_less: "uint (u :: u64) < 2 ^ 64"
  using uint_lt2p [of u] by simp

lemma uint_plus_u64: "uint a + uint b < 2 ^ 64 \<Longrightarrow> uint (a + b) = uint a + uint (b :: u64)"
  using uint_add_lem [of a b] by simp

lemma uint_minus_u64: "b \<le> a \<Longrightarrow> uint (a - b) = uint a - uint (b :: u64)"
  by (simp add: uint_minus_simple_alt)

lemma u64_less_inc:
  assumes "(u :: u64) \<noteq> max_u64"
  shows "u < u + 1"
proof -
  have "uint u \<noteq> 2 ^ 64 - 1" using assms uint_max_u64 word_uint_eq_iff [of u max_u64] by metis
  then have "uint u + uint (1 :: u64) < 2 ^ 64" using uint_u64_less [of u] by simp
  then have "uint (u + 1) = uint u + 1" by (simp only: uint_plus_u64 uint_1)
  then show ?thesis by (simp add: word_less_def)
qed

lemma unat_u64_less: "unat (u :: u64) < 2 ^ 64"
  using unsigned_less [of u, where 'a = nat] by simp

section \<open>Integers and decimals of the SDK\<close>

lemma div_mult_le_int: "0 < (b :: int) \<Longrightarrow> a div b * b \<le> a"
  using div_mult_mod_eq [of a b] pos_mod_sign [of b a] by linarith

lemma less_div_mult_int: "0 < (b :: int) \<Longrightarrow> a < (a div b + 1) * b"
  using div_mult_mod_eq [of a b] pos_mod_bound [of b a] unfolding distrib_right by linarith

lemma div_less_int:
  assumes "0 < (b :: int)" "a < k * b"
  shows "a div b < k"
proof (rule ccontr)
  assume "\<not> a div b < k"
  then have "k * b \<le> a div b * b" using assms(1) by (intro mult_right_mono) auto
  then show False using div_mult_le_int [OF assms(1), of a] assms(2) by linarith
qed

lemma le_div_int:
  assumes "0 < (b :: int)" "k * b \<le> a"
  shows "k \<le> a div b"
  using zdiv_mono1 [OF assms(2,1)] assms(1) by simp

type_synonym dec = int

text \<open>\<^verbatim>\<open>math.Int.Quo\<close> and \<^verbatim>\<open>big.Int.Quo\<close>: division truncated towards zero.\<close>

definition quoT :: "int \<Rightarrow> int \<Rightarrow> int" where
  "quoT a b = sgn a * sgn b * (\<bar>a\<bar> div \<bar>b\<bar>)"

lemma quoT_nonneg [simp]: "0 \<le> a \<Longrightarrow> 0 < b \<Longrightarrow> quoT a b = a div b"
  by (cases "a = 0") (simp_all add: quoT_def)

definition decP :: int where "decP = 10 ^ 18"

lemma decP_pos [simp]: "0 < decP" "0 \<le> decP" "decP \<noteq> 0"
  by (simp_all add: decP_def)

text \<open>\<^verbatim>\<open>LegacyNewDec\<close>, \<^verbatim>\<open>MulInt64\<close>, \<^verbatim>\<open>TruncateInt\<close> and \<^verbatim>\<open>Ceil\<close> followed by \<^verbatim>\<open>TruncateInt\<close>.\<close>

definition dec_new :: "int \<Rightarrow> dec" where "dec_new n = n * decP"

definition dec_mul_int :: "dec \<Rightarrow> int \<Rightarrow> dec" where "dec_mul_int d n = d * n"

definition dec_trunc :: "dec \<Rightarrow> int" where "dec_trunc d = quoT d decP"

definition dec_ceil :: "dec \<Rightarrow> int" where "dec_ceil d = - ((- d) div decP)"

record dec_math =
  dec_mul :: "dec \<Rightarrow> dec \<Rightarrow> dec"
  dec_quo :: "dec \<Rightarrow> dec \<Rightarrow> dec"
  dec_quo_int :: "dec \<Rightarrow> int \<Rightarrow> dec"
  dec_power :: "dec \<Rightarrow> u64 \<Rightarrow> dec"

definition floor_ceil :: "int \<Rightarrow> int \<Rightarrow> int \<Rightarrow> bool" where
  "floor_ceil a b q \<longleftrightarrow> a div b \<le> q \<and> q \<le> - ((- a) div b)"

definition dec_laws :: "dec_math \<Rightarrow> bool" where
  "dec_laws M \<longleftrightarrow>
     (\<forall>a b. floor_ceil (a * b) decP (dec_mul M a b)) \<and>
     (\<forall>a b. 0 < b \<longrightarrow> floor_ceil (a * decP) b (dec_quo M a b)) \<and>
     (\<forall>a b. 0 < b \<longrightarrow> floor_ceil a b (dec_quo_int M a b)) \<and>
     (\<forall>a. dec_power M a 0 = decP)"

lemma dec_mul_law: "dec_laws M \<Longrightarrow> floor_ceil (a * b) decP (dec_mul M a b)"
  and dec_quo_law: "dec_laws M \<Longrightarrow> 0 < b \<Longrightarrow> floor_ceil (a * decP) b (dec_quo M a b)"
  and dec_quo_int_law: "dec_laws M \<Longrightarrow> 0 < b \<Longrightarrow> floor_ceil a b (dec_quo_int M a b)"
  by (simp_all add: dec_laws_def)

text \<open>An integer bound on the exact quotient is a bound on every rounding of it.\<close>

lemma floor_ceil_ge:
  assumes "floor_ceil a b q" "0 < b" "k * b \<le> a"
  shows "k \<le> q"
  using le_div_int [OF assms(2,3)] assms(1) by (simp add: floor_ceil_def)

lemma floor_ceil_le:
  assumes "floor_ceil a b q" "0 < b" "a \<le> k * b"
  shows "q \<le> k"
proof -
  have "((- k) * b) div b \<le> (- a) div b" using assms(2,3) by (intro zdiv_mono1) auto
  then have "- k \<le> (- a) div b" using assms(2) by (simp only: nonzero_mult_div_cancel_right)
  then show ?thesis using assms(1) by (simp add: floor_ceil_def)
qed

lemma floor_ceil_exact: "floor_ceil (k * b) b q \<Longrightarrow> 0 < b \<Longrightarrow> q = k"
  by (meson floor_ceil_ge floor_ceil_le order_antisym order_refl)

lemma dec_quo_ge: "dec_laws M \<Longrightarrow> 0 < b \<Longrightarrow> k * b \<le> a * decP \<Longrightarrow> k \<le> dec_quo M a b"
  and dec_quo_le: "dec_laws M \<Longrightarrow> 0 < b \<Longrightarrow> a * decP \<le> k * b \<Longrightarrow> dec_quo M a b \<le> k"
  by (auto intro: floor_ceil_ge [OF dec_quo_law] floor_ceil_le [OF dec_quo_law])

lemma dec_quo_int_ge: "dec_laws M \<Longrightarrow> 0 < b \<Longrightarrow> k * b \<le> a \<Longrightarrow> k \<le> dec_quo_int M a b"
  and dec_quo_int_le: "dec_laws M \<Longrightarrow> 0 < b \<Longrightarrow> a \<le> k * b \<Longrightarrow> dec_quo_int M a b \<le> k"
  by (auto intro: floor_ceil_ge [OF dec_quo_int_law] floor_ceil_le [OF dec_quo_int_law])

lemma dec_mul_ge: "dec_laws M \<Longrightarrow> k * decP \<le> a * b \<Longrightarrow> k \<le> dec_mul M a b"
  and dec_mul_le: "dec_laws M \<Longrightarrow> a * b \<le> k * decP \<Longrightarrow> dec_mul M a b \<le> k"
  by (auto intro: floor_ceil_ge [OF dec_mul_law] floor_ceil_le [OF dec_mul_law])

lemma dec_mul_new: "dec_laws M \<Longrightarrow> dec_mul M a (dec_new n) = a * n"
  using dec_mul_law [of M a "dec_new n"] floor_ceil_exact [of "a * n" decP "dec_mul M a (dec_new n)"]
  by (simp add: dec_new_def ac_simps)

text \<open>
  A rounding that satisfies the laws, half to even for \<^verbatim>\<open>Mul\<close> and \<^verbatim>\<open>Quo\<close> and truncation for
  \<^verbatim>\<open>QuoInt64\<close>: the instance on which the witnesses evaluate.
\<close>

definition round_even :: "int \<Rightarrow> int \<Rightarrow> int" where
  "round_even a b =
     (let q = a div b; r = a mod b in
      if 2 * r < b then q
      else if b < 2 * r then q + 1
      else if q mod 2 = 0 then q else q + 1)"

definition even_math :: dec_math where
  "even_math = \<lparr> dec_mul = (\<lambda>a b. round_even (a * b) decP),
                 dec_quo = (\<lambda>a b. round_even (a * decP) b),
                 dec_quo_int = quoT,
                 dec_power = (\<lambda>a n. ((\<lambda>x. round_even (x * a) decP) ^^ unat n) decP) \<rparr>"

lemma ceil_div: "0 < (b :: int) \<Longrightarrow> - ((- a) div b) = (if a mod b = 0 then a div b else a div b + 1)"
  by (simp add: zdiv_zminus1_eq_if)

lemma floor_ceil_round_even: "0 < b \<Longrightarrow> floor_ceil a b (round_even a b)"
  by (auto simp: floor_ceil_def round_even_def Let_def ceil_div)

lemma floor_ceil_quoT: "0 < b \<Longrightarrow> floor_ceil a b (quoT a b)"
proof (cases "0 \<le> a")
  case False
  moreover assume "0 < b"
  ultimately have "quoT a b = - ((- a) div b)" by (simp add: quoT_def)
  then show ?thesis using \<open>0 < b\<close> by (simp add: floor_ceil_def ceil_div)
qed (simp add: floor_ceil_def ceil_div)

lemma even_math_laws: "dec_laws even_math"
  by (simp add: dec_laws_def even_math_def floor_ceil_round_even floor_ceil_quoT)

section \<open>Addresses\<close>

text \<open>
  An address is its bytes.  The bech32 codec of the SDK is a parameter; \<open>addr_laws\<close> is its round
  trip, that it never yields the empty address, and that distinct addresses print differently.
\<close>

type_synonym addr = string

record addr_codec =
  acc_from_bech32 :: "string \<Rightarrow> addr option"
  acc_string :: "addr \<Rightarrow> string"

definition addr_laws :: "addr_codec \<Rightarrow> bool" where
  "addr_laws A \<longleftrightarrow>
     (\<forall>a. a \<noteq> [] \<longrightarrow> acc_from_bech32 A (acc_string A a) = Some a) \<and>
     (\<forall>s a. acc_from_bech32 A s = Some a \<longrightarrow> a \<noteq> []) \<and> inj (acc_string A)"

definition valid_bech32 :: "addr_codec \<Rightarrow> string \<Rightarrow> bool" where
  "valid_bech32 A s \<longleftrightarrow> acc_from_bech32 A s \<noteq> None"

text \<open>A codec that satisfies the law, for the witnesses: the human-readable part and the bytes.\<close>

definition tag_codec :: addr_codec where
  "tag_codec = \<lparr> acc_from_bech32 = (\<lambda>s. if take 5 s = ''atos1'' \<and> drop 5 s \<noteq> [] then Some (drop 5 s) else None),
                 acc_string = (\<lambda>a. ''atos1'' @ a) \<rparr>"

lemma tag_codec_laws: "addr_laws tag_codec"
  by (auto simp: addr_laws_def tag_codec_def inj_def split: if_splits)

section \<open>Big-endian keys\<close>

text \<open>The \<open>k\<close> low bytes of a number, most significant first, as Go writes them into a key.\<close>

primrec be_bytes :: "nat \<Rightarrow> int \<Rightarrow> string" where
  "be_bytes 0 n = []"
| "be_bytes (Suc k) n = char_of (n div 256 ^ k mod 256) # be_bytes k (n mod 256 ^ k)"

definition be64 :: "u64 \<Rightarrow> string" where
  "be64 w = be_bytes 8 (uint w)"

lemma length_be_bytes [simp]: "length (be_bytes k n) = k"
  by (induction k arbitrary: n) simp_all

lemma length_be64 [simp]: "length (be64 w) = 8"
  by (simp add: be64_def)

lemma of_char_of_int: "0 \<le> a \<Longrightarrow> a < 256 \<Longrightarrow> of_char (char_of (a :: int)) = a"
  by simp

lemma char_of_less_iff:
  assumes "0 \<le> a" "a < 256" "0 \<le> b" "b < 256"
  shows "char_of a < (char_of b :: char) \<longleftrightarrow> a < (b :: int)"
  using assms by (metis less_char_def of_nat_less_iff of_nat_of_char of_char_of_int)

lemma char_of_eq_iff_lt:
  "0 \<le> a \<Longrightarrow> a < 256 \<Longrightarrow> 0 \<le> b \<Longrightarrow> b < 256 \<Longrightarrow> ((char_of a :: char) = char_of b) = (a = (b :: int))"
  by (metis of_char_of_int)

lemma be_bytes_append_less:
  assumes "0 \<le> m" "m < 256 ^ k" "0 \<le> n" "n < 256 ^ k"
  shows "be_bytes k m @ xs < be_bytes k n @ ys \<longleftrightarrow> m < n \<or> (m = n \<and> xs < ys)"
  using assms
proof (induction k arbitrary: m n)
  case (Suc k)
  let ?q = "\<lambda>x. x div 256 ^ k :: int" and ?r = "\<lambda>x. x mod 256 ^ k :: int"
  have dm: "\<And>x. x = ?q x * 256 ^ k + ?r x" by (simp only: div_mult_mod_eq)
  have q256: "?q x < 256" if "x < 256 ^ Suc k" for x
    using div_less_int [of "256 ^ k" x 256] that by simp
  have q: "?q m < 256" "?q n < 256" "0 \<le> ?q m" "0 \<le> ?q n"
    using Suc.prems by (simp_all only: q256 pos_imp_zdiv_nonneg_iff zero_less_power zero_less_numeral)
  have lt: "?q m < ?q n \<Longrightarrow> m < n" for m n
    by (meson zdiv_mono1 leD leI zero_less_power zero_less_numeral)
  have eq: "?q m = ?q n \<Longrightarrow> (m < n \<longleftrightarrow> ?r m < ?r n) \<and> (m = n \<longleftrightarrow> ?r m = ?r n)"
    using dm [of m] dm [of n] by (metis add_less_cancel_left)
  consider "?q m < ?q n" | "?q n < ?q m" | "?q m = ?q n" by linarith
  then show ?case
  proof cases
    case 3
    then show ?thesis using Suc.IH [of "?r m" "?r n"] eq by simp
  qed (use q lt [of m n] lt [of n m] in \<open>auto simp: char_of_less_iff char_of_eq_iff_lt\<close>)
qed simp

lemma be64_append_less: "be64 a @ xs < be64 b @ ys \<longleftrightarrow> a < b \<or> (a = b \<and> xs < ys)"
proof -
  have "uint (w :: u64) < 256 ^ 8" for w using unsigned_less [of w, where 'a = int] by simp
  then show ?thesis
    by (simp add: be64_def be_bytes_append_less word_less_def word_uint_eq_iff)
qed

lemma be64_inj: "be64 a @ xs = be64 b @ ys \<longleftrightarrow> a = b \<and> xs = ys"
  using be64_append_less [of a xs b ys] be64_append_less [of b ys a xs]
  by (metis (no_types) linorder_less_linear less_irrefl)

section \<open>Lists\<close>

text \<open>Sums over lists, the form in which the invariants count.\<close>

lemma sum_list_map_le:
  "(\<And>x. x \<in> set xs \<Longrightarrow> f x \<le> (g x :: int)) \<Longrightarrow> sum_list (map f xs) \<le> sum_list (map g xs)"
  by (induction xs) (auto intro: add_mono)

lemma sum_list_pos_int: "xs \<noteq> [] \<Longrightarrow> (\<And>x. x \<in> set xs \<Longrightarrow> 0 < (x :: int)) \<Longrightarrow> 0 < sum_list xs"
proof (induction xs)
  case (Cons x xs)
  then show ?case by (cases "xs = []") (auto intro: add_pos_pos)
qed simp

lemma length_filter_mono:
  "(\<And>x. x \<in> set xs \<Longrightarrow> P x \<Longrightarrow> Q x) \<Longrightarrow> length (filter P xs) \<le> length (filter Q xs)"
  by (induction xs) (auto simp: le_SucI)

lemma sum_list_nonneg_int: "(\<And>x. x \<in> set xs \<Longrightarrow> 0 \<le> (f x :: int)) \<Longrightarrow> 0 \<le> sum_list (map f xs)"
  by (induction xs) auto

end
