(* ===== verification/KVStore.thy ===== *)
theory KVStore
  imports Prelude
begin

text \<open>
  The key-value store of the keepers.  A \<^verbatim>\<open>KVStore\<close> is iterated in the byte order of its keys, so a
  prefix of it is a list of entries sorted by key; a value is stored under its type, which leaves the
  codec's round trip outside the model.  The locale \<open>ordered_store\<close> is the contract the keepers rely
  on (what \<^verbatim>\<open>Get\<close> returns after \<^verbatim>\<open>Set\<close> and \<^verbatim>\<open>Delete\<close>, and that iteration visits every key once), its
  lemmas say how a sum over an iteration changes under a write, and \<open>kv\<close> is its interpretation on
  the sorted list.
\<close>

type_synonym ('k, 'v) kv = "('k \<times> 'v) list"

section \<open>The sorted list\<close>

definition kv_get :: "('k, 'v) kv \<Rightarrow> 'k \<Rightarrow> 'v option" where
  "kv_get m k = map_of m k"

fun kv_set :: "'k :: linorder \<Rightarrow> 'v \<Rightarrow> ('k, 'v) kv \<Rightarrow> ('k, 'v) kv" where
  "kv_set k v [] = [(k, v)]"
| "kv_set k v ((k', v') # m) =
     (if k < k' then (k, v) # (k', v') # m
      else if k = k' then (k, v) # m
      else (k', v') # kv_set k v m)"

definition kv_del :: "'k \<Rightarrow> ('k, 'v) kv \<Rightarrow> ('k, 'v) kv" where
  "kv_del k m = filter (\<lambda>(k', _). k' \<noteq> k) m"

definition kv_inv :: "('k :: linorder, 'v) kv \<Rightarrow> bool" where
  "kv_inv m \<longleftrightarrow> sorted_wrt (<) (map fst m)"

text \<open>\<^verbatim>\<open>store.Iterator(start, end)\<close>: the entries from \<open>lo\<close> up to \<open>hi\<close>, \<open>hi\<close> excluded.\<close>

definition kv_range :: "'k :: linorder \<Rightarrow> 'k \<Rightarrow> ('k, 'v) kv \<Rightarrow> ('k, 'v) kv" where
  "kv_range lo hi m = filter (\<lambda>(k, _). lo \<le> k \<and> k < hi) m"

lemma fst_kv_set: "fst ` set (kv_set k v m) = insert k (fst ` set m)"
  by (induction k v m rule: kv_set.induct) auto

lemma length_kv_set_le: "length (kv_set k v m) \<le> Suc (length m)"
  by (induction k v m rule: kv_set.induct) auto

lemma set_kv_set_subset: "set (kv_set k v m) \<subseteq> insert (k, v) (set m)"
  by (induction k v m rule: kv_set.induct) auto

lemma set_kv_del_subset: "set (kv_del k m) \<subseteq> set m"
  by (auto simp: kv_del_def)

lemma kv_inv_empty [simp]: "kv_inv []"
  by (simp add: kv_inv_def)

lemma kv_inv_Cons: "kv_inv ((k, v) # m) \<longleftrightarrow> (\<forall>k' \<in> fst ` set m. k < k') \<and> kv_inv m"
  by (auto simp: kv_inv_def)

lemma kv_inv_set [simp]: "kv_inv m \<Longrightarrow> kv_inv (kv_set k v m)"
  by (induction k v m rule: kv_set.induct) (auto simp: kv_inv_Cons fst_kv_set; force)+

lemma kv_inv_filter: "kv_inv m \<Longrightarrow> kv_inv (filter P m)"
  by (induction m) (auto simp: kv_inv_Cons)

lemma kv_inv_del [simp]: "kv_inv m \<Longrightarrow> kv_inv (kv_del k m)"
  by (simp add: kv_del_def kv_inv_filter)

lemma kv_inv_distinct: "kv_inv m \<Longrightarrow> distinct (map fst m)"
  by (simp add: kv_inv_def strict_sorted_iff)

lemma kv_get_set: "kv_get (kv_set k v m) = (kv_get m)(k \<mapsto> v)"
proof (induction k v m rule: kv_set.induct)
  case (2 k v k' v' m)
  then show ?case by (auto simp: kv_get_def fun_eq_iff)
qed (simp add: kv_get_def fun_eq_iff)

lemma kv_get_del: "kv_get (kv_del k m) = (kv_get m)(k := None)"
  by (induction m) (auto simp: kv_get_def kv_del_def fun_eq_iff)

lemma kv_entry_iff: "kv_inv m \<Longrightarrow> (k, v) \<in> set m \<longleftrightarrow> kv_get m k = Some v"
  by (simp add: kv_get_def kv_inv_distinct)

lemma kv_get_None: "kv_get m k = None \<longleftrightarrow> k \<notin> fst ` set m"
  by (simp add: kv_get_def map_of_eq_None_iff)

text \<open>A store is determined by its reads.\<close>

lemma kv_ext:
  assumes "kv_inv a" "kv_inv b" "kv_get a = kv_get b"
  shows "a = b"
proof (rule map_sorted_distinct_set_unique)
  show eq: "set a = set b" using kv_entry_iff [OF assms(1)] kv_entry_iff [OF assms(2)] assms(3) by auto
  show "inj_on fst (set a \<union> set b)" using kv_inv_distinct [OF assms(1)] eq by (simp add: distinct_map)
qed (use assms in \<open>simp_all add: kv_inv_def strict_sorted_iff\<close>)

section \<open>The contract and what follows from it\<close>

locale ordered_store =
  fixes get :: "'s \<Rightarrow> 'k \<Rightarrow> 'v option"
    and put :: "'k \<Rightarrow> 'v \<Rightarrow> 's \<Rightarrow> 's"
    and del :: "'k \<Rightarrow> 's \<Rightarrow> 's"
    and entries :: "'s \<Rightarrow> ('k \<times> 'v) list"
    and inv :: "'s \<Rightarrow> bool"
  assumes get_put: "get (put k v s) = (get s)(k \<mapsto> v)"
    and get_del: "get (del k s) = (get s)(k := None)"
    and inv_put: "inv s \<Longrightarrow> inv (put k v s)"
    and inv_del: "inv s \<Longrightarrow> inv (del k s)"
    and entries_get: "inv s \<Longrightarrow> (k, v) \<in> set (entries s) \<longleftrightarrow> get s k = Some v"
    and entries_distinct: "inv s \<Longrightarrow> distinct (map fst (entries s))"
begin

definition total :: "('k \<times> 'v \<Rightarrow> int) \<Rightarrow> 's \<Rightarrow> int" where
  "total f s = sum_list (map f (entries s))"

definition at_key :: "('k \<times> 'v \<Rightarrow> int) \<Rightarrow> 's \<Rightarrow> 'k \<Rightarrow> int" where
  "at_key f s k = (case get s k of None \<Rightarrow> 0 | Some v \<Rightarrow> f (k, v))"

lemma total_sum: "inv s \<Longrightarrow> total f s = sum f (set (entries s))"
  unfolding total_def using entries_distinct [of s]
  by (simp add: distinct_map sum_list_distinct_conv_sum_set)

lemma rest_sum:
  assumes "inv s"
  shows "total f s = sum f {e \<in> set (entries s). fst e \<noteq> k} + at_key f s k"
proof -
  let ?E = "set (entries s)"
  have split: "?E = {e \<in> ?E. fst e \<noteq> k} \<union> {e \<in> ?E. fst e = k}" by auto
  have "{e \<in> ?E. fst e = k} = (case get s k of None \<Rightarrow> {} | Some v \<Rightarrow> {(k, v)})"
    using entries_get [OF assms] by (auto split: option.splits)
  then have "sum f {e \<in> ?E. fst e = k} = at_key f s k"
    by (simp add: at_key_def split: option.splits)
  moreover have "sum f ?E = sum f {e \<in> ?E. fst e \<noteq> k} + sum f {e \<in> ?E. fst e = k}"
    by (subst split, rule sum.union_disjoint) auto
  ultimately show ?thesis using total_sum [OF assms] by simp
qed

lemma rest_put:
  assumes "inv s"
  shows "{e \<in> set (entries (put k v s)). fst e \<noteq> k} = {e \<in> set (entries s). fst e \<noteq> k}"
  using entries_get [OF assms] entries_get [OF inv_put [OF assms]] by (auto simp: get_put)

lemma rest_del:
  assumes "inv s"
  shows "{e \<in> set (entries (del k s)). fst e \<noteq> k} = {e \<in> set (entries s). fst e \<noteq> k}"
  using entries_get [OF assms] entries_get [OF inv_del [OF assms]] by (auto simp: get_del)

lemma total_put: "inv s \<Longrightarrow> total f (put k v s) = total f s - at_key f s k + f (k, v)"
  using rest_sum [of s f k] rest_sum [of "put k v s" f k] rest_put [of s k v]
  by (simp add: inv_put at_key_def [of f "put k v s"] get_put)

lemma total_del: "inv s \<Longrightarrow> total f (del k s) = total f s - at_key f s k"
  using rest_sum [of s f k] rest_sum [of "del k s" f k] rest_del [of s k]
  by (simp add: inv_del at_key_def [of f "del k s"] get_del)

lemma at_key_le_total:
  assumes "inv s" and nonneg: "\<And>e. e \<in> set (entries s) \<Longrightarrow> 0 \<le> f e"
  shows "at_key f s k \<le> total f s"
  using rest_sum [OF assms(1), of f k] sum_nonneg [of "{e \<in> set (entries s). fst e \<noteq> k}" f] nonneg
  by simp

end

interpretation kv: ordered_store kv_get kv_set kv_del "\<lambda>m. m" kv_inv
  by unfold_locales
    (simp_all add: kv_get_set kv_get_del kv_entry_iff kv_inv_distinct)

section \<open>Rebuilding a store\<close>

lemma kv_get_map_of: "kv_get m = map_of m"
  by (simp add: fun_eq_iff kv_get_def)

lemma fold_kv_set:
  assumes "\<forall>e \<in> set es. fst e = key (snd e)" "distinct (map fst es)"
  shows "kv_get (fold (\<lambda>v. kv_set (key v) v) (map snd es) m) = kv_get m ++ map_of es"
  using assms
proof (induction es arbitrary: m)
  case (Cons e es)
  obtain v where e: "e = (key v, v)" using Cons.prems(1) by (cases e) auto
  have "map_of es (key v) = None" using Cons.prems(2) by (simp add: e map_of_eq_None_iff)
  moreover have "kv_get (fold (\<lambda>v. kv_set (key v) v) (map snd es) (kv_set (key v) v m)) =
      (kv_get m)(key v \<mapsto> v) ++ map_of es"
    using Cons by (simp add: kv_get_set)
  ultimately show ?case
    by (auto simp: e fun_eq_iff map_add_def split: option.split)
qed simp

lemma kv_inv_fold_set: "kv_inv m \<Longrightarrow> kv_inv (fold (\<lambda>v. kv_set (key v) v) vs m)"
  by (induction vs arbitrary: m) simp_all

section \<open>Ranges\<close>

lemma kv_range_iff: "(k, v) \<in> set (kv_range lo hi m) \<longleftrightarrow> (k, v) \<in> set m \<and> lo \<le> k \<and> k < hi"
  by (auto simp: kv_range_def)

lemma kv_inv_range: "kv_inv m \<Longrightarrow> kv_inv (kv_range lo hi m)"
  by (simp add: kv_range_def kv_inv_filter)

end
