(* ===== verification/Oracle.thy ===== *)
theory Oracle
  imports KVStore "HOL-Library.Multiset" "HOL-Library.AList"
begin

text \<open>
  The price oracle (\<^verbatim>\<open>x/oracle\<close>): the parameters and reports of \<^verbatim>\<open>types/helpers.go\<close>, the history
  keys of \<^verbatim>\<open>types/keys.go\<close>, the store operations and the time-weighted average of
  \<^verbatim>\<open>keeper/keeper.go\<close>, the message server of \<^verbatim>\<open>keeper/msg_server.go\<close>, the queries and the genesis.
  A context is the block time in Unix seconds and the module's store.
\<close>

section \<open>Types\<close>

record oracle_params =
  AllowedFeeders :: "string list"
  MaxPriceAgeSeconds :: u64
  MinValidReports :: u32
  OracleDenom :: string
  TWAPLookbackSeconds :: u64
  MaxPriceDeviationBps :: u32

record price_data =
  Price :: dec
  Volume24h :: dec
  Timestamp :: int
  Feeder :: string
  Source :: string

record oracle_store =
  o_params :: "oracle_params option"
  o_current :: "price_data option"
  o_history :: "(string, price_data) kv"

record oracle_genesis =
  og_params :: oracle_params
  og_history :: "price_data list"

record msg_report_price =
  rp_Feeder :: string
  rp_Price :: dec
  rp_Volume24h :: dec
  rp_Source :: string

definition oracle_DefaultParams :: oracle_params where
  "oracle_DefaultParams =
     \<lparr> AllowedFeeders = [], MaxPriceAgeSeconds = 3600, MinValidReports = 1, OracleDenom = ''liao'',
       TWAPLookbackSeconds = 86400, MaxPriceDeviationBps = 5000 \<rparr>"

fun validate_feeders :: "addr_codec \<Rightarrow> string list \<Rightarrow> unit result" where
  "validate_feeders A [] = Inr ()"
| "validate_feeders A (f # fs) =
     (if acc_from_bech32 A f = None then Inl (Err ''invalid feeder address'')
      else validate_feeders A fs)"

definition oracle_Params_Validate :: "addr_codec \<Rightarrow> oracle_params \<Rightarrow> unit result" where
  "oracle_Params_Validate A p =
     (if MaxPriceAgeSeconds p = 0 then Inl (Err ''max price age cannot be zero'')
      else if MinValidReports p = 0 then Inl (Err ''min valid reports cannot be zero'')
      else if OracleDenom p = '''' then Inl (Err ''denom cannot be empty'')
      else if TWAPLookbackSeconds p = 0 then Inl (Err ''TWAP lookback cannot be zero'')
      else if MaxPriceDeviationBps p = 0 then Inl (Err ''max_price_deviation_bps must be > 0'')
      else validate_feeders A (AllowedFeeders p))"

fun is_allowed :: "string \<Rightarrow> string list \<Rightarrow> bool" where
  "is_allowed a [] = False"
| "is_allowed a (f # fs) = (if f = a then True else is_allowed a fs)"

definition IsAllowedFeeder :: "oracle_params \<Rightarrow> string \<Rightarrow> bool" where
  "IsAllowedFeeder p a = is_allowed a (AllowedFeeders p)"

definition PriceData_Validate :: "addr_codec \<Rightarrow> price_data \<Rightarrow> unit result" where
  "PriceData_Validate A p =
     (if Price p < 0 then Inl (Err ''price cannot be negative'')
      else if Volume24h p < 0 then Inl (Err ''volume cannot be negative'')
      else if Timestamp p \<le> 0 then Inl (Err ''invalid timestamp'')
      else if acc_from_bech32 A (Feeder p) = None then Inl (Err ''invalid feeder address'')
      else Inr ())"

definition oracle_DefaultGenesisState :: oracle_genesis where
  "oracle_DefaultGenesisState = \<lparr> og_params = oracle_DefaultParams, og_history = [] \<rparr>"

fun validate_history :: "addr_codec \<Rightarrow> price_data list \<Rightarrow> unit result" where
  "validate_history A [] = Inr ()"
| "validate_history A (pd # pds) = bindR (PriceData_Validate A pd) (\<lambda>_. validate_history A pds)"

definition oracle_GenesisState_Validate :: "addr_codec \<Rightarrow> oracle_genesis \<Rightarrow> unit result" where
  "oracle_GenesisState_Validate A gs =
     bindR (oracle_Params_Validate A (og_params gs)) (\<lambda>_. validate_history A (og_history gs))"

definition MsgReportPrice_ValidateBasic :: "addr_codec \<Rightarrow> msg_report_price \<Rightarrow> unit result" where
  "MsgReportPrice_ValidateBasic A msg =
     (if acc_from_bech32 A (rp_Feeder msg) = None then Inl ErrInvalidAddress
      else if rp_Price msg < 0 \<or> rp_Price msg = 0 then Inl ErrInvalidPrice
      else if rp_Volume24h msg < 0 then Inl ErrInvalidVolume
      else if rp_Source msg = '''' then Inl ErrInvalidSource
      else Inr ())"

definition oracle_MsgUpdateParams_ValidateBasic ::
  "addr_codec \<Rightarrow> string \<Rightarrow> oracle_params \<Rightarrow> unit result" where
  "oracle_MsgUpdateParams_ValidateBasic A authority p =
     (if acc_from_bech32 A authority = None then Inl ErrInvalidAddress
      else oracle_Params_Validate A p)"

definition PriceHistoryKey :: "int \<Rightarrow> string \<Rightarrow> string" where
  "PriceHistoryKey ts feeder = char_of (3 :: nat) # be64 (u64_of_i64 ts) @ feeder"

section \<open>Keeper\<close>

definition oracle_GetParams :: "oracle_store \<Rightarrow> oracle_params" where
  "oracle_GetParams s = (case o_params s of None \<Rightarrow> oracle_DefaultParams | Some p \<Rightarrow> p)"

definition oracle_SetParams :: "addr_codec \<Rightarrow> oracle_params \<Rightarrow> oracle_store \<Rightarrow> oracle_store result" where
  "oracle_SetParams A p s =
     bindR (oracle_Params_Validate A p) (\<lambda>_. Inr (s\<lparr>o_params := Some p\<rparr>))"

definition SetCurrentPrice :: "price_data \<Rightarrow> oracle_store \<Rightarrow> oracle_store" where
  "SetCurrentPrice p s = s\<lparr>o_current := Some p\<rparr>"

definition GetCurrentPrice :: "oracle_store \<Rightarrow> price_data result" where
  "GetCurrentPrice s = (case o_current s of None \<Rightarrow> Inl ErrPriceNotFound | Some p \<Rightarrow> Inr p)"

definition AppendPriceHistory :: "price_data \<Rightarrow> oracle_store \<Rightarrow> oracle_store" where
  "AppendPriceHistory p s =
     s\<lparr>o_history := kv_set (PriceHistoryKey (Timestamp p) (Feeder p)) p (o_history s)\<rparr>"

definition GetPriceHistory :: "oracle_store \<Rightarrow> u32 \<Rightarrow> price_data list" where
  "GetPriceHistory s limit = take (unat limit) (map snd (rev (o_history s)))"

definition GetPricesSince :: "int \<Rightarrow> oracle_store \<Rightarrow> int \<Rightarrow> price_data list" where
  "GetPricesSince now s since =
     map snd (kv_range (PriceHistoryKey since '''') (PriceHistoryKey (wrap64 (now + 1)) '''') (o_history s))"

definition medianDec :: "dec_math \<Rightarrow> dec list \<Rightarrow> dec result" where
  "medianDec M xs =
     (let ys = sort xs; n = length xs in
      if odd n then Inr (ys ! (n div 2))
      else if n = 0 then Inl (Panic ''index out of range'')
      else Inr (dec_quo_int M (ys ! (n div 2 - 1) + ys ! (n div 2)) 2))"

function collapse_groups :: "dec_math \<Rightarrow> price_data list \<Rightarrow> price_data list result" where
  "collapse_groups M [] = Inr []"
| "collapse_groups M (p # ps) =
     (let same = takeWhile (\<lambda>q. Timestamp q = Timestamp p) ps;
          rest = dropWhile (\<lambda>q. Timestamp q = Timestamp p) ps;
          bucket = p # same in
      if same = [] then bindR (collapse_groups M rest) (\<lambda>out. Inr (p # out))
      else bindR (medianDec M (map Price bucket)) (\<lambda>mp.
           bindR (medianDec M (map Volume24h bucket)) (\<lambda>mv.
           bindR (collapse_groups M rest) (\<lambda>out.
           Inr (\<lparr> Price = mp, Volume24h = mv, Timestamp = Timestamp p,
                  Feeder = Feeder (last bucket), Source = Source (last bucket) \<rparr> # out)))))"
  by pat_completeness auto
termination
  by (relation "measure (length \<circ> snd)") (auto simp: le_imp_less_Suc length_dropWhile_le)

definition collapseSameTimestampPrices :: "dec_math \<Rightarrow> price_data list \<Rightarrow> price_data list result" where
  "collapseSameTimestampPrices M prices =
     (if length prices \<le> 1 then Inr prices else collapse_groups M prices)"

text \<open>The duration of each entry: up to the next entry or, for the last one, up to now; 1 at least.\<close>

fun twap_durations :: "int \<Rightarrow> price_data list \<Rightarrow> int list" where
  "twap_durations now [] = []"
| "twap_durations now [p] =
     (let d = wrap64 (now - Timestamp p) in [if d \<le> 0 then 1 else d])"
| "twap_durations now (p # q # ps) =
     (let d = wrap64 (Timestamp q - Timestamp p) in
      (if d \<le> 0 then 1 else d) # twap_durations now (q # ps))"

fun twap_loop :: "dec_math \<Rightarrow> (price_data \<times> int) list \<Rightarrow> dec \<Rightarrow> dec \<Rightarrow> dec \<Rightarrow> dec \<times> dec \<times> dec" where
  "twap_loop M [] tw ws tv = (tw, ws, tv)"
| "twap_loop M ((p, d) # ps) tw ws tv =
     (let weight = dec_new d in
      twap_loop M ps (tw + weight) (ws + dec_mul M (Price p) weight) (tv + Volume24h p))"

definition CalculateTWAP :: "dec_math \<Rightarrow> int \<Rightarrow> oracle_store \<Rightarrow> u64 \<Rightarrow> (dec \<times> dec) result" where
  "CalculateTWAP M now s lookback =
     (if lookback = 0 then Inl (Err ''lookback cannot be zero'')
      else
        let since = wrap64 (now - i64_of_u64 lookback);
            prices0 = GetPricesSince now s since in
        if prices0 = [] then Inl ErrPriceNotFound
        else bindR (collapseSameTimestampPrices M prices0) (\<lambda>prices.
          let (totalWeight, weightedPriceSum, totalVolume) =
                twap_loop M (zip prices (twap_durations now prices)) 0 0 0 in
          if totalWeight = 0 then Inl ErrPriceNotFound
          else Inr (dec_quo M weightedPriceSum totalWeight,
                    dec_quo M totalVolume (dec_new (int (length prices))))))"

section \<open>Message server\<close>

definition withinDeviation :: "dec_math \<Rightarrow> dec \<Rightarrow> dec \<Rightarrow> u32 \<Rightarrow> bool" where
  "withinDeviation M prev next_p maxBps =
     (if \<not> prev > 0 then True
      else let diff = \<bar>next_p - prev\<bar>;
               bps = dec_quo M (dec_mul_int diff 10000) prev;
               cap = dec_new (uint maxBps) in
           bps \<le> cap)"

text \<open>The map from feeder to its freshest report, as an association list.\<close>

fun latest_loop :: "price_data \<Rightarrow> price_data list \<Rightarrow> (string \<times> price_data) list \<Rightarrow> (string \<times> price_data) list" where
  "latest_loop incoming [] latest = latest"
| "latest_loop incoming (pd # hist) latest =
     (if Feeder pd = Feeder incoming then latest_loop incoming hist latest
      else case map_of latest (Feeder pd) of
             None \<Rightarrow> latest_loop incoming hist (AList.update (Feeder pd) pd latest)
           | Some cur \<Rightarrow>
               if Timestamp pd > Timestamp cur
               then latest_loop incoming hist (AList.update (Feeder pd) pd latest)
               else latest_loop incoming hist latest)"

definition freshness_cutoff :: "int \<Rightarrow> oracle_params \<Rightarrow> int" where
  "freshness_cutoff now p =
     (if MaxPriceAgeSeconds p = 0 then 0
      else wrap64 (now - i64_of_u64 (MaxPriceAgeSeconds p)))"

definition medianOfFreshReports ::
  "dec_math \<Rightarrow> int \<Rightarrow> oracle_store \<Rightarrow> oracle_params \<Rightarrow> price_data \<Rightarrow> price_data result" where
  "medianOfFreshReports M now s p incoming =
     (let history = GetPricesSince now s (freshness_cutoff now p);
          latest = latest_loop incoming history [(Feeder incoming, incoming)] in
      if length latest \<le> 1 then Inr incoming
      else bindR (medianDec M (map (Price \<circ> snd) latest)) (\<lambda>mp.
           bindR (medianDec M (map (Volume24h \<circ> snd) latest)) (\<lambda>mv.
           Inr \<lparr> Price = mp, Volume24h = mv, Timestamp = Timestamp incoming,
                 Feeder = Feeder incoming, Source = Source incoming \<rparr>)))"

definition hasEnoughFreshFeeders :: "int \<Rightarrow> oracle_store \<Rightarrow> oracle_params \<Rightarrow> bool" where
  "hasEnoughFreshFeeders now s p =
     (if MinValidReports p \<le> 1 then True
      else let history = GetPricesSince now s (freshness_cutoff now p);
               seen = remdups (map Feeder history) in
           (word_of_nat (length seen) :: u32) \<ge> MinValidReports p)"

definition report_of :: "int \<Rightarrow> msg_report_price \<Rightarrow> price_data" where
  "report_of now msg =
     \<lparr> Price = rp_Price msg, Volume24h = rp_Volume24h msg, Timestamp = now,
       Feeder = rp_Feeder msg, Source = rp_Source msg \<rparr>"

definition ReportPrice ::
  "dec_math \<Rightarrow> int \<Rightarrow> oracle_store \<Rightarrow> msg_report_price \<Rightarrow> oracle_store result" where
  "ReportPrice M now s msg =
     (let params = oracle_GetParams s in
      if \<not> IsAllowedFeeder params (rp_Feeder msg) then Inl ErrUnauthorizedFeeder
      else if MaxPriceDeviationBps params > 0 \<and>
              (case GetCurrentPrice s of
                 Inl _ \<Rightarrow> False
               | Inr cur \<Rightarrow> Price cur > 0 \<and>
                   \<not> withinDeviation M (Price cur) (rp_Price msg) (MaxPriceDeviationBps params))
           then Inl ErrPriceDeviationTooHigh
      else
        let priceData = report_of now msg;
            s1 = AppendPriceHistory priceData s in
        if MinValidReports params \<le> 1 \<or> hasEnoughFreshFeeders now s1 params
        then bindR (medianOfFreshReports M now s1 params priceData) (\<lambda>aggregated.
             Inr (SetCurrentPrice aggregated s1))
        else Inr s1)"

definition oracle_UpdateParams ::
  "addr_codec \<Rightarrow> string \<Rightarrow> oracle_store \<Rightarrow> string \<Rightarrow> oracle_params \<Rightarrow> oracle_store result" where
  "oracle_UpdateParams A authority s msg_authority p =
     (if authority \<noteq> msg_authority then Inl (Err ''unauthorized'')
      else oracle_SetParams A p s)"

section \<open>Queries\<close>

definition query_CurrentPrice :: "oracle_store \<Rightarrow> price_data result" where
  "query_CurrentPrice s = GetCurrentPrice s"

definition query_PriceHistory :: "oracle_store \<Rightarrow> u32 \<Rightarrow> price_data list" where
  "query_PriceHistory s limit = GetPriceHistory s (if limit = 0 then 100 else limit)"

definition query_TWAP :: "dec_math \<Rightarrow> int \<Rightarrow> oracle_store \<Rightarrow> u64 \<Rightarrow> (dec \<times> dec) result" where
  "query_TWAP M now s lookback =
     CalculateTWAP M now s
       (if lookback = 0 then TWAPLookbackSeconds (oracle_GetParams s) else lookback)"

section \<open>Genesis\<close>

fun findLatestPrice :: "price_data \<Rightarrow> price_data list \<Rightarrow> price_data" where
  "findLatestPrice latest [] = latest"
| "findLatestPrice latest (pd # pds) =
     (if Timestamp pd > Timestamp latest then findLatestPrice pd pds
      else findLatestPrice latest pds)"

definition oracle_InitGenesis :: "addr_codec \<Rightarrow> oracle_store \<Rightarrow> oracle_genesis \<Rightarrow> oracle_store result" where
  "oracle_InitGenesis A s gs =
     (case oracle_SetParams A (og_params gs) s of
        Inl _ \<Rightarrow> Inl (Panic ''invalid params'')
      | Inr s1 \<Rightarrow>
          let s2 = fold AppendPriceHistory (og_history gs) s1 in
          Inr (case og_history gs of
                 [] \<Rightarrow> s2
               | pd # pds \<Rightarrow> SetCurrentPrice (findLatestPrice pd pds) s2))"

definition oracle_ExportGenesis :: "oracle_store \<Rightarrow> oracle_genesis" where
  "oracle_ExportGenesis s =
     \<lparr> og_params = oracle_GetParams s, og_history = GetPriceHistory s 10000 \<rparr>"

end
