(* ===== verification/OracleSpec.thy ===== *)
theory OracleSpec
  imports Oracle
begin

text \<open>
  What the oracle guarantees: the store's history is keyed and ordered by time, each feeder has one
  vote in the median that becomes the current price, the deviation cap bounds every accepted report,
  and the time-weighted average is an average.  \<open>oracle_reach\<close> is the reachability relation of the
  module: a validated genesis followed by blocks, reports and parameter updates.
\<close>

lemma medianDec_mset: "mset xs = mset ys \<Longrightarrow> medianDec M xs = medianDec M ys"
  using properties_for_sort [of "sort ys" xs] mset_eq_length [of xs ys] by (simp add: medianDec_def)

lemma filter_in_le_take:
  assumes "\<And>j. i \<le> j \<Longrightarrow> j < length ys \<Longrightarrow> \<not> P (ys ! j)"
  shows "length (filter P ys) \<le> i"
proof -
  have "filter P (drop i ys) = []"
    using assms by (auto simp: filter_empty_conv in_set_conv_nth)
  then have "filter P ys = filter P (take i ys)"
    by (metis append_Nil2 append_take_drop_id filter_append)
  then show ?thesis by (metis length_filter_le length_take min.bounded_iff)
qed

lemma filter_in_le_drop:
  assumes "\<And>j. j < i \<Longrightarrow> j < length ys \<Longrightarrow> \<not> P (ys ! j)"
  shows "length (filter P ys) \<le> length ys - i"
proof -
  have "filter P (take i ys) = []"
    using assms by (auto simp: filter_empty_conv in_set_conv_nth)
  then have "filter P ys = filter P (drop i ys)"
    by (metis append_Nil append_take_drop_id filter_append)
  then show ?thesis by (metis length_filter_le length_drop)
qed

lemma majority_nth:
  fixes ys :: "int list"
  assumes "sorted ys" and maj: "length ys < 2 * length (filter (\<lambda>x. lo \<le> x \<and> x \<le> hi) ys)"
    and i: "i < length ys" "length ys \<le> 2 * Suc i" "2 * i \<le> length ys"
  shows "lo \<le> ys ! i \<and> ys ! i \<le> hi"
proof (rule ccontr)
  let ?P = "\<lambda>x. lo \<le> x \<and> x \<le> hi"
  assume "\<not> ?thesis"
  then consider "ys ! i < lo" | "hi < ys ! i" by linarith
  then show False
  proof cases
    case 1
    then have "\<not> ?P (ys ! j)" if "j < Suc i" "j < length ys" for j
      using sorted_nth_mono [OF assms(1), of j i] that i by auto
    then have "length (filter ?P ys) \<le> length ys - Suc i" by (rule filter_in_le_drop)
    then show False using maj i by arith
  next
    case 2
    then have "\<not> ?P (ys ! j)" if "i \<le> j" "j < length ys" for j
      using sorted_nth_mono [OF assms(1), of i j] that by auto
    then have "length (filter ?P ys) \<le> i" by (rule filter_in_le_take)
    then show False using maj i by linarith
  qed
qed

lemma length_filter_sort: "length (filter P (sort xs)) = length (filter P xs)"
  by (metis mset_filter mset_sort size_mset)

lemma medianDec_majority:
  assumes "dec_laws M" and maj: "length xs < 2 * length (filter (\<lambda>x. lo \<le> x \<and> x \<le> hi) xs)"
  obtains m where "medianDec M xs = Inr m" "lo \<le> m" "m \<le> hi"
proof (cases "odd (length xs)")
  case True
  then have "lo \<le> sort xs ! (length xs div 2) \<and> sort xs ! (length xs div 2) \<le> hi"
    using maj by (intro majority_nth) (auto simp: length_filter_sort elim!: oddE)
  with True show thesis by (intro that) (auto simp: medianDec_def)
next
  case False
  let ?n = "length xs" and ?y = "\<lambda>i. sort xs ! i"
  have n: "0 < ?n" using maj by (cases xs) auto
  with False have "lo \<le> ?y i \<and> ?y i \<le> hi" if "i \<in> {?n div 2 - 1, ?n div 2}" for i
    using maj that by (intro majority_nth)
      (auto simp: length_filter_sort simp flip: length_greater_0_conv elim!: evenE)
  from this [of "?n div 2 - 1"] this [of "?n div 2"]
  have "lo * 2 \<le> ?y (?n div 2 - 1) + ?y (?n div 2)" "?y (?n div 2 - 1) + ?y (?n div 2) \<le> hi * 2"
    by simp_all
  then have "lo \<le> dec_quo_int M (?y (?n div 2 - 1) + ?y (?n div 2)) 2"
    "dec_quo_int M (?y (?n div 2 - 1) + ?y (?n div 2)) 2 \<le> hi"
    using assms(1) by (auto intro: dec_quo_int_ge dec_quo_int_le)
  with False n show thesis by (intro that) (auto simp: medianDec_def Let_def)
qed

lemma medianDec_between:
  assumes "dec_laws M" "xs \<noteq> []" "\<And>x. x \<in> set xs \<Longrightarrow> lo \<le> x \<and> x \<le> hi"
  obtains m where "medianDec M xs = Inr m" "lo \<le> m" "m \<le> hi"
proof -
  have "filter (\<lambda>x. lo \<le> x \<and> x \<le> hi) xs = xs" using assms(3) by (simp add: filter_id_conv)
  then show thesis using medianDec_majority [OF assms(1), of xs lo hi] assms(2) that by auto
qed

section \<open>The history\<close>

definition entry_ok :: "string \<times> price_data \<Rightarrow> bool" where
  "entry_ok e \<longleftrightarrow> fst e = PriceHistoryKey (Timestamp (snd e)) (Feeder (snd e)) \<and>
     0 \<le> Timestamp (snd e) \<and> Timestamp (snd e) < 2 ^ 63"

definition history_ok :: "oracle_store \<Rightarrow> bool" where
  "history_ok s \<longleftrightarrow> kv_inv (o_history s) \<and> (\<forall>e \<in> set (o_history s). entry_ok e)"

lemma u64_of_i64_less:
  "0 \<le> a \<Longrightarrow> a < 2 ^ 64 \<Longrightarrow> 0 \<le> b \<Longrightarrow> b < 2 ^ 64 \<Longrightarrow> u64_of_i64 a < u64_of_i64 b \<longleftrightarrow> a < b"
  by (simp add: word_less_def uint_u64_of_i64)

lemma u64_of_i64_eq:
  "0 \<le> a \<Longrightarrow> a < 2 ^ 64 \<Longrightarrow> 0 \<le> b \<Longrightarrow> b < 2 ^ 64 \<Longrightarrow> u64_of_i64 a = u64_of_i64 b \<longleftrightarrow> a = b"
  by (metis uint_u64_of_i64)

lemma PriceHistoryKey_less:
  assumes "0 \<le> a" "a < 2 ^ 63" "0 \<le> b" "b < 2 ^ 63"
  shows "PriceHistoryKey a f < PriceHistoryKey b g \<longleftrightarrow> a < b \<or> (a = b \<and> f < g)"
  using assms by (simp add: PriceHistoryKey_def be64_append_less u64_of_i64_less u64_of_i64_eq)

lemma PriceHistoryKey_inj:
  assumes "0 \<le> a" "a < 2 ^ 63" "0 \<le> b" "b < 2 ^ 63"
  shows "PriceHistoryKey a f = PriceHistoryKey b g \<longleftrightarrow> a = b \<and> f = g"
  using assms by (simp add: PriceHistoryKey_def be64_inj u64_of_i64_eq)

lemma PriceHistoryKey_empty_le:
  assumes "0 \<le> a" "a < 2 ^ 63" "0 \<le> b" "b < 2 ^ 63"
  shows "PriceHistoryKey a [] \<le> PriceHistoryKey b f \<longleftrightarrow> a \<le> b"
    and "PriceHistoryKey b f < PriceHistoryKey a [] \<longleftrightarrow> b < a"
  using PriceHistoryKey_less [OF assms(3,4,1,2), of f "[]"] by (auto simp: not_less [symmetric])

lemma entry_in_window:
  assumes "entry_ok e" "0 \<le> since" "since < 2 ^ 63" "0 \<le> now" "now < 2 ^ 63 - 1"
  shows "PriceHistoryKey since [] \<le> fst e \<and> fst e < PriceHistoryKey (now + 1) [] \<longleftrightarrow>
         since \<le> Timestamp (snd e) \<and> Timestamp (snd e) \<le> now"
  using assms by (auto simp: entry_ok_def PriceHistoryKey_empty_le)

lemma in_GetPricesSince:
  assumes "history_ok s" "0 \<le> since" "since < 2 ^ 63" "0 \<le> now" "now < 2 ^ 63 - 1"
  shows "pd \<in> set (GetPricesSince now s since) \<longleftrightarrow>
         pd \<in> snd ` set (o_history s) \<and> since \<le> Timestamp pd \<and> Timestamp pd \<le> now"
proof -
  have w: "wrap64 (now + 1) = now + 1" using assms by (simp add: in_int64_def)
  have "entry_ok e" if "e \<in> set (o_history s)" for e using assms(1) that by (simp add: history_ok_def)
  then have "kv_range (PriceHistoryKey since []) (PriceHistoryKey (now + 1) []) (o_history s) =
        filter (\<lambda>e. since \<le> Timestamp (snd e) \<and> Timestamp (snd e) \<le> now) (o_history s)"
    unfolding kv_range_def using assms
    by (intro filter_cong) (auto simp: case_prod_beta simp del: One_nat_def dest!: entry_in_window [OF _ assms(2-5)])
  then show ?thesis by (auto simp: GetPricesSince_def w)
qed

lemma history_times_sorted:
  assumes "kv_inv es" "\<forall>e \<in> set es. entry_ok e"
  shows "sorted (map (Timestamp \<circ> snd) es)"
  using assms
proof (induction es)
  case (Cons e es)
  obtain k p where e: "e = (k, p)" by force
  have "Timestamp p \<le> Timestamp (snd e')" if "e' \<in> set es" for e'
  proof -
    have "fst e < fst e'" using Cons.prems(1) that by (auto simp: e kv_inv_Cons)
    then show ?thesis using Cons.prems(2) that by (auto simp: e entry_ok_def PriceHistoryKey_less)
  qed
  with Cons show ?case by (auto simp: e kv_inv_Cons)
qed simp

lemma GetPricesSince_sorted:
  assumes "history_ok s"
  shows "sorted (map Timestamp (GetPricesSince now s since))"
proof -
  let ?r = "kv_range (PriceHistoryKey since []) (PriceHistoryKey (wrap64 (now + 1)) []) (o_history s)"
  have "kv_inv ?r" "\<forall>e \<in> set ?r. entry_ok e"
    using assms by (auto simp: history_ok_def kv_inv_filter kv_range_def)
  then show ?thesis using history_times_sorted by (simp add: GetPricesSince_def)
qed

lemma GetPricesSince_subset: "set (GetPricesSince now s since) \<subseteq> snd ` set (o_history s)"
  by (auto simp: GetPricesSince_def kv_range_def)

lemma GetPriceHistory_newest_first:
  assumes "history_ok s"
  shows "sorted (rev (map Timestamp (GetPriceHistory s limit)))"
proof -
  have "sorted (map (Timestamp \<circ> snd) (o_history s))"
    using assms history_times_sorted by (simp add: history_ok_def)
  moreover have "rev (map Timestamp (GetPriceHistory s limit)) =
      drop (length (o_history s) - unat limit) (map (Timestamp \<circ> snd) (o_history s))"
    by (simp add: GetPriceHistory_def take_map rev_map [symmetric] take_rev drop_map)
  ultimately show ?thesis by (simp only: sorted_wrt_drop)
qed

section \<open>One vote per feeder\<close>

text \<open>The newest report of a feeder within a list of reports.\<close>

definition newest_of :: "price_data list \<Rightarrow> price_data \<Rightarrow> bool" where
  "newest_of hist pd \<longleftrightarrow> pd \<in> set hist \<and>
     (\<forall>q \<in> set hist. Feeder q = Feeder pd \<longrightarrow> Timestamp q \<le> Timestamp pd)"

definition votes_ok ::
  "price_data \<Rightarrow> price_data list \<Rightarrow> (string \<rightharpoonup> price_data) \<Rightarrow> bool" where
  "votes_ok incoming hist m \<longleftrightarrow>
     dom m = insert (Feeder incoming) (Feeder ` set hist) \<and>
     m (Feeder incoming) = Some incoming \<and>
     (\<forall>f pd. m f = Some pd \<longrightarrow> Feeder pd = f \<and> (f \<noteq> Feeder incoming \<longrightarrow> newest_of hist pd))"

lemma newest_of_snoc:
  "newest_of hist pd \<Longrightarrow> Feeder q = Feeder pd \<longrightarrow> Timestamp q \<le> Timestamp pd \<Longrightarrow> newest_of (hist @ [q]) pd"
  by (auto simp: newest_of_def)

lemma votes_dom: "votes_ok incoming hist m \<Longrightarrow> dom m = insert (Feeder incoming) (Feeder ` set hist)"
  and votes_incoming: "votes_ok incoming hist m \<Longrightarrow> m (Feeder incoming) = Some incoming"
  and votes_feeder: "votes_ok incoming hist m \<Longrightarrow> m f = Some pd \<Longrightarrow> Feeder pd = f"
  and votes_newest: "votes_ok incoming hist m \<Longrightarrow> m f = Some pd \<Longrightarrow> f \<noteq> Feeder incoming \<Longrightarrow> newest_of hist pd"
  by (simp_all add: votes_ok_def)

lemma votes_update:
  assumes v: "votes_ok incoming hist m" and ne: "Feeder pd \<noteq> Feeder incoming"
    and newer: "\<And>cur. m (Feeder pd) = Some cur \<Longrightarrow> Timestamp cur \<le> Timestamp pd"
  shows "votes_ok incoming (hist @ [pd]) (m(Feeder pd \<mapsto> pd))"
proof -
  have "Timestamp q \<le> Timestamp pd" if "q \<in> set hist" "Feeder q = Feeder pd" for q
  proof -
    have "Feeder pd \<in> dom m" using votes_dom [OF v] that by (metis imageI insertI2)
    then obtain cur where cur: "m (Feeder pd) = Some cur" by auto
    have "Timestamp q \<le> Timestamp cur"
      using votes_newest [OF v cur ne] votes_feeder [OF v cur] that by (simp add: newest_of_def)
    then show ?thesis using newer [OF cur] by simp
  qed
  then have "newest_of (hist @ [pd]) pd" by (auto simp: newest_of_def)
  moreover have "newest_of (hist @ [pd]) q" if "m f = Some q" "f \<noteq> Feeder incoming" "f \<noteq> Feeder pd" for f q
    using votes_newest [OF v that(1,2)] votes_feeder [OF v that(1)] that(3) by (intro newest_of_snoc) auto
  ultimately show ?thesis
    using votes_dom [OF v] votes_incoming [OF v] ne
    unfolding votes_ok_def by (intro conjI allI impI) (auto split: if_splits dest: votes_feeder [OF v])
qed

lemma votes_keep:
  assumes v: "votes_ok incoming hist m"
    and k: "Feeder pd = Feeder incoming \<or> (\<exists>cur. m (Feeder pd) = Some cur \<and> Timestamp pd \<le> Timestamp cur)"
  shows "votes_ok incoming (hist @ [pd]) m"
proof -
  have "Feeder pd \<in> dom m" using votes_dom [OF v] k by auto
  then have "dom m = insert (Feeder incoming) (Feeder ` set (hist @ [pd]))"
    using votes_dom [OF v] by auto
  moreover have "newest_of (hist @ [pd]) q" if "m f = Some q" "f \<noteq> Feeder incoming" for f q
    using votes_newest [OF v that] votes_feeder [OF v that(1)] k that by (intro newest_of_snoc) auto
  ultimately show ?thesis
    using votes_incoming [OF v] unfolding votes_ok_def by (blast dest: votes_feeder [OF v])
qed

lemma latest_loop_votes:
  "votes_ok incoming acc (map_of L) \<Longrightarrow> votes_ok incoming (acc @ hist) (map_of (latest_loop incoming hist L))"
proof (induction hist arbitrary: acc L)
  case (Cons pd hist)
  have upd: "votes_ok incoming (acc @ [pd]) (map_of (AList.update (Feeder pd) pd L))"
    if "Feeder pd \<noteq> Feeder incoming" "\<And>cur. map_of L (Feeder pd) = Some cur \<Longrightarrow> Timestamp cur \<le> Timestamp pd"
    using votes_update [OF Cons.prems that] by (simp add: update_conv')
  consider (keep) "Feeder pd = Feeder incoming \<or>
        (\<exists>cur. map_of L (Feeder pd) = Some cur \<and> Timestamp pd \<le> Timestamp cur)"
    | (new) "Feeder pd \<noteq> Feeder incoming" "\<And>cur. map_of L (Feeder pd) = Some cur \<Longrightarrow> Timestamp cur < Timestamp pd"
    by (meson not_less)
  then show ?case
  proof cases
    case keep
    then have "latest_loop incoming (pd # hist) L = latest_loop incoming hist L" by auto
    then show ?thesis using Cons.IH [OF votes_keep [OF Cons.prems keep]] by simp
  next
    case new
    then have "latest_loop incoming (pd # hist) L = latest_loop incoming hist (AList.update (Feeder pd) pd L)"
      by (cases "map_of L (Feeder pd)") simp_all
    then show ?thesis using Cons.IH [OF upd] new by (simp add: order_less_imp_le)
  qed
qed simp

lemma latest_votes: "votes_ok incoming hist (map_of (latest_loop incoming hist [(Feeder incoming, incoming)]))"
proof -
  have "votes_ok incoming [] (map_of [(Feeder incoming, incoming)])"
    by (auto simp: votes_ok_def split: if_splits)
  from latest_loop_votes [OF this, of hist] show ?thesis by simp
qed

lemma distinct_latest_loop: "distinct (map fst L) \<Longrightarrow> distinct (map fst (latest_loop incoming hist L))"
  by (induction hist arbitrary: L) (simp_all add: distinct_update split: option.split)

section \<open>Promotion\<close>

definition voters :: "price_data \<Rightarrow> price_data list \<Rightarrow> string set" where
  "voters incoming hist = insert (Feeder incoming) (Feeder ` set hist)"

lemma card_votes:
  assumes "distinct (map fst L)"
  shows "card (fst ` set L \<inter> G) = length (filter (\<lambda>e. fst e \<in> G) L)"
proof -
  have "fst ` set L \<inter> G = fst ` set (filter (\<lambda>e. fst e \<in> G) L)" by auto
  moreover have "inj_on fst (set (filter (\<lambda>e. fst e \<in> G) L))"
    using assms by (auto simp: distinct_map inj_on_def)
  moreover have "distinct (filter (\<lambda>e. fst e \<in> G) L)" using assms by (simp add: distinct_map)
  ultimately show ?thesis by (metis card_image distinct_card)
qed

lemma medianOfFreshReports_honest:
  fixes M now s p incoming
  defines "hist \<equiv> GetPricesSince now s (freshness_cutoff now p)"
  assumes laws: "dec_laws M"
    and maj: "card (voters incoming hist) < 2 * card (voters incoming hist \<inter> G)"
    and honest: "\<And>q. q \<in> insert incoming (set hist) \<Longrightarrow> Feeder q \<in> G \<Longrightarrow> lo \<le> Price q \<and> Price q \<le> hi"
  obtains agg where "medianOfFreshReports M now s p incoming = Inr agg" "lo \<le> Price agg" "Price agg \<le> hi"
proof -
  let ?L = "latest_loop incoming hist [(Feeder incoming, incoming)]"
  let ?P = "\<lambda>x. lo \<le> x \<and> x \<le> hi"
  have d: "distinct (map fst ?L)" by (simp add: distinct_latest_loop)
  have v: "votes_ok incoming hist (map_of ?L)" by (rule latest_votes)
  have vs: "fst ` set ?L = voters incoming hist"
    using votes_dom [OF v] by (simp add: voters_def dom_map_of_conv_image_fst)
  have in_range: "?P (Price (snd e))" if "e \<in> set ?L" "fst e \<in> G" for e
  proof -
    have m: "map_of ?L (fst e) = Some (snd e)" using d that(1) by simp
    have "snd e \<in> insert incoming (set hist)"
      using votes_newest [OF v m] votes_incoming [OF v] m
      by (cases "fst e = Feeder incoming") (auto simp: newest_of_def)
    then show ?thesis using honest votes_feeder [OF v m] that(2) by simp
  qed
  have len: "length ?L < 2 * length (filter (\<lambda>e. fst e \<in> G) ?L)"
    using maj card_votes [OF d, of G] card_votes [OF d, of UNIV] by (simp add: vs)
  also have "length (filter (\<lambda>e. fst e \<in> G) ?L) \<le> length (filter (\<lambda>e. ?P (Price (snd e))) ?L)"
    by (rule length_filter_mono) (rule in_range)
  finally have maj': "length ?L < 2 * length (filter (\<lambda>e. ?P (Price (snd e))) ?L)" by simp
  show thesis
  proof (cases "length ?L \<le> 1")
    case True
    obtain e where e: "?L = [e]" using True len by (cases ?L) auto
    have "map_of ?L (Feeder incoming) = Some incoming" by (rule votes_incoming [OF v])
    then have "?P (Price incoming)" using maj' by (auto simp: e split: if_splits)
    with True show thesis by (intro that) (auto simp: medianOfFreshReports_def hist_def)
  next
    case False
    have "length (map (Price \<circ> snd) ?L) < 2 * length (filter ?P (map (Price \<circ> snd) ?L))"
      using maj' by (simp add: filter_map comp_def)
    from medianDec_majority [OF laws this] obtain mp where mp:
      "medianDec M (map (Price \<circ> snd) ?L) = Inr mp" "lo \<le> mp" "mp \<le> hi" .
    obtain mv where "medianDec M (map (Volume24h \<circ> snd) ?L) = Inr mv"
      using False by (cases "medianDec M (map (Volume24h \<circ> snd) ?L)") (auto simp: medianDec_def Let_def split: if_splits)
    with False mp show thesis by (intro that) (auto simp: medianOfFreshReports_def hist_def Let_def)
  qed
qed

lemma medianDec_total: "xs \<noteq> [] \<Longrightarrow> \<exists>m. medianDec M xs = Inr m"
  by (simp add: medianDec_def Let_def)

lemma latest_nonempty: "L \<noteq> [] \<Longrightarrow> latest_loop incoming hist L \<noteq> []"
  by (induction incoming hist L rule: latest_loop.induct) (auto split: option.splits)

lemma medianOfFreshReports_total: "\<exists>agg. medianOfFreshReports M now s p incoming = Inr agg"
proof -
  let ?L = "latest_loop incoming (GetPricesSince now s (freshness_cutoff now p)) [(Feeder incoming, incoming)]"
  have "?L \<noteq> []" by (rule latest_nonempty) simp
  with medianDec_total [of "map (Price \<circ> snd) ?L" M] medianDec_total [of "map (Volume24h \<circ> snd) ?L" M]
  show ?thesis by (auto simp: medianOfFreshReports_def Let_def)
qed

definition deviation_ok :: "dec_math \<Rightarrow> oracle_store \<Rightarrow> dec \<Rightarrow> bool" where
  "deviation_ok M s price \<longleftrightarrow>
     (\<forall>cur. o_current s = Some cur \<and> Price cur > 0 \<and> MaxPriceDeviationBps (oracle_GetParams s) > 0 \<longrightarrow>
        withinDeviation M (Price cur) price (MaxPriceDeviationBps (oracle_GetParams s)))"

definition promotes :: "int \<Rightarrow> oracle_store \<Rightarrow> oracle_params \<Rightarrow> bool" where
  "promotes now s p \<longleftrightarrow> MinValidReports p \<le> 1 \<or> hasEnoughFreshFeeders now s p"

lemma ReportPrice_cases:
  fixes s now msg
  defines "s1 \<equiv> AppendPriceHistory (report_of now msg) s"
  shows "ReportPrice M now s msg =
    (if \<not> IsAllowedFeeder (oracle_GetParams s) (rp_Feeder msg) then Inl ErrUnauthorizedFeeder
     else if \<not> deviation_ok M s (rp_Price msg) then Inl ErrPriceDeviationTooHigh
     else if promotes now s1 (oracle_GetParams s)
     then bindR (medianOfFreshReports M now s1 (oracle_GetParams s) (report_of now msg))
            (\<lambda>agg. Inr (SetCurrentPrice agg s1))
     else Inr s1)"
  by (auto simp: ReportPrice_def Let_def deviation_ok_def GetCurrentPrice_def promotes_def s1_def
      split: option.splits)

lemma ReportPrice_Inr:
  assumes "ReportPrice M now s msg = Inr s'"
  defines "s1 \<equiv> AppendPriceHistory (report_of now msg) s"
  shows "IsAllowedFeeder (oracle_GetParams s) (rp_Feeder msg)"
    and "deviation_ok M s (rp_Price msg)"
    and "o_params s' = o_params s"
    and "o_history s' = o_history s1"
    and "o_current s' = (if promotes now s1 (oracle_GetParams s)
           then Some (projr (medianOfFreshReports M now s1 (oracle_GetParams s) (report_of now msg)))
           else o_current s)"
  using assms(1) unfolding ReportPrice_cases
  by (auto split: if_splits simp: s1_def SetCurrentPrice_def AppendPriceHistory_def)

section \<open>The time-weighted average\<close>

lemma collapse_groups_between:
  assumes "dec_laws M"
    and "\<And>p. p \<in> set ps \<Longrightarrow> lo \<le> Price p \<and> Price p \<le> hi \<and> vlo \<le> Volume24h p \<and> Volume24h p \<le> vhi"
  shows "\<exists>out. collapse_groups M ps = Inr out \<and> (out = [] \<longrightarrow> ps = []) \<and>
     (\<forall>p \<in> set out. lo \<le> Price p \<and> Price p \<le> hi \<and> vlo \<le> Volume24h p \<and> Volume24h p \<le> vhi)"
  using assms(2)
proof (induction "length ps" arbitrary: ps rule: less_induct)
  case less
  let ?ok = "\<lambda>p. lo \<le> Price p \<and> Price p \<le> hi \<and> vlo \<le> Volume24h p \<and> Volume24h p \<le> vhi"
  show ?case
  proof (cases ps)
    case (Cons p qs)
    let ?same = "takeWhile (\<lambda>q. Timestamp q = Timestamp p) qs"
    let ?rest = "dropWhile (\<lambda>q. Timestamp q = Timestamp p) qs"
    have sub: "\<And>q. q \<in> set (p # ?same) \<Longrightarrow> ?ok q" "\<And>q. q \<in> set ?rest \<Longrightarrow> ?ok q"
      using less.prems Cons by (auto dest: set_takeWhileD set_dropWhileD)
    have "length ?rest < length ps" by (simp add: Cons le_imp_less_Suc length_dropWhile_le)
    then obtain out where out: "collapse_groups M ?rest = Inr out" "\<forall>q \<in> set out. ?ok q"
      using less.hyps sub(2) by blast
    obtain mp where mp: "medianDec M (map Price (p # ?same)) = Inr mp" "lo \<le> mp" "mp \<le> hi"
      by (rule medianDec_between [OF assms(1), of "map Price (p # ?same)" lo hi]) (use sub(1) in auto)
    obtain mv where mv: "medianDec M (map Volume24h (p # ?same)) = Inr mv" "vlo \<le> mv" "mv \<le> vhi"
      by (rule medianDec_between [OF assms(1), of "map Volume24h (p # ?same)" vlo vhi]) (use sub(1) in auto)
    from out mp mv sub(1) [of p] show ?thesis by (simp add: Let_def Cons)
  qed simp
qed

lemma collapse_between:
  assumes "dec_laws M" "ps \<noteq> []"
    and "\<And>p. p \<in> set ps \<Longrightarrow> lo \<le> Price p \<and> Price p \<le> hi \<and> vlo \<le> Volume24h p \<and> Volume24h p \<le> vhi"
  obtains out where "collapseSameTimestampPrices M ps = Inr out" "out \<noteq> []"
    "\<And>p. p \<in> set out \<Longrightarrow> lo \<le> Price p \<and> Price p \<le> hi \<and> vlo \<le> Volume24h p \<and> Volume24h p \<le> vhi"
proof (cases "length ps \<le> 1")
  case True
  then show thesis using assms(2,3) by (intro that) (auto simp: collapseSameTimestampPrices_def)
next
  case False
  from collapse_groups_between [OF assms(1,3), of ps] assms(2)
  obtain out where "collapse_groups M ps = Inr out" "out \<noteq> []"
    "\<forall>p \<in> set out. lo \<le> Price p \<and> Price p \<le> hi \<and> vlo \<le> Volume24h p \<and> Volume24h p \<le> vhi" by auto
  with False show thesis by (intro that [of out]) (auto simp: collapseSameTimestampPrices_def)
qed

lemma length_twap_durations [simp]: "length (twap_durations now ps) = length ps"
  by (induction now ps rule: twap_durations.induct) (simp_all add: Let_def)

lemma twap_durations_pos: "d \<in> set (twap_durations now ps) \<Longrightarrow> 0 < d"
  by (induction now ps rule: twap_durations.induct) (auto simp: Let_def split: if_splits)

lemma twap_loop_sums:
  "dec_laws M \<Longrightarrow> twap_loop M pds tw ws tv =
     (tw + sum_list (map snd pds) * decP,
      ws + sum_list (map (\<lambda>(p, d). Price p * d) pds),
      tv + sum_list (map (Volume24h \<circ> fst) pds))"
  by (induction M pds tw ws tv rule: twap_loop.induct)
    (simp_all add: Let_def dec_mul_new [unfolded dec_new_def] dec_new_def distrib_right split: prod.splits)

lemma weighted_between:
  assumes "\<And>p d. (p, d) \<in> set pds \<Longrightarrow> 0 < d \<and> lo \<le> f p \<and> f p \<le> (hi :: int)"
  shows "lo * sum_list (map snd pds) \<le> sum_list (map (\<lambda>(p, d). f p * d) pds)"
    and "sum_list (map (\<lambda>(p, d). f p * d) pds) \<le> hi * sum_list (map snd pds)"
  using assms by (induction pds) (force simp: distrib_left intro!: add_mono mult_right_mono)+

text \<open>What the loop of \<open>CalculateTWAP\<close> returns on the collapsed reports.\<close>

lemma CalculateTWAP_collapsed:
  assumes "dec_laws M" "lookback \<noteq> 0"
    and "GetPricesSince now s (wrap64 (now - i64_of_u64 lookback)) = ps" "ps \<noteq> []"
    and "collapseSameTimestampPrices M ps = Inr out" "out \<noteq> []"
  defines "ds \<equiv> twap_durations now out"
  shows "CalculateTWAP M now s lookback =
     Inr (dec_quo M (sum_list (map (\<lambda>(p, d). Price p * d) (zip out ds))) (sum_list ds * decP),
          dec_quo M (sum_list (map Volume24h out)) (int (length out) * decP))"
    and "0 < sum_list ds"
proof -
  have l: "length out = length ds" by (simp add: ds_def)
  have "ds \<noteq> []" using assms(6) l by auto
  then show pos: "0 < sum_list ds"
    using twap_durations_pos [of _ now out] by (intro sum_list_pos_int) (auto simp: ds_def)
  show "CalculateTWAP M now s lookback =
     Inr (dec_quo M (sum_list (map (\<lambda>(p, d). Price p * d) (zip out ds))) (sum_list ds * decP),
          dec_quo M (sum_list (map Volume24h out)) (int (length out) * decP))"
    using assms(2-5) l pos unfolding ds_def
    by (simp add: CalculateTWAP_def Let_def twap_loop_sums [OF assms(1)] dec_new_def map_fst_zip
        flip: map_map)
qed

section \<open>Reachable states\<close>

definition oracle_empty :: oracle_store where
  "oracle_empty = \<lparr> o_params = None, o_current = None, o_history = [] \<rparr>"

inductive oracle_reach :: "dec_math \<Rightarrow> addr_codec \<Rightarrow> string \<Rightarrow> int \<Rightarrow> oracle_store \<Rightarrow> bool"
  for M A authority where
  genesis: "oracle_reach M A authority now s"
    if "oracle_GenesisState_Validate A gs = Inr ()" "oracle_InitGenesis A oracle_empty gs = Inr s"
       "\<forall>pd \<in> set (og_history gs). in_int64 (Timestamp pd)" "0 < now" "now < 2 ^ 63"
| next_block: "oracle_reach M A authority now' s"
    if "oracle_reach M A authority now s" "now \<le> now'" "now' < 2 ^ 63"
| report: "oracle_reach M A authority now s'"
    if "oracle_reach M A authority now s" "MsgReportPrice_ValidateBasic A msg = Inr ()"
       "ReportPrice M now s msg = Inr s'"
| params: "oracle_reach M A authority now s'"
    if "oracle_reach M A authority now s" "oracle_UpdateParams A authority s sender p = Inr s'"

definition oracle_inv :: "addr_codec \<Rightarrow> int \<Rightarrow> oracle_store \<Rightarrow> bool" where
  "oracle_inv A now s \<longleftrightarrow>
     0 < now \<and> now < 2 ^ 63 \<and> history_ok s \<and>
     (\<forall>e \<in> set (o_history s). 0 \<le> Price (snd e)) \<and>
     (\<exists>p. o_params s = Some p \<and> oracle_Params_Validate A p = Inr ())"

lemma history_ok_append:
  assumes "history_ok s" "0 \<le> Timestamp pd" "Timestamp pd < 2 ^ 63"
  shows "history_ok (AppendPriceHistory pd s)"
proof -
  have "entry_ok e" if "e \<in> set (kv_set (PriceHistoryKey (Timestamp pd) (Feeder pd)) pd (o_history s))" for e
    using that assms set_kv_set_subset [of "PriceHistoryKey (Timestamp pd) (Feeder pd)" pd "o_history s"]
    by (auto simp: history_ok_def entry_ok_def)
  then show ?thesis using assms(1) by (simp add: history_ok_def AppendPriceHistory_def)
qed

lemma prices_append:
  assumes "\<forall>e \<in> set (o_history s). P (snd e)" "P pd"
  shows "\<forall>e \<in> set (o_history (AppendPriceHistory pd s)). P (snd e)"
  using assms set_kv_set_subset [of "PriceHistoryKey (Timestamp pd) (Feeder pd)" pd "o_history s"]
  by (auto simp: AppendPriceHistory_def)

lemma validate_history_ok:
  "validate_history A hs = Inr () \<Longrightarrow> pd \<in> set hs \<Longrightarrow> 0 \<le> Price pd \<and> 0 < Timestamp pd"
  by (induction hs) (auto simp: PriceData_Validate_def split: if_splits)

lemma fold_append_ok:
  assumes "history_ok s" "\<forall>e \<in> set (o_history s). 0 \<le> Price (snd e)"
    "\<forall>pd \<in> set hs. 0 \<le> Price pd \<and> 0 < Timestamp pd \<and> Timestamp pd < 2 ^ 63"
  shows "history_ok (fold AppendPriceHistory hs s) \<and>
         (\<forall>e \<in> set (o_history (fold AppendPriceHistory hs s)). 0 \<le> Price (snd e)) \<and>
         o_params (fold AppendPriceHistory hs s) = o_params s"
  using assms
proof (induction hs arbitrary: s)
  case (Cons pd hs)
  have "history_ok (AppendPriceHistory pd s)" using Cons.prems by (intro history_ok_append) auto
  moreover have "\<forall>e \<in> set (o_history (AppendPriceHistory pd s)). 0 \<le> Price (snd e)"
    using Cons.prems prices_append [of s "\<lambda>q. 0 \<le> Price q" pd] by simp
  ultimately show ?case using Cons.IH [of "AppendPriceHistory pd s"] Cons.prems
    by (simp add: AppendPriceHistory_def)
qed simp

lemma oracle_reach_inv: "oracle_reach M A authority now s \<Longrightarrow> oracle_inv A now s"
proof (induction rule: oracle_reach.induct)
  case (genesis gs s now)
  then have p: "oracle_Params_Validate A (og_params gs) = Inr ()"
    and h: "validate_history A (og_history gs) = Inr ()"
    by (auto simp: oracle_GenesisState_Validate_def)
  let ?s1 = "oracle_empty\<lparr>o_params := Some (og_params gs)\<rparr>"
  have "history_ok ?s1" by (simp add: history_ok_def oracle_empty_def)
  then have "history_ok (fold AppendPriceHistory (og_history gs) ?s1) \<and>
         (\<forall>e \<in> set (o_history (fold AppendPriceHistory (og_history gs) ?s1)). 0 \<le> Price (snd e)) \<and>
         o_params (fold AppendPriceHistory (og_history gs) ?s1) = o_params ?s1"
    using h genesis(3) by (intro fold_append_ok) (auto dest: validate_history_ok simp: oracle_empty_def in_int64_def)
  then show ?case
    using genesis p
    by (auto simp: oracle_inv_def oracle_InitGenesis_def oracle_SetParams_def SetCurrentPrice_def
        history_ok_def Let_def split: list.splits)
next
  case (report now s msg s')
  let ?pd = "report_of now msg"
  have pd: "0 \<le> Price ?pd" "Timestamp ?pd = now"
    using report.hyps by (auto simp: report_of_def MsgReportPrice_ValidateBasic_def split: if_splits)
  have "history_ok (AppendPriceHistory ?pd s)"
    "\<forall>e \<in> set (o_history (AppendPriceHistory ?pd s)). 0 \<le> Price (snd e)"
    using report.IH pd prices_append [of s "\<lambda>q. 0 \<le> Price q" ?pd]
    by (auto simp: oracle_inv_def intro!: history_ok_append)
  then show ?case
    using report.IH ReportPrice_Inr [OF report.hyps(3)] by (simp add: oracle_inv_def history_ok_def)
qed (auto simp: oracle_inv_def oracle_UpdateParams_def oracle_SetParams_def history_ok_def split: if_splits)

section \<open>Deviation\<close>

lemma withinDeviation_exact:
  assumes "dec_laws M" "0 < prev" "\<bar>nxt - prev\<bar> * 10000 \<le> uint bps * prev"
  shows "withinDeviation M prev nxt bps"
proof -
  have "\<bar>nxt - prev\<bar> * 10000 * decP \<le> uint bps * decP * prev"
    using mult_right_mono [OF assms(3), of decP] by (simp add: ac_simps)
  then have "dec_quo M (\<bar>nxt - prev\<bar> * 10000) prev \<le> uint bps * decP"
    by (rule dec_quo_le [OF assms(1,2)])
  then show ?thesis using assms(2) by (simp add: withinDeviation_def dec_mul_int_def dec_new_def)
qed

lemma withinDeviation_bound:
  assumes "dec_laws M" "0 < prev" "withinDeviation M prev nxt bps"
  shows "\<bar>nxt - prev\<bar> * 10000 * decP < (uint bps * decP + 1) * prev"
proof (rule ccontr)
  assume "\<not> ?thesis"
  then have "uint bps * decP + 1 \<le> dec_quo M (\<bar>nxt - prev\<bar> * 10000) prev"
    by (intro dec_quo_ge [OF assms(1,2)]) simp
  then show False using assms(2,3) by (simp add: withinDeviation_def dec_mul_int_def dec_new_def)
qed

section \<open>Genesis\<close>

lemma fold_append_history:
  "o_history (fold AppendPriceHistory hs s) =
   fold (\<lambda>pd. kv_set (PriceHistoryKey (Timestamp pd) (Feeder pd)) pd) hs (o_history s)"
  by (induction hs arbitrary: s) (simp_all add: AppendPriceHistory_def)

lemma append_params [simp]: "o_params (AppendPriceHistory pd s) = o_params s"
  by (simp add: AppendPriceHistory_def)

lemma fold_append_params [simp]: "o_params (fold AppendPriceHistory hs s) = o_params s"
  by (induction hs arbitrary: s) (simp_all add: AppendPriceHistory_def)

lemma history_rebuilt:
  assumes "history_ok s"
  shows "fold (\<lambda>pd. kv_set (PriceHistoryKey (Timestamp pd) (Feeder pd)) pd) (map snd (rev (o_history s))) [] = o_history s"
proof (rule kv_ext)
  show "kv_inv (o_history s)" using assms by (simp add: history_ok_def)
  then have d: "distinct (map fst (rev (o_history s)))"
    using kv_inv_distinct by (simp add: rev_map [symmetric])
  have k: "\<forall>e \<in> set (rev (o_history s)). fst e = PriceHistoryKey (Timestamp (snd e)) (Feeder (snd e))"
    using assms by (auto simp: history_ok_def entry_ok_def)
  have "map_of (rev (o_history s)) = map_of (o_history s)"
    using d by (intro map_of_inject_set [THEN iffD2]) (simp_all add: rev_map [symmetric])
  then show "kv_get (fold (\<lambda>pd. kv_set (PriceHistoryKey (Timestamp pd) (Feeder pd)) pd)
      (map snd (rev (o_history s))) []) = kv_get (o_history s)"
    using fold_kv_set [OF k d, of "[]"] by (simp add: kv_get_map_of)
qed (simp add: kv_inv_fold_set)

lemma findLatestPrice_newest:
  "findLatestPrice p ps \<in> set (p # ps) \<and> (\<forall>q \<in> set (p # ps). Timestamp q \<le> Timestamp (findLatestPrice p ps))"
proof (induction p ps rule: findLatestPrice.induct)
  case (2 latest pd pds)
  then show ?case by (cases "Timestamp pd > Timestamp latest") auto
qed simp

lemma GetPricesSince_cong: "o_history s = o_history t \<Longrightarrow> GetPricesSince now s since = GetPricesSince now t since"
  by (simp add: GetPricesSince_def)

lemma promotes_cong: "o_history s = o_history t \<Longrightarrow> promotes now s p = promotes now t p"
  by (simp add: promotes_def hasEnoughFreshFeeders_def cong: GetPricesSince_cong)

section \<open>The quorum and the ballot\<close>

text \<open>The reports that count at a time: stored, not older than the maximal age, whoever is on the allow list by now.\<close>

definition fresh_reports :: "int \<Rightarrow> oracle_store \<Rightarrow> oracle_params \<Rightarrow> price_data set" where
  "fresh_reports now s p = {r \<in> snd ` set (o_history s). Timestamp r \<le> now \<and>
     (MaxPriceAgeSeconds p \<noteq> 0 \<longrightarrow> now - uint (MaxPriceAgeSeconds p) \<le> Timestamp r)}"

text \<open>The newest of them for each feeder.\<close>

definition ballot :: "int \<Rightarrow> oracle_store \<Rightarrow> oracle_params \<Rightarrow> price_data set" where
  "ballot now s p = {r \<in> fresh_reports now s p. \<forall>q \<in> fresh_reports now s p. Feeder q = Feeder r \<longrightarrow> Timestamp q \<le> Timestamp r}"

lemma fresh_window:
  assumes "history_ok s" "0 \<le> now" "now < 2 ^ 63 - 1" "uint (MaxPriceAgeSeconds p) \<le> now"
  shows "set (GetPricesSince now s (freshness_cutoff now p)) = fresh_reports now s p"
proof -
  have pos: "0 \<le> uint (MaxPriceAgeSeconds p)" by simp
  then have in64: "in_int64 (now - uint (MaxPriceAgeSeconds p))" using assms(2-4) unfolding in_int64_def by linarith
  have c: "freshness_cutoff now p = (if MaxPriceAgeSeconds p = 0 then 0 else now - uint (MaxPriceAgeSeconds p))"
    using assms(3,4) in64 by (simp add: freshness_cutoff_def i64_of_u64_small)
  have "0 \<le> freshness_cutoff now p" "freshness_cutoff now p < 2 ^ 63" using assms(2-4) in64 by (simp_all add: c in_int64_def)
  note w = in_GetPricesSince [OF assms(1) this assms(2,3)]
  have "0 \<le> Timestamp r" if "r \<in> snd ` set (o_history s)" for r
    using assms(1) that by (auto simp: history_ok_def entry_ok_def)
  then show ?thesis unfolding set_eq_iff w by (auto simp: fresh_reports_def c)
qed

lemma quorum_iff:
  assumes w: "set (GetPricesSince now s (freshness_cutoff now p)) = fresh_reports now s p" and l: "length (o_history s) < 2 ^ 32"
  shows "promotes now s p \<longleftrightarrow> MinValidReports p \<le> 1 \<or> uint (MinValidReports p) \<le> int (card (Feeder ` fresh_reports now s p))"
proof -
  let ?n = "card (Feeder ` fresh_reports now s p)"
  have "?n \<le> card (set (o_history s))"
    by (rule surj_card_le [where f = "Feeder \<circ> snd"]) (auto simp: fresh_reports_def)
  also have "\<dots> \<le> length (o_history s)" by (rule card_length)
  finally have "?n < 2 ^ 32" using l by simp
  then have "uint (word_of_nat ?n :: u32) = int ?n" by (simp add: unsigned_of_nat take_bit_nat_eq_self_iff uint_nat)
  moreover have "length (remdups (map Feeder (GetPricesSince now s (freshness_cutoff now p)))) = ?n"
    by (simp add: length_remdups_card_conv w)
  ultimately show ?thesis by (auto simp: promotes_def hasEnoughFreshFeeders_def Let_def word_le_def)
qed

text \<open>The loop over the history collects exactly the ballot, one report per feeder.\<close>

lemma fresh_unique:
  assumes "history_ok s" "q \<in> fresh_reports now s p" "r \<in> fresh_reports now s p" "Feeder q = Feeder r" "Timestamp q = Timestamp r"
  shows "q = r"
proof -
  have "kv_get (o_history s) (PriceHistoryKey (Timestamp x) (Feeder x)) = Some x" if "x \<in> fresh_reports now s p" for x
    using assms(1) that by (auto simp: fresh_reports_def history_ok_def entry_ok_def kv_entry_iff [symmetric])
  from this [OF assms(2)] this [OF assms(3)] show ?thesis unfolding assms(4,5) by (metis option.inject)
qed

lemma latest_ballot:
  fixes now s p incoming
  defines "L \<equiv> latest_loop incoming (GetPricesSince now s (freshness_cutoff now p)) [(Feeder incoming, incoming)]"
  assumes ok: "history_ok s" and w: "set (GetPricesSince now s (freshness_cutoff now p)) = fresh_reports now s p"
    and i: "incoming \<in> fresh_reports now s p" "Timestamp incoming = now"
  shows "set (map snd L) = ballot now s p" "distinct (map snd L)" "inj_on Feeder (ballot now s p)"
    "Feeder ` ballot now s p = Feeder ` fresh_reports now s p"
proof -
  have d: "distinct (map fst L)" by (simp add: L_def distinct_latest_loop)
  have v: "votes_ok incoming (GetPricesSince now s (freshness_cutoff now p)) (map_of L)" unfolding L_def by (rule latest_votes)
  have max: "Timestamp q \<le> now" if "q \<in> fresh_reports now s p" for q using that by (simp add: fresh_reports_def)
  have f: "fst e = Feeder (snd e)" if "e \<in> set L" for e using votes_feeder [OF v] d that by (metis map_of_eq_Some_iff prod.collapse)
  show inj: "inj_on Feeder (ballot now s p)"
    by (rule inj_onI) (auto simp: ballot_def intro!: fresh_unique [OF ok] antisym)
  have "snd e \<in> ballot now s p" if "e \<in> set L" for e
  proof (cases "fst e = Feeder incoming")
    case True
    then have "snd e = incoming" using votes_incoming [OF v] d that by (metis map_of_eq_Some_iff option.inject prod.collapse)
    then show ?thesis using i max by (simp add: ballot_def)
  next
    case False
    have "map_of L (fst e) = Some (snd e)" using d that by simp
    from votes_newest [OF v this False] show ?thesis by (auto simp: newest_of_def ballot_def w)
  qed
  then have sub: "snd ` set L \<subseteq> ballot now s p" by auto
  have dom: "fst ` set L = Feeder ` fresh_reports now s p"
    using votes_dom [OF v] i(1) by (auto simp: dom_map_of_conv_image_fst w)
  have feed: "Feeder ` snd ` set L = fst ` set L" using f by (force simp: image_iff)
  have "Feeder ` ballot now s p \<subseteq> Feeder ` snd ` set L" unfolding feed dom by (auto simp: ballot_def)
  then have "ballot now s p \<subseteq> snd ` set L" using inj sub by (blast dest: inj_onD)
  then show b: "set (map snd L) = ballot now s p" using sub by auto
  show "Feeder ` ballot now s p = Feeder ` fresh_reports now s p" using feed dom b by simp
  have "map fst L = map Feeder (map snd L)" using f by simp
  then have "distinct (map Feeder (map snd L))" using d by (simp only:)
  then show "distinct (map snd L)" by (simp only: distinct_map)
qed

lemma medianDec_halves:
  assumes "dec_laws M" "medianDec M xs = Inr m"
  shows "length xs \<le> 2 * length (filter (\<lambda>x. x \<le> m) xs)" "length xs \<le> 2 * length (filter (\<lambda>x. m \<le> x) xs)"
proof -
  have compl: "length (filter P xs) + length (filter (\<lambda>x. \<not> P x) xs) = length xs" for P by (rule sum_length_filter_compl)
  show "length xs \<le> 2 * length (filter (\<lambda>x. x \<le> m) xs)"
  proof (rule ccontr)
    assume "\<not> ?thesis"
    then have "length xs < 2 * length (filter (\<lambda>x. \<not> x \<le> m) xs)" using compl [of "\<lambda>x. x \<le> m"] by linarith
    also have "filter (\<lambda>x. \<not> x \<le> m) xs = filter (\<lambda>x. m + 1 \<le> x \<and> x \<le> Max (set xs)) xs" by (rule filter_cong) auto
    finally show False using medianDec_majority [OF assms(1)] assms(2) by fastforce
  qed
  show "length xs \<le> 2 * length (filter (\<lambda>x. m \<le> x) xs)"
  proof (rule ccontr)
    assume "\<not> ?thesis"
    then have "length xs < 2 * length (filter (\<lambda>x. \<not> m \<le> x) xs)" using compl [of "\<lambda>x. m \<le> x"] by linarith
    also have "filter (\<lambda>x. \<not> m \<le> x) xs = filter (\<lambda>x. Min (set xs) \<le> x \<and> x \<le> m - 1) xs" by (rule filter_cong) auto
    finally show False using medianDec_majority [OF assms(1)] assms(2) by fastforce
  qed
qed


text \<open>The aggregate of the ballot, in whatever order its reports are visited.\<close>

lemma medianOfFreshReports_ballot:
  assumes laws: "dec_laws M" and ok: "history_ok s"
    and w: "set (GetPricesSince now s (freshness_cutoff now p)) = fresh_reports now s p"
    and i: "incoming \<in> fresh_reports now s p" "Timestamp incoming = now"
  obtains cur where "medianOfFreshReports M now s p incoming = Inr cur"
    "Timestamp cur = now" "Feeder cur = Feeder incoming" "Source cur = Source incoming"
    "\<And>L. distinct L \<Longrightarrow> set L = ballot now s p \<Longrightarrow>
       medianDec M (map Price L) = Inr (Price cur) \<and> medianDec M (map Volume24h L) = Inr (Volume24h cur)"
    "card (ballot now s p) \<le> 2 * card {r \<in> ballot now s p. Price r \<le> Price cur}"
    "card (ballot now s p) \<le> 2 * card {r \<in> ballot now s p. Price cur \<le> Price r}"
proof -
  let ?L = "latest_loop incoming (GetPricesSince now s (freshness_cutoff now p)) [(Feeder incoming, incoming)]" and ?B = "ballot now s p"
  note b = latest_ballot [OF ok w i]
  obtain cur where cur: "medianOfFreshReports M now s p incoming = Inr cur" using medianOfFreshReports_total by blast
  have m: "medianDec M (map (Price \<circ> snd) ?L) = Inr (Price cur) \<and> medianDec M (map (Volume24h \<circ> snd) ?L) = Inr (Volume24h cur) \<and>
      Timestamp cur = Timestamp incoming \<and> Feeder cur = Feeder incoming \<and> Source cur = Source incoming"
  proof (cases "length ?L \<le> 1")
    case True
    have "incoming \<in> set (map snd ?L)" unfolding b(1) using i by (auto simp: ballot_def fresh_reports_def)
    then have "map snd ?L = [incoming]" using True by (cases ?L) auto
    then obtain f where "?L = [(f, incoming)]" by (cases ?L) auto
    then show ?thesis using cur by (simp add: medianOfFreshReports_def medianDec_def)
  next
    case False
    then show ?thesis using cur by (auto simp: medianOfFreshReports_def Let_def)
  qed
  have any: "medianDec M (map Price L) = Inr (Price cur) \<and> medianDec M (map Volume24h L) = Inr (Volume24h cur)"
    if "distinct L" "set L = ?B" for L
  proof -
    have "mset L = mset (map snd ?L)" using set_eq_iff_mset_eq_distinct [OF that(1) b(2)] that(2) b(1) by blast
    then have "mset (map f L) = mset (map (f \<circ> snd) ?L)" for f :: "price_data \<Rightarrow> dec" by (metis map_map mset_map)
    then show ?thesis using m by (metis medianDec_mset)
  qed
  have half: "length (filter P (map Price (map snd ?L))) = card {r \<in> ?B. P (Price r)}" for P
  proof -
    have "length (filter P (map Price (map snd ?L))) = length (filter (P \<circ> Price) (map snd ?L))" by (simp add: filter_map comp_assoc)
    also have "\<dots> = card (set (filter (P \<circ> Price) (map snd ?L)))" using b(2) by (intro distinct_card [symmetric] distinct_filter)
    finally show ?thesis by (simp add: b(1) [symmetric] conj_commute)
  qed
  have "length (map Price (map snd ?L)) = card ?B" using b(1,2) distinct_card [of "map snd ?L"] by simp
  then have "card ?B \<le> 2 * card {r \<in> ?B. Price r \<le> Price cur}" "card ?B \<le> 2 * card {r \<in> ?B. Price cur \<le> Price r}"
    using medianDec_halves [OF laws any [OF b(2,1), THEN conjunct1]] half by simp_all
  then show ?thesis using that cur m any i(2) by auto
qed

section \<open>Properties\<close>

text \<open>
  C10: No minority of feeders sets the price.  Whenever a report is accepted and promoted, and the
  feeders that vote (the reporter and every feeder with a report in the freshness window) are in
  their majority members of a set \<open>G\<close> whose fresh reports lie between \<open>lo\<close> and \<open>hi\<close>, the new current
  price lies between \<open>lo\<close> and \<open>hi\<close>, whatever the others report and however often.
\<close>

theorem ReportPrice_minority_cannot_move_price:
  assumes "dec_laws M" "ReportPrice M now s msg = Inr s'"
    and "promotes now s' (oracle_GetParams s)"
    and "hist = GetPricesSince now s' (freshness_cutoff now (oracle_GetParams s))"
    and "card (voters (report_of now msg) hist) < 2 * card (voters (report_of now msg) hist \<inter> G)"
    and "\<forall>q \<in> insert (report_of now msg) (set hist). Feeder q \<in> G \<longrightarrow> lo \<le> Price q \<and> Price q \<le> hi"
  shows "\<exists>cur. o_current s' = Some cur \<and> lo \<le> Price cur \<and> Price cur \<le> hi"
proof -
  let ?s1 = "AppendPriceHistory (report_of now msg) s" and ?p = "oracle_GetParams s"
  have h: "o_history s' = o_history ?s1" by (rule ReportPrice_Inr [OF assms(2)])
  then have hist: "hist = GetPricesSince now ?s1 (freshness_cutoff now ?p)"
    using assms(4) by (simp add: GetPricesSince_def)
  obtain agg where agg: "medianOfFreshReports M now ?s1 ?p (report_of now msg) = Inr agg"
      "lo \<le> Price agg" "Price agg \<le> hi"
    by (rule medianOfFreshReports_honest [OF assms(1), where G = G and lo = lo and hi = hi])
      (use assms(5,6) in \<open>auto simp flip: hist\<close>)
  have "promotes now ?s1 ?p" using assms(3) promotes_cong [OF h] by simp
  then show ?thesis using ReportPrice_Inr(5) [OF assms(2)] agg by simp
qed


definition ex_params :: oracle_params where
  "ex_params = oracle_DefaultParams\<lparr> AllowedFeeders := [''atos1a'', ''atos1b'', ''atos1c''], MinValidReports := 2 \<rparr>"

definition ex_report :: "int \<Rightarrow> int \<Rightarrow> string \<Rightarrow> price_data" where
  "ex_report price ts f = \<lparr> Price = price, Volume24h = 7, Timestamp = ts, Feeder = f, Source = ''cex'' \<rparr>"

definition ex_store :: oracle_store where
  "ex_store = AppendPriceHistory (ex_report 100 5000 ''atos1a'')
     (AppendPriceHistory (ex_report 104 5010 ''atos1b'')
        \<lparr> o_params = Some ex_params, o_current = Some (ex_report 100 5000 ''atos1a''), o_history = [] \<rparr>)"

definition ex_msg :: msg_report_price where
  "ex_msg = \<lparr> rp_Feeder = ''atos1c'', rp_Price = 149, rp_Volume24h = 7, rp_Source = ''cex'' \<rparr>"

definition ex_after :: oracle_store where
  "ex_after = projr (ReportPrice even_math 5020 ex_store ex_msg)"

theorem ReportPrice_minority_cannot_move_price_witness:
  "\<exists>cur. o_current ex_after = Some cur \<and> 100 \<le> Price cur \<and> Price cur \<le> 104"
proof (rule ReportPrice_minority_cannot_move_price [where G = "{''atos1a'', ''atos1b''}" and M = even_math
      and now = 5020 and s = ex_store and msg = ex_msg, OF even_math_laws])
  show "ReportPrice even_math 5020 ex_store ex_msg = Inr ex_after" by code_simp
  show "promotes 5020 ex_after (oracle_GetParams ex_store)" by code_simp
  show "[ex_report 100 5000 ''atos1a'', ex_report 104 5010 ''atos1b'', ex_report 149 5020 ''atos1c''] =
     GetPricesSince 5020 ex_after (freshness_cutoff 5020 (oracle_GetParams ex_store))" by code_simp
qed (simp_all add: voters_def ex_report_def report_of_def ex_msg_def card_insert_if)

lemma IsAllowedFeeder_iff: "IsAllowedFeeder p f \<longleftrightarrow> f \<in> set (AllowedFeeders p)"
proof -
  have "is_allowed f fs \<longleftrightarrow> f \<in> set fs" for fs by (induction fs) auto
  then show ?thesis by (simp add: IsAllowedFeeder_def)
qed

lemma medianOfFreshReports_cong:
  "o_history s = o_history t \<Longrightarrow> medianOfFreshReports M now s p pd = medianOfFreshReports M now t p pd"
  by (simp add: medianOfFreshReports_def cong: GetPricesSince_cong)

text \<open>
  C30: What \<^verbatim>\<open>ReportPrice\<close> does on every branch.  It fails exactly for a feeder that is not allow-listed and for a
  price outside the deviation cap, and never panics.  On success it stores the report under its own key and no other and
  leaves the parameters alone.  The current price stays as it is while fewer distinct feeders than required have a
  fresh report, where a report counts whether or not its feeder is still allow-listed.  Otherwise it becomes the median
  of the ballot, the newest fresh report of each of these feeders: in whatever order the ballot is visited the median is the
  same, and at least half of the ballot lies on either side of it.
\<close>

theorem ReportPrice_outcome:
  fixes M now s msg
  defines "pd \<equiv> report_of now msg" and "p \<equiv> oracle_GetParams s"
  assumes laws: "dec_laws M" and ok: "history_ok s" and len: "length (o_history s) < 2 ^ 32 - 1"
    and time: "0 \<le> now" "now < 2 ^ 63 - 1" "uint (MaxPriceAgeSeconds p) \<le> now"
  shows "case ReportPrice M now s msg of
           Inl e \<Rightarrow> e = ErrUnauthorizedFeeder \<and> rp_Feeder msg \<notin> set (AllowedFeeders p) \<or>
                   e = ErrPriceDeviationTooHigh \<and> \<not> deviation_ok M s (rp_Price msg)
         | Inr s' \<Rightarrow> rp_Feeder msg \<in> set (AllowedFeeders p) \<and> deviation_ok M s (rp_Price msg) \<and>
             o_params s' = o_params s \<and>
             kv_get (o_history s') = (kv_get (o_history s))(PriceHistoryKey now (rp_Feeder msg) \<mapsto> pd) \<and>
             (if 1 < uint (MinValidReports p) \<and> int (card (Feeder ` fresh_reports now s' p)) < uint (MinValidReports p)
              then o_current s' = o_current s
              else \<exists>cur. o_current s' = Some cur \<and> Timestamp cur = now \<and> Feeder cur = rp_Feeder msg \<and> Source cur = rp_Source msg \<and>
                pd \<in> ballot now s' p \<and> inj_on Feeder (ballot now s' p) \<and> Feeder ` ballot now s' p = Feeder ` fresh_reports now s' p \<and>
                (\<forall>L. distinct L \<and> set L = ballot now s' p \<longrightarrow>
                   medianDec M (map Price L) = Inr (Price cur) \<and> medianDec M (map Volume24h L) = Inr (Volume24h cur)) \<and>
                card (ballot now s' p) \<le> 2 * card {r \<in> ballot now s' p. Price r \<le> Price cur} \<and>
                card (ballot now s' p) \<le> 2 * card {r \<in> ballot now s' p. Price cur \<le> Price r})"
proof (cases "ReportPrice M now s msg")
  case (Inl e)
  then show ?thesis
    using medianOfFreshReports_total [of M now "AppendPriceHistory pd s" p pd]
    by (auto simp: ReportPrice_cases IsAllowedFeeder_iff p_def pd_def split: if_splits)
next
  case (Inr s')
  note r = ReportPrice_Inr [OF Inr, folded p_def pd_def]
  have ts: "Timestamp pd = now" "Feeder pd = rp_Feeder msg" "Source pd = rp_Source msg" by (simp_all add: pd_def report_of_def)
  have k: "kv_get (o_history s') = (kv_get (o_history s))(PriceHistoryKey now (rp_Feeder msg) \<mapsto> pd)"
    using r(4) ts by (simp add: AppendPriceHistory_def kv_get_set)
  have ok': "history_ok s'"
    using history_ok_append [OF ok, of pd] time ts(1) by (simp add: history_ok_def r(4))
  note w = fresh_window [OF ok' time]
  have "kv_get (o_history s') (PriceHistoryKey now (rp_Feeder msg)) = Some pd" by (simp add: k)
  then have "(PriceHistoryKey now (rp_Feeder msg), pd) \<in> set (o_history s')"
    using ok' by (simp add: kv_entry_iff history_ok_def)
  then have fresh: "pd \<in> fresh_reports now s' p" using ts(1) by (force simp: fresh_reports_def)
  have "length (o_history s') \<le> Suc (length (o_history s))" using r(4) by (simp add: AppendPriceHistory_def length_kv_set_le)
  then have q: "promotes now s' p \<longleftrightarrow> MinValidReports p \<le> 1 \<or> uint (MinValidReports p) \<le> int (card (Feeder ` fresh_reports now s' p))"
    using len by (intro quorum_iff [OF w]) simp
  have mem: "pd \<in> ballot now s' p" using fresh ts(1) by (auto simp: ballot_def fresh_reports_def)
  obtain cur where "medianOfFreshReports M now s' p pd = Inr cur" "Timestamp cur = now" "Feeder cur = Feeder pd" "Source cur = Source pd"
    "\<And>L. distinct L \<Longrightarrow> set L = ballot now s' p \<Longrightarrow>
       medianDec M (map Price L) = Inr (Price cur) \<and> medianDec M (map Volume24h L) = Inr (Volume24h cur)"
    "card (ballot now s' p) \<le> 2 * card {r \<in> ballot now s' p. Price r \<le> Price cur}"
    "card (ballot now s' p) \<le> 2 * card {r \<in> ballot now s' p. Price cur \<le> Price r}"
    by (rule medianOfFreshReports_ballot [OF laws ok' w fresh ts(1)]) blast
  moreover have "MinValidReports p \<le> 1 \<longleftrightarrow> \<not> 1 < uint (MinValidReports p)" by (simp add: word_le_def not_less)
  ultimately show ?thesis
    using r(1-3,5) k q mem latest_ballot(3,4) [OF ok' w fresh ts(1)] ts promotes_cong [OF r(4)] medianOfFreshReports_cong [OF r(4)]
    by (auto simp: Inr IsAllowedFeeder_iff not_less)
qed

text \<open>
  C31: The deviation cap cannot be switched off.  In every state reachable from a validated genesis by
  blocks, reports and parameter updates, an accepted report moves a positive current price by at most
  the configured basis points, up to the rounding of one unit in the eighteenth decimal of the
  quotient, and the configured cap is never zero.
\<close>

theorem reachable_reports_within_cap:
  assumes "dec_laws M" "oracle_reach M A authority now s"
    and "ReportPrice M now s msg = Inr s'" "o_current s = Some cur" "0 < Price cur"
  shows "\<bar>rp_Price msg - Price cur\<bar> * 10000 * decP
           < (uint (MaxPriceDeviationBps (oracle_GetParams s)) * decP + 1) * Price cur
         \<and> 0 < MaxPriceDeviationBps (oracle_GetParams s)"
proof -
  obtain p where p: "o_params s = Some p" "oracle_Params_Validate A p = Inr ()"
    using oracle_reach_inv [OF assms(2)] by (auto simp: oracle_inv_def)
  then have pos: "0 < MaxPriceDeviationBps (oracle_GetParams s)"
    by (auto simp: oracle_GetParams_def oracle_Params_Validate_def word_neq_0_conv split: if_splits)
  have "deviation_ok M s (rp_Price msg)" by (rule ReportPrice_Inr [OF assms(3)])
  then show ?thesis
    using pos assms(4,5) withinDeviation_bound [OF assms(1,5)] by (simp add: deviation_ok_def)
qed

definition ex_genesis :: oracle_genesis where
  "ex_genesis = \<lparr> og_params = ex_params, og_history = [ex_report 100 5000 ''atos1a''] \<rparr>"

definition ex_started :: oracle_store where
  "ex_started = projr (oracle_InitGenesis tag_codec oracle_empty ex_genesis)"

lemma ex_started_reach: "oracle_reach even_math tag_codec ''gov'' 5020 ex_started"
proof (rule oracle_reach.genesis)
  show "oracle_GenesisState_Validate tag_codec ex_genesis = Inr ()" by code_simp
  show "oracle_InitGenesis tag_codec oracle_empty ex_genesis = Inr ex_started" by code_simp
qed (simp_all add: ex_genesis_def ex_report_def in_int64_def)

theorem reachable_reports_within_cap_witness:
  "\<bar>149 - 100\<bar> * 10000 * decP < (uint (MaxPriceDeviationBps (oracle_GetParams ex_started)) * decP + 1) * 100 \<and>
   0 < MaxPriceDeviationBps (oracle_GetParams ex_started)"
proof -
  have "ReportPrice even_math 5020 ex_started ex_msg = Inr (projr (ReportPrice even_math 5020 ex_started ex_msg))"
    by code_simp
  moreover have "o_current ex_started = Some (ex_report 100 5000 ''atos1a'')" by code_simp
  ultimately show ?thesis
    using reachable_reports_within_cap [OF even_math_laws ex_started_reach]
    by (force simp: ex_msg_def ex_report_def)
qed

text \<open>
  C32: The time-weighted average exists and is an average.  When the lookback window holds a report,
  \<^verbatim>\<open>CalculateTWAP\<close> returns a price and a volume, and each lies between any bounds that hold for all the
  reports of the window.
\<close>

theorem CalculateTWAP_between:
  assumes "dec_laws M" "lookback \<noteq> 0"
    and "ps = GetPricesSince now s (wrap64 (now - i64_of_u64 lookback))" "ps \<noteq> []"
    and "\<forall>q \<in> set ps. lo \<le> Price q \<and> Price q \<le> hi \<and> vlo \<le> Volume24h q \<and> Volume24h q \<le> vhi"
  shows "\<exists>p v. CalculateTWAP M now s lookback = Inr (p, v) \<and> lo \<le> p \<and> p \<le> hi \<and> vlo \<le> v \<and> v \<le> vhi"
proof -
  obtain out where out: "collapseSameTimestampPrices M ps = Inr out" "out \<noteq> []"
    "\<And>q. q \<in> set out \<Longrightarrow> lo \<le> Price q \<and> Price q \<le> hi \<and> vlo \<le> Volume24h q \<and> Volume24h q \<le> vhi"
    by (rule collapse_between [OF assms(1,4)]) (use assms(5) in auto)
  define ds where "ds = twap_durations now out"
  have len: "length out = length ds" by (simp add: ds_def)
  note r = CalculateTWAP_collapsed [OF assms(1,2) assms(3) [symmetric] assms(4) out(1,2), folded ds_def]
  let ?W = "sum_list (map (\<lambda>(q, d). Price q * d) (zip out ds))" and ?V = "sum_list (map Volume24h out)"
  have inz: "0 < d \<and> lo \<le> Price q \<and> Price q \<le> hi" if "(q, d) \<in> set (zip out ds)" for q d
    using that out(3) twap_durations_pos by (metis ds_def set_zip_leftD set_zip_rightD)
  have "lo * sum_list ds \<le> ?W" "?W \<le> hi * sum_list ds"
    using weighted_between [of "zip out ds" lo Price hi, OF inz] len by simp_all
  then have "lo * (sum_list ds * decP) \<le> ?W * decP" "?W * decP \<le> hi * (sum_list ds * decP)"
    using mult_right_mono [of _ _ decP] by (simp_all add: mult.assoc [symmetric])
  then have price: "lo \<le> dec_quo M ?W (sum_list ds * decP)" "dec_quo M ?W (sum_list ds * decP) \<le> hi"
    using r(2) assms(1) by (simp_all add: dec_quo_ge dec_quo_le)
  have "vlo * int (length out) \<le> ?V" "?V \<le> vhi * int (length out)"
    using out(3) sum_list_map_le [of out "\<lambda>_. vlo" Volume24h] sum_list_map_le [of out Volume24h "\<lambda>_. vhi"]
    by (simp_all add: sum_list_triv mult.commute)
  then have "vlo * (int (length out) * decP) \<le> ?V * decP" "?V * decP \<le> vhi * (int (length out) * decP)"
    using mult_right_mono [of _ _ decP] by (simp_all add: mult.assoc [symmetric])
  then have "vlo \<le> dec_quo M ?V (int (length out) * decP)" "dec_quo M ?V (int (length out) * decP) \<le> vhi"
    using out(2) assms(1) by (simp_all add: dec_quo_ge dec_quo_le)
  with r(1) price show ?thesis by blast
qed

theorem CalculateTWAP_between_witness:
  "\<exists>p v. CalculateTWAP even_math 5020 ex_store 3600 = Inr (p, v) \<and> 100 \<le> p \<and> p \<le> 104 \<and> 7 \<le> v \<and> v \<le> 7"
proof (rule CalculateTWAP_between [OF even_math_laws])
  show "[ex_report 100 5000 ''atos1a'', ex_report 104 5010 ''atos1b''] =
    GetPricesSince 5020 ex_store (wrap64 (5020 - i64_of_u64 3600))" by code_simp
qed (simp_all add: ex_report_def)

text \<open>
  C33: The window that the average, the quorum and the median read.  For a well-keyed history and times
  of a non-negative \<^verbatim>\<open>int64\<close>, \<^verbatim>\<open>GetPricesSince\<close> returns exactly the stored reports from \<open>since\<close> up to the
  block time, both included, in ascending order of time, and \<^verbatim>\<open>GetPriceHistory\<close> returns newest first.
\<close>

theorem price_window_exact:
  assumes "history_ok s" "0 \<le> since" "since < 2 ^ 63" "0 \<le> now" "now < 2 ^ 63 - 1"
  shows "set (GetPricesSince now s since) =
           {pd \<in> snd ` set (o_history s). since \<le> Timestamp pd \<and> Timestamp pd \<le> now} \<and>
         sorted (map Timestamp (GetPricesSince now s since)) \<and>
         sorted (rev (map Timestamp (GetPriceHistory s limit)))"
  using in_GetPricesSince [OF assms] GetPricesSince_sorted [OF assms(1)] GetPriceHistory_newest_first [OF assms(1)]
  by blast

lemma ex_store_ok: "history_ok ex_store"
  unfolding ex_store_def by (intro history_ok_append) (simp_all add: history_ok_def ex_report_def)

theorem ReportPrice_outcome_witness:
  "\<exists>cur. ReportPrice even_math 5020 ex_store ex_msg = Inr ex_after \<and> o_current ex_after = Some cur \<and>
     Timestamp cur = 5020 \<and> Feeder cur = ''atos1c'' \<and> medianDec even_math [149, 104, 100] = Inr (Price cur)"
proof -
  let ?p = "oracle_GetParams ex_store"
  let ?L = "[ex_report 149 5020 ''atos1c'', ex_report 104 5010 ''atos1b'', ex_report 100 5000 ''atos1a'']"
  have v: "length (o_history ex_store) = 2" "uint (MaxPriceAgeSeconds ?p) \<le> 5020" "uint (MinValidReports ?p) = 2"
    "ReportPrice even_math 5020 ex_store ex_msg = Inr ex_after" "rp_Feeder ex_msg = ''atos1c''"
    "map snd (o_history ex_after) = rev ?L"
    "list_all (\<lambda>r. Timestamp r \<le> 5020 \<and> 5020 - uint (MaxPriceAgeSeconds ?p) \<le> Timestamp r) ?L" by code_simp+
  have "set (map snd (o_history ex_after)) = set ?L" unfolding v(6) by (rule set_rev)
  then have "snd ` set (o_history ex_after) = set ?L" by (simp only: set_map)
  then have f: "fresh_reports 5020 ex_after ?p = set ?L" using v(7) by (auto simp: fresh_reports_def)
  have b: "ballot 5020 ex_after ?p = set ?L" unfolding ballot_def f by (auto simp: ex_report_def)
  have c: "card (Feeder ` fresh_reports 5020 ex_after ?p) = 3" by (simp add: f ex_report_def)
  have d: "distinct ?L" by (simp add: ex_report_def)
  from ReportPrice_outcome [OF even_math_laws ex_store_ok, of 5020 ex_msg] v(1-5) c obtain cur where
    "o_current ex_after = Some cur" "Timestamp cur = 5020" "Feeder cur = ''atos1c''"
    "\<forall>L. distinct L \<and> set L = ballot 5020 ex_after ?p \<longrightarrow> medianDec even_math (map Price L) = Inr (Price cur)" by auto
  moreover have "map Price ?L = [149, 104, 100]" by (simp add: ex_report_def)
  ultimately show ?thesis using v(4) d b by metis
qed

theorem price_window_exact_witness:
  "set (GetPricesSince 5020 ex_store 5005) =
     {pd \<in> snd ` set (o_history ex_store). 5005 \<le> Timestamp pd \<and> Timestamp pd \<le> 5020} \<and>
   sorted (map Timestamp (GetPricesSince 5020 ex_store 5005)) \<and>
   sorted (rev (map Timestamp (GetPriceHistory ex_store 100)))"
  using price_window_exact [OF ex_store_ok, of 5005 5020 100] by simp

text \<open>
  C34: A report keeps its history through an export and import.  For a state with valid parameters and at most
  ten thousand reports, importing the exported genesis into an empty store restores the parameters and
  every report, and sets the current price to one of the reports with the latest time.
\<close>

theorem genesis_round_trip:
  assumes "history_ok s" "oracle_Params_Validate A (oracle_GetParams s) = Inr ()"
    and "length (o_history s) \<le> 10000"
  shows "\<exists>s'. oracle_InitGenesis A oracle_empty (oracle_ExportGenesis s) = Inr s' \<and>
           oracle_GetParams s' = oracle_GetParams s \<and> o_history s' = o_history s \<and>
           (case o_current s' of
              None \<Rightarrow> o_history s = []
            | Some cur \<Rightarrow> cur \<in> snd ` set (o_history s) \<and>
                (\<forall>pd \<in> snd ` set (o_history s). Timestamp pd \<le> Timestamp cur))"
proof -
  let ?gs = "oracle_ExportGenesis s" and ?s1 = "oracle_empty\<lparr>o_params := Some (oracle_GetParams s)\<rparr>"
  have h: "og_history ?gs = map snd (rev (o_history s))"
    using assms(3) by (simp add: oracle_ExportGenesis_def GetPriceHistory_def)
  have hist: "o_history (fold AppendPriceHistory (og_history ?gs) ?s1) = o_history s"
    using history_rebuilt [OF assms(1)] by (simp add: fold_append_history h oracle_empty_def)
  have init: "oracle_InitGenesis A oracle_empty ?gs =
      Inr (case og_history ?gs of [] \<Rightarrow> fold AppendPriceHistory (og_history ?gs) ?s1
           | pd # pds \<Rightarrow> SetCurrentPrice (findLatestPrice pd pds) (fold AppendPriceHistory (og_history ?gs) ?s1))"
    using assms(2) by (simp add: oracle_InitGenesis_def oracle_SetParams_def oracle_ExportGenesis_def Let_def split: list.split)
  show ?thesis
  proof (cases "og_history ?gs")
    case Nil
    then have "o_history s = []" using h by simp
    then show ?thesis using init Nil by (simp add: oracle_GetParams_def oracle_empty_def)
  next
    case (Cons pd pds)
    have "set (pd # pds) = snd ` set (o_history s)" using h Cons by (metis set_map set_rev)
    then show ?thesis
      using init hist Cons findLatestPrice_newest [of pd pds]
      by (simp add: SetCurrentPrice_def oracle_GetParams_def)
  qed
qed

theorem genesis_round_trip_witness:
  "\<exists>s'. oracle_InitGenesis tag_codec oracle_empty (oracle_ExportGenesis ex_store) = Inr s' \<and>
     oracle_GetParams s' = oracle_GetParams ex_store \<and> o_history s' = o_history ex_store \<and>
     (case o_current s' of
        None \<Rightarrow> o_history ex_store = []
      | Some cur \<Rightarrow> cur \<in> snd ` set (o_history ex_store) \<and>
          (\<forall>pd \<in> snd ` set (o_history ex_store). Timestamp pd \<le> Timestamp cur))"
proof (rule genesis_round_trip [OF ex_store_ok])
  show "oracle_Params_Validate tag_codec (oracle_GetParams ex_store) = Inr ()" by code_simp
  have "length (o_history ex_store) = 2" by code_simp
  then show "length (o_history ex_store) \<le> 10000" by simp
qed

end
