(* ===== verification/EnergyTypes.thy ===== *)
theory EnergyTypes
  imports KVStore "HOL-Library.Product_Lexorder"
begin

text \<open>
  The types of the energy module (\<^verbatim>\<open>x/energy/types\<close> and the result types of
  \<^verbatim>\<open>x/energy/keeper/consume.go\<close>): parameters, accounts, delegations, the capacity formula, genesis and
  the stateless checks of the messages.  Every energy amount is a \<^verbatim>\<open>uint64\<close> and stays a word.
\<close>

section \<open>Records\<close>

record energy_params =
  EnergyEnabled :: bool
  TxEnergyHoldingThreshold :: int
  TxEnergyPerThreshold :: u64
  TxEnergyMaxAccrueWindow :: int
  DeployHoldingThreshold :: int
  DeployEnergyCapacity :: u64
  DeployRecoverDays :: int
  InsufficientGasPrice :: dec
  SubsidizedMsgTypeUrls :: "string list"
  PrivacyRelayerWhitelist :: "string list"
  DefaultDelegationDurationSeconds :: int
  MaxDelegationDurationSeconds :: int

record energy_account =
  Address :: string
  TxEnergyAccrued :: u64
  DeployEnergyAccrued :: u64
  LastBalanceSnapshot :: int
  LastUpdatedTime :: int
  DelegatedOut :: u64
  DelegatedInUsable :: u64
  LockedAtos :: int
  StakedSnapshot :: int

record energy_delegation =
  d_Id :: u64
  d_Delegator :: string
  d_Delegatee :: string
  d_Amount :: u64
  d_LockedAtos :: int
  d_StartTime :: int
  d_ExpiresAt :: int
  d_Used :: u64

text \<open>What one call of \<^verbatim>\<open>Consume\<close> drew from which pool, and the marker that keeps it until the block ends.\<close>

record consume_result =
  EnergyDeducted :: u64
  OwnDeducted :: u64
  DelegatedDeducted :: u64
  DeployEnergyUsed :: u64
  ShortfallGas :: u64
  Free :: bool
  DelegationConsumptions :: "(u64 \<times> u64) list"

record pending_reservation =
  pr_Signer :: string
  pr_GasLimit :: u64
  pr_ConsumeResult :: consume_result

record energy_store =
  e_params :: "energy_params option"
  e_accounts :: "(string, energy_account) kv"
  e_delegations :: "(u64, energy_delegation) kv"
  e_by_expiry :: "(u64 \<times> u64, unit) kv"
  e_by_delegator :: "(string \<times> u64, unit) kv"
  e_by_delegatee :: "(string \<times> u64, unit) kv"
  e_next_id :: "u64 option"
  e_pending :: "(string, pending_reservation) kv"

record energy_genesis =
  eg_params :: energy_params
  eg_accounts :: "energy_account list"
  eg_delegations :: "energy_delegation list"
  eg_next_id :: u64

definition empty_result :: consume_result where
  "empty_result =
     \<lparr> EnergyDeducted = 0, OwnDeducted = 0, DelegatedDeducted = 0, DeployEnergyUsed = 0,
       ShortfallGas = 0, Free = False, DelegationConsumptions = [] \<rparr>"

section \<open>Saturating arithmetic\<close>

definition saturatingMulU64 :: "u64 \<Rightarrow> u64 \<Rightarrow> u64" where
  "saturatingMulU64 a b =
     (if a = 0 \<or> b = 0 then 0
      else if a > max_u64 div b then max_u64
      else a * b)"

definition saturatingAdd :: "u64 \<Rightarrow> u64 \<Rightarrow> u64" where
  "saturatingAdd a b = (if a > max_u64 - b then max_u64 else a + b)"

definition saturatingMul :: "u64 \<Rightarrow> u64 \<Rightarrow> u64" where
  "saturatingMul a b =
     (if a = 0 \<or> b = 0 then 0
      else if a > max_u64 div b then max_u64
      else a * b)"

definition minU64 :: "u64 \<Rightarrow> u64 \<Rightarrow> u64" where
  "minU64 a b = (if a < b then a else b)"

text \<open>\<^verbatim>\<open>Int.IsUint64\<close> and \<^verbatim>\<open>Int.Uint64\<close>.\<close>

definition is_u64 :: "int \<Rightarrow> bool" where
  "is_u64 i \<longleftrightarrow> 0 \<le> i \<and> i < 2 ^ 64"

definition safeIntToUint64 :: "int \<Rightarrow> u64" where
  "safeIntToUint64 i =
     (if \<not> i > 0 then 0 else if \<not> is_u64 i then max_u64 else word_of_int i)"

section \<open>Parameters\<close>

definition energy_DefaultParams :: energy_params where
  "energy_DefaultParams =
     \<lparr> EnergyEnabled = True,
       TxEnergyHoldingThreshold = 10 ^ 18 * 30000,
       TxEnergyPerThreshold = 50000,
       TxEnergyMaxAccrueWindow = 86400,
       DeployHoldingThreshold = 10 ^ 18 * 1000000,
       DeployEnergyCapacity = 800000,
       DeployRecoverDays = 10,
       InsufficientGasPrice = 21 * 10 ^ 14,
       SubsidizedMsgTypeUrls =
         [''/atoshi.tokenomics.v1.MsgClaimMigrationTokens'', ''/atoshi.oracle.v1.MsgReportPrice'',
          ''/atoshi.energy.v1.MsgDelegateEnergy'', ''/atoshi.energy.v1.MsgUndelegateEnergy''],
       PrivacyRelayerWhitelist = [],
       DefaultDelegationDurationSeconds = 86400,
       MaxDelegationDurationSeconds = 86400 \<rparr>"

fun validate_relayers :: "addr_codec \<Rightarrow> string list \<Rightarrow> unit result" where
  "validate_relayers A [] = Inr ()"
| "validate_relayers A (a # as) =
     (if acc_from_bech32 A a = None then Inl (Err ''invalid privacy relayer address'')
      else validate_relayers A as)"

definition energy_Params_Validate :: "addr_codec \<Rightarrow> energy_params \<Rightarrow> unit result" where
  "energy_Params_Validate A p =
     (if \<not> TxEnergyHoldingThreshold p > 0 then Inl (Err ''tx_energy_holding_threshold must be positive'')
      else if TxEnergyPerThreshold p = 0 then Inl (Err ''tx_energy_per_threshold must be positive'')
      else if TxEnergyMaxAccrueWindow p \<le> 0 then Inl (Err ''tx_energy_max_accrue_window must be positive'')
      else if \<not> DeployHoldingThreshold p > 0 then Inl (Err ''deploy_holding_threshold must be positive'')
      else if DeployEnergyCapacity p = 0 then Inl (Err ''deploy_energy_capacity must be positive'')
      else if DeployRecoverDays p \<le> 0 then Inl (Err ''deploy_recover_days must be positive'')
      else if InsufficientGasPrice p < 0 then Inl (Err ''insufficient_gas_price cannot be negative'')
      else bindR (validate_relayers A (PrivacyRelayerWhitelist p)) (\<lambda>_.
        if DefaultDelegationDurationSeconds p < 0
        then Inl (Err ''default_delegation_duration_seconds cannot be negative'')
        else if MaxDelegationDurationSeconds p < 0
        then Inl (Err ''max_delegation_duration_seconds cannot be negative'')
        else if MaxDelegationDurationSeconds p > 0 \<and>
                DefaultDelegationDurationSeconds p > MaxDelegationDurationSeconds p
        then Inl (Err ''default_delegation_duration_seconds exceeds max_delegation_duration_seconds'')
        else Inr ()))"

fun url_listed :: "string \<Rightarrow> string list \<Rightarrow> bool" where
  "url_listed u [] = False"
| "url_listed u (t # ts) = (if t = u then True else url_listed u ts)"

definition IsSubsidizedMsg :: "energy_params \<Rightarrow> string \<Rightarrow> bool" where
  "IsSubsidizedMsg p u = url_listed u (SubsidizedMsgTypeUrls p)"

definition NewEnergyAccount :: "string \<Rightarrow> energy_account" where
  "NewEnergyAccount addr =
     \<lparr> Address = addr, TxEnergyAccrued = 0, DeployEnergyAccrued = 0, LastBalanceSnapshot = 0,
       LastUpdatedTime = 0, DelegatedOut = 0, DelegatedInUsable = 0, LockedAtos = 0,
       StakedSnapshot = 0 \<rparr>"

definition TxEnergyCapacity :: "int \<Rightarrow> energy_params \<Rightarrow> u64" where
  "TxEnergyCapacity eligible p =
     (if \<not> eligible > 0 then 0
      else if \<not> TxEnergyHoldingThreshold p > 0 then 0
      else let units = quoT eligible (TxEnergyHoldingThreshold p) in
           if \<not> is_u64 units then max_u64
           else saturatingMulU64 (word_of_int units) (TxEnergyPerThreshold p))"

section \<open>Genesis and messages\<close>

definition energy_DefaultGenesisState :: energy_genesis where
  "energy_DefaultGenesisState =
     \<lparr> eg_params = energy_DefaultParams, eg_accounts = [], eg_delegations = [], eg_next_id = 1 \<rparr>"

fun validate_accounts :: "addr_codec \<Rightarrow> energy_account list \<Rightarrow> unit result" where
  "validate_accounts A [] = Inr ()"
| "validate_accounts A (a # as) =
     (if acc_from_bech32 A (Address a) = None then Inl (Err ''genesis account has bad address'')
      else validate_accounts A as)"

fun validate_delegations :: "addr_codec \<Rightarrow> energy_delegation list \<Rightarrow> unit result" where
  "validate_delegations A [] = Inr ()"
| "validate_delegations A (d # ds) =
     (if d_Id d = 0 then Inl (Err ''genesis delegation has zero id'')
      else if acc_from_bech32 A (d_Delegator d) = None then Inl (Err ''genesis delegation bad delegator'')
      else if acc_from_bech32 A (d_Delegatee d) = None then Inl (Err ''genesis delegation bad delegatee'')
      else validate_delegations A ds)"

definition energy_GenesisState_Validate :: "addr_codec \<Rightarrow> energy_genesis \<Rightarrow> unit result" where
  "energy_GenesisState_Validate A gs =
     bindR (energy_Params_Validate A (eg_params gs)) (\<lambda>_.
     bindR (validate_accounts A (eg_accounts gs)) (\<lambda>_.
     validate_delegations A (eg_delegations gs)))"

record msg_delegate_energy =
  md_Delegator :: string
  md_Delegatee :: string
  md_Amount :: u64
  md_DurationSeconds :: int

definition MsgDelegateEnergy_ValidateBasic :: "addr_codec \<Rightarrow> msg_delegate_energy \<Rightarrow> unit result" where
  "MsgDelegateEnergy_ValidateBasic A msg =
     (if acc_from_bech32 A (md_Delegator msg) = None then Inl ErrInvalidAddress
      else if acc_from_bech32 A (md_Delegatee msg) = None then Inl ErrInvalidAddress
      else if md_Delegator msg = md_Delegatee msg then Inl ErrSelfDelegation
      else if md_Amount msg = 0 then Inl ErrInvalidAmount
      else if md_DurationSeconds msg < 0 then Inl ErrInvalidDuration
      else Inr ())"

definition MsgUndelegateEnergy_ValidateBasic :: "addr_codec \<Rightarrow> string \<Rightarrow> u64 \<Rightarrow> unit result" where
  "MsgUndelegateEnergy_ValidateBasic A delegator did =
     (if acc_from_bech32 A delegator = None then Inl ErrInvalidAddress
      else if did = 0 then Inl ErrDelegationNotFound
      else Inr ())"

definition energy_MsgUpdateParams_ValidateBasic ::
  "addr_codec \<Rightarrow> string \<Rightarrow> energy_params \<Rightarrow> unit result" where
  "energy_MsgUpdateParams_ValidateBasic A authority p =
     (if acc_from_bech32 A authority = None then Inl ErrInvalidAddress
      else energy_Params_Validate A p)"

section \<open>Store keys\<close>

definition PendingReservationKey :: "string \<Rightarrow> string" where
  "PendingReservationKey txHash = char_of (8 :: nat) # txHash"

definition energy_AccountKey :: "string \<Rightarrow> string" where
  "energy_AccountKey addr = char_of (2 :: nat) # addr"

definition DelegationKey :: "u64 \<Rightarrow> string" where
  "DelegationKey did = char_of (3 :: nat) # be64 did"

definition DelegationByExpiryKey :: "int \<Rightarrow> u64 \<Rightarrow> string" where
  "DelegationByExpiryKey expiresAt did = char_of (4 :: nat) # be64 (u64_of_i64 expiresAt) @ be64 did"

definition DelegationByDelegatorKey :: "string \<Rightarrow> u64 \<Rightarrow> string" where
  "DelegationByDelegatorKey delegator did = char_of (5 :: nat) # delegator @ ''/'' @ be64 did"

definition DelegationByDelegateeKey :: "string \<Rightarrow> u64 \<Rightarrow> string" where
  "DelegationByDelegateeKey delegatee did = char_of (6 :: nat) # delegatee @ ''/'' @ be64 did"

section \<open>Saturation is clamping\<close>

text \<open>
  A saturating operation on \<^verbatim>\<open>uint64\<close>: a result that is the exact one when it fits and the largest
  \<^verbatim>\<open>uint64\<close> otherwise.  The locale holds what every client of such an operation uses.
\<close>

locale saturating =
  fixes op :: "u64 \<Rightarrow> u64 \<Rightarrow> u64"
    and exact :: "nat \<Rightarrow> nat \<Rightarrow> nat"
  assumes unat_op: "unat (op a b) = min (exact (unat a) (unat b)) (2 ^ 64 - 1)"
    and exact_mono: "m \<le> m' \<Longrightarrow> n \<le> n' \<Longrightarrow> exact m n \<le> exact m' n'"
    and exact_comm: "exact m n = exact n m"
begin

lemma op_mono: "a \<le> a' \<Longrightarrow> b \<le> b' \<Longrightarrow> op a b \<le> op a' b'"
  using exact_mono [of "unat a" "unat a'" "unat b" "unat b'"]
  by (auto simp: word_le_nat_alt unat_op)

lemma op_comm: "op a b = op b a"
  by (simp add: word_unat_eq_iff unat_op exact_comm [of "unat a"])

lemma op_exact: "exact (unat a) (unat b) < 2 ^ 64 \<Longrightarrow> unat (op a b) = exact (unat a) (unat b)"
  by (simp add: unat_op)

end

lemma unat_le_max: "unat (u :: u64) \<le> 2 ^ 64 - 1"
  using unat_u64_less [of u] by simp

lemma saturatingAdd_unat: "unat (saturatingAdd a b) = min (unat a + unat b) (2 ^ 64 - 1)"
proof (cases "a > max_u64 - b")
  case True
  have "unat (max_u64 - b) = 2 ^ 64 - 1 - unat b"
    using unat_le_max [of b] by (subst unat_sub) (auto simp: word_le_nat_alt unat_max_u64)
  with True show ?thesis by (simp add: saturatingAdd_def word_less_nat_alt unat_max_u64)
next
  case False
  have "unat (max_u64 - b) = 2 ^ 64 - 1 - unat b"
    using unat_le_max [of b] by (subst unat_sub) (auto simp: word_le_nat_alt unat_max_u64)
  then have "unat a + unat b \<le> 2 ^ 64 - 1"
    using False unat_le_max [of b] by (simp add: word_less_nat_alt)
  with False show ?thesis
    by (simp add: saturatingAdd_def unat_word_ariths)
qed

lemma saturatingMul_unat: "unat (saturatingMul a b) = min (unat a * unat b) (2 ^ 64 - 1)"
proof (cases "a = 0 \<or> b = 0")
  case False
  then have b: "0 < unat b" by (simp add: unat_gt_0)
  have d: "unat (max_u64 div b) = (2 ^ 64 - 1) div unat b"
    by (simp add: unat_div_distrib unat_max_u64)
  have iff: "a > max_u64 div b \<longleftrightarrow> 2 ^ 64 - 1 < unat a * unat b"
    using b by (simp only: word_less_nat_alt d div_less_iff_less_mult)
  show ?thesis
  proof (cases "a > max_u64 div b")
    case True
    then have "2 ^ 64 - 1 < unat a * unat b" using iff by simp
    with True False show ?thesis by (simp add: saturatingMul_def unat_max_u64)
  next
    case no: False
    then have "unat a * unat b \<le> 2 ^ 64 - 1" using iff by linarith
    with False no show ?thesis by (simp add: saturatingMul_def unat_word_ariths)
  qed
qed (auto simp: saturatingMul_def)

lemma saturatingMulU64_eq: "saturatingMulU64 = saturatingMul"
  by (intro ext) (simp add: saturatingMulU64_def saturatingMul_def)

interpretation sat_add: saturating saturatingAdd "(+)"
  by unfold_locales (auto simp: saturatingAdd_unat)

interpretation sat_mul: saturating saturatingMul "(*)"
  by unfold_locales (auto simp: saturatingMul_unat intro: mult_le_mono)

interpretation sat_mul_types: saturating saturatingMulU64 "(*)"
  by unfold_locales (auto simp: saturatingMulU64_eq saturatingMul_unat intro: mult_le_mono)

lemma minU64_eq: "minU64 a b = min a b"
  by (simp add: minU64_def min_def not_less order.order_iff_strict)

lemma unat_minU64 [simp]: "unat (minU64 a b) = min (unat a) (unat b)"
  by (simp add: minU64_def word_less_nat_alt)

lemma uint_minU64: "uint (minU64 a b) = min (uint a) (uint b)"
  by (auto simp: minU64_eq min_def word_le_def)

lemma uint_saturatingAdd: "uint (saturatingAdd a b) = min (uint a + uint b) (2 ^ 64 - 1)"
proof -
  have "int (unat (saturatingAdd a b)) = int (min (unat a + unat b) (2 ^ 64 - 1))" by (simp only: saturatingAdd_unat)
  then show ?thesis by (simp add: of_nat_min)
qed

lemma saturatingAdd_ge: "a \<le> saturatingAdd a b"
  using unat_le_max [of a] by (simp add: word_le_nat_alt saturatingAdd_unat)

end
