(* ===== verification/AtoxTypes.thy ===== *)
theory AtoxTypes
  imports KVStore
begin

text \<open>
  The types of the ATOX module (\<^verbatim>\<open>x/atox/types/helpers.go\<close>): the conversion index and its exact
  increment, the transfer fee, the amount owed over an index span, parameters, the global accumulator,
  accounts and genesis.  A \<^verbatim>\<open>LegacyDec\<close> index is an integer scaled by \<^term>\<open>10 ^ 18\<close>, so index 1.0 is
  \<^term>\<open>decP\<close>.
\<close>

section \<open>Records\<close>

definition AtoxBaseDenom :: string where
  "AtoxBaseDenom = ''aatox''"

record atox_params =
  Enabled :: bool
  SupplyCap :: int
  AutoSettlePerBlock :: u32
  MinAutoPayout :: int
  TransferFeeBps :: u32

record global_state =
  GlobalIndex :: dec
  IndexRemainder :: int
  TotalReleasedToPool :: int
  TotalPending :: int
  TotalPaidOut :: int
  TotalFeeBurned :: int
  TotalBurned :: int

record atox_account =
  ax_Address :: string
  Index :: dec
  Pending :: int
  TotalClaimed :: int

record atox_store =
  x_params :: "atox_params option"
  x_global :: "global_state option"
  x_accounts :: "(string, atox_account) kv"
  x_cursor :: string
  x_swept :: "dec option"

record atox_genesis =
  xg_params :: atox_params
  xg_global :: global_state
  xg_accounts :: "atox_account list"
  xg_cursor :: string
  xg_swept :: dec

section \<open>Index arithmetic\<close>

definition IndexPrecision :: int where
  "IndexPrecision = 10 ^ 18"

text \<open>\<^verbatim>\<open>LegacyNewDecFromIntWithPrec(i, 18)\<close> is the decimal that stores \<open>i\<close>.\<close>

definition ComputeIndexDelta :: "int \<Rightarrow> int \<Rightarrow> int \<Rightarrow> (dec \<times> int) result" where
  "ComputeIndexDelta amount remainderIn supplyCap =
     (if amount < 0 then Inl ErrInvalidAmount
      else if \<not> supplyCap > 0 then Inl (Err ''supply cap must be positive'')
      else if remainderIn < 0 then Inl (Err ''index remainder must not be negative'')
      else let scaled = amount * IndexPrecision + remainderIn;
               deltaScaled = quoT scaled supplyCap;
               remainderOut = scaled mod supplyCap in
           Inr (deltaScaled, remainderOut))"

definition BpsDenominator :: int where
  "BpsDenominator = 10000"

definition ComputeTransferFee :: "int \<Rightarrow> u32 \<Rightarrow> int" where
  "ComputeTransferFee amount feeBps =
     (if feeBps = 0 \<or> \<not> amount > 0 then 0
      else let num = amount * uint feeBps;
               fee = quoT num BpsDenominator in
           if num mod BpsDenominator \<noteq> 0 then fee + 1 else fee)"

text \<open>The loop of \<^verbatim>\<open>MaxSendableWithFee\<close>: step back while the amount and its fee exceed the balance.\<close>

function max_sendable_loop :: "int \<Rightarrow> u32 \<Rightarrow> int \<Rightarrow> int" where
  "max_sendable_loop balance feeBps a =
     (if a > 0 \<and> a + ComputeTransferFee a feeBps > balance
      then max_sendable_loop balance feeBps (a - 1) else a)"
  by pat_completeness auto
termination
  by (relation "measure (\<lambda>(_, _, a). nat a)") auto

definition MaxSendableWithFee :: "int \<Rightarrow> u32 \<Rightarrow> int" where
  "MaxSendableWithFee balance feeBps =
     (if \<not> balance > 0 then 0
      else if feeBps = 0 then balance
      else let a = max_sendable_loop balance feeBps
                     (quoT (balance * BpsDenominator) (BpsDenominator + uint feeBps)) in
           if a < 0 then 0 else a)"

definition ComputeOwed :: "dec_math \<Rightarrow> int \<Rightarrow> dec \<Rightarrow> dec \<Rightarrow> int \<times> int" where
  "ComputeOwed M balance accountIndex globalIndex =
     (if \<not> balance > 0 then (0, 0)
      else if \<not> globalIndex > accountIndex then (0, 0)
      else if accountIndex \<ge> decP then (0, 0)
      else let delta = globalIndex - accountIndex;
               remaining = decP - accountIndex;
               owed = dec_trunc (dec_quo M (dec_mul_int delta balance) remaining);
               owed' = (if owed > balance then balance else owed) in
           (owed', owed'))"

section \<open>Parameters, accumulator and accounts\<close>

definition MaxAutoSettlePerBlock :: u32 where
  "MaxAutoSettlePerBlock = 1000"

definition MaxTransferFeeBps :: u32 where
  "MaxTransferFeeBps = 3000"

definition atox_DefaultParams :: atox_params where
  "atox_DefaultParams =
     \<lparr> Enabled = True, SupplyCap = 10 ^ 30, AutoSettlePerBlock = 50, MinAutoPayout = 10 ^ 15,
       TransferFeeBps = 1000 \<rparr>"

definition atox_Params_Validate :: "atox_params \<Rightarrow> unit result" where
  "atox_Params_Validate p =
     (if \<not> SupplyCap p > 0 then Inl (Err ''supply cap must be positive'')
      else if AutoSettlePerBlock p > MaxAutoSettlePerBlock then Inl (Err ''auto settle per block too large'')
      else if MinAutoPayout p < 0 then Inl (Err ''min auto payout must not be negative'')
      else if TransferFeeBps p > MaxTransferFeeBps then Inl (Err ''transfer fee bps too large'')
      else Inr ())"

definition DefaultGlobalState :: global_state where
  "DefaultGlobalState =
     \<lparr> GlobalIndex = 0, IndexRemainder = 0, TotalReleasedToPool = 0, TotalPending = 0,
       TotalPaidOut = 0, TotalFeeBurned = 0, TotalBurned = 0 \<rparr>"

definition GlobalState_Validate :: "global_state \<Rightarrow> unit result" where
  "GlobalState_Validate s =
     (if GlobalIndex s < 0 then Inl (Err ''global_index must not be negative'')
      else if list_ex (\<lambda>v. v < 0)
          [IndexRemainder s, TotalReleasedToPool s, TotalPending s, TotalPaidOut s, TotalFeeBurned s, TotalBurned s]
      then Inl (Err ''must not be negative'')
      else if TotalPending s + TotalPaidOut s > TotalReleasedToPool s
      then Inl (Err ''total_pending + total_paid_out exceeds total_released_to_pool'')
      else Inr ())"

definition NewAtoxAccount :: "string \<Rightarrow> dec \<Rightarrow> atox_account" where
  "NewAtoxAccount addr index = \<lparr> ax_Address = addr, Index = index, Pending = 0, TotalClaimed = 0 \<rparr>"

definition AtoxAccount_Validate :: "addr_codec \<Rightarrow> atox_account \<Rightarrow> unit result" where
  "AtoxAccount_Validate A a =
     (if acc_from_bech32 A (ax_Address a) = None then Inl (Err ''address'')
      else if Index a < 0 then Inl (Err ''index must not be negative'')
      else if Pending a < 0 then Inl (Err ''pending must not be negative'')
      else if TotalClaimed a < 0 then Inl (Err ''total_claimed must not be negative'')
      else Inr ())"

definition atox_DefaultGenesisState :: atox_genesis where
  "atox_DefaultGenesisState =
     \<lparr> xg_params = atox_DefaultParams, xg_global = DefaultGlobalState, xg_accounts = [],
       xg_cursor = [], xg_swept = 0 \<rparr>"

fun validate_atox_accounts ::
  "addr_codec \<Rightarrow> dec \<Rightarrow> atox_account list \<Rightarrow> string list \<Rightarrow> int \<Rightarrow> int result" where
  "validate_atox_accounts A gi [] seen acc = Inr acc"
| "validate_atox_accounts A gi (a # as) seen acc =
     bindR (AtoxAccount_Validate A a) (\<lambda>_.
       if ax_Address a \<in> set seen then Inl (Err ''duplicate address'')
       else if Index a > gi then Inl (Err ''index exceeds global_index'')
       else validate_atox_accounts A gi as (ax_Address a # seen) (acc + Pending a))"

definition atox_GenesisState_Validate :: "addr_codec \<Rightarrow> atox_genesis \<Rightarrow> unit result" where
  "atox_GenesisState_Validate A gs =
     bindR (atox_Params_Validate (xg_params gs)) (\<lambda>_.
     bindR (GlobalState_Validate (xg_global gs)) (\<lambda>_.
       if xg_swept gs < 0 then Inl (Err ''invalid swept_index: must not be negative'')
       else if xg_swept gs > GlobalIndex (xg_global gs) then Inl (Err ''invalid swept_index: exceeds global_index'')
       else bindR (validate_atox_accounts A (GlobalIndex (xg_global gs)) (xg_accounts gs) [] 0) (\<lambda>sumPending.
         if sumPending \<noteq> TotalPending (xg_global gs)
         then Inl (Err ''total_pending does not match the sum of account pending'')
         else Inr ())))"

definition MsgClaimAtos_ValidateBasic :: "addr_codec \<Rightarrow> string \<Rightarrow> unit result" where
  "MsgClaimAtos_ValidateBasic A claimer =
     (if acc_from_bech32 A claimer = None then Inl ErrInvalidAddress else Inr ())"

definition atox_MsgUpdateParams_ValidateBasic ::
  "addr_codec \<Rightarrow> string \<Rightarrow> atox_params \<Rightarrow> unit result" where
  "atox_MsgUpdateParams_ValidateBasic A authority p =
     (if acc_from_bech32 A authority = None then Inl ErrInvalidAddress
      else atox_Params_Validate p)"

section \<open>Store keys\<close>

definition atox_AccountKey :: "string \<Rightarrow> string" where
  "atox_AccountKey addr = char_of (3 :: nat) # addr"

definition AddressFromAccountKey :: "string \<Rightarrow> string" where
  "AddressFromAccountKey key = (if length key \<le> 1 then [] else drop 1 key)"

section \<open>Facts on the index arithmetic\<close>

lemma ComputeIndexDelta_exact:
  assumes "ComputeIndexDelta amount r cap = Inr (delta, r')"
  shows "delta * cap + r' = amount * IndexPrecision + r" "0 \<le> r'" "r' < cap" "0 \<le> delta"
proof -
  from assms have cap: "0 < cap" and nn: "0 \<le> amount" "0 \<le> r"
    and d: "delta = quoT (amount * IndexPrecision + r) cap" "r' = (amount * IndexPrecision + r) mod cap"
    by (auto simp: ComputeIndexDelta_def Let_def split: if_splits)
  have "0 \<le> amount * IndexPrecision + r" using nn by (simp add: IndexPrecision_def)
  then have "delta = (amount * IndexPrecision + r) div cap" using cap d by simp
  then show "delta * cap + r' = amount * IndexPrecision + r" "0 \<le> r'" "r' < cap" "0 \<le> delta"
    using cap d \<open>0 \<le> amount * IndexPrecision + r\<close> by (simp_all add: pos_imp_zdiv_nonneg_iff)
qed

lemma ComputeIndexDelta_ok:
  "0 \<le> amount \<Longrightarrow> 0 < cap \<Longrightarrow> 0 \<le> r \<Longrightarrow> \<exists>delta r'. ComputeIndexDelta amount r cap = Inr (delta, r')"
  by (simp add: ComputeIndexDelta_def Let_def)

text \<open>
  For any rounding of the library, truncating the rounded quotient gives the exact floor: the
  decimal quotient has eighteen digits and the divisor is at most 1.0.
\<close>

lemma floor_of_rounded:
  assumes "floor_ceil (n * decP) r q" "0 < r" "r \<le> decP" "0 \<le> n"
  shows "q div decP = n div r"
proof (rule antisym)
  let ?k = "n div r"
  have "?k * r * decP \<le> n * decP" using div_mult_le_int [OF assms(2), of n] by (intro mult_right_mono) auto
  then have "?k * decP \<le> q" by (intro floor_ceil_ge [OF assms(1,2)]) (simp add: ac_simps)
  then show "?k \<le> q div decP" by (rule le_div_int [OF decP_pos(1)])
  have "n + 1 \<le> (?k + 1) * r" using less_div_mult_int [OF assms(2), of n] by simp
  then have "(n + 1) * decP \<le> (?k + 1) * r * decP" by (intro mult_right_mono) simp_all
  then have "n * decP \<le> ((?k + 1) * decP - 1) * r" using assms(3) by (simp add: algebra_simps)
  then have "q \<le> (?k + 1) * decP - 1" by (rule floor_ceil_le [OF assms(1,2)])
  then have "q < (?k + 1) * decP" by simp
  then show "q div decP \<le> ?k" using div_less_int [OF decP_pos(1), of q "?k + 1"] by simp
qed

text \<open>What is owed over a span, for every rounding: the floor of the exact share, never above the balance.\<close>

lemma ComputeOwed_floor:
  assumes "dec_laws M" "0 < bal" "0 \<le> ai" "ai < gi" "ai < decP"
  shows "ComputeOwed M bal ai gi =
    (min (bal * (gi - ai) div (decP - ai)) bal, min (bal * (gi - ai) div (decP - ai)) bal)"
proof -
  let ?n = "(gi - ai) * bal" and ?r = "decP - ai"
  let ?q = "dec_quo M ?n ?r"
  have n: "0 \<le> ?n" and r: "0 < ?r" "?r \<le> decP" using assms by auto
  have "0 \<le> ?q" using dec_quo_ge [OF assms(1) r(1), of 0] n by simp
  then have "dec_trunc ?q = ?q div decP" by (simp add: dec_trunc_def)
  also have "\<dots> = ?n div ?r" by (rule floor_of_rounded [OF dec_quo_law [OF assms(1) r(1)] r n])
  finally show ?thesis using assms by (simp add: ComputeOwed_def Let_def dec_mul_int_def ac_simps min_def)
qed

lemma ComputeOwed_burn: "ComputeOwed M bal ai gi = (owed, burn) \<Longrightarrow> burn = owed"
  by (auto simp: ComputeOwed_def Let_def split: if_splits)

end
