(* ===== verification/TokenomicsTypes.thy ===== *)
theory TokenomicsTypes
  imports KVStore
begin

text \<open>
  The types of the tokenomics module (\<^verbatim>\<open>x/tokenomics/types/helpers.go\<close> and \<^verbatim>\<open>keys.go\<close>): parameters with
  their validation, the release and block reward states, genesis and the stateless message checks.
\<close>

section \<open>Records\<close>

record tokenomics_params =
  MinerPoolTotal :: int
  ProjectPoolTotal :: int
  MigrationPoolTotal :: int
  HalvingIntervalBlocks :: int
  InitialBlockReward :: int
  PriceBase :: dec
  VolumeBase :: dec
  TierMultiplier :: dec
  ConsecutiveDaysRequired :: u32
  ReleasePercentageBps :: u32
  MinerReleaseShareBps :: u32
  ProjectReleaseShareBps :: u32
  ProjectTreasuryAddress :: string
  PriceCheckEpochBlocks :: int
  DailySamples :: int
  DaySeconds :: int
  MigrationRefillThresholdBps :: u32
  MigrationMerkleRoot :: string
  MigrationClaimEndTimeUnix :: int
  ValidatorMinSelfDelegation :: int

record release_state =
  CurrentTier :: u32
  ConsecutiveDays :: u32
  LastCheckBlock :: int
  LastCheckTimeUnix :: int
  TotalMinerReleased :: int
  TotalProjectReleased :: int
  CurrentSampleDay :: int
  SamplesToday :: u32
  DayQualified :: bool
  LastSampledPriceTime :: int
  LastSampleBlock :: int

record block_reward_state =
  TotalDistributed :: int
  CurrentPeriod :: u64

text \<open>The module's store; an address that claimed is stored as a key with no value of interest.\<close>

record tokenomics_store =
  t_params :: "tokenomics_params option"
  t_release :: "release_state option"
  t_reward :: "block_reward_state option"
  t_claimable :: "int option"
  t_claimed :: "(string, unit) kv"

record tokenomics_genesis =
  tg_params :: tokenomics_params
  tg_release :: release_state
  tg_reward :: block_reward_state
  tg_claimable :: "int option"
  tg_claimed :: "string list"

section \<open>Defaults and validation\<close>

definition DefaultDailySamples :: int where
  "DefaultDailySamples = 3"

definition MaxDailySamples :: int where
  "MaxDailySamples = 24"

definition DefaultDaySeconds :: int where
  "DefaultDaySeconds = 86400"

definition tok_BpsDenominator :: int where
  "tok_BpsDenominator = 10000"

definition DefaultMigrationRefillThresholdBps :: u32 where
  "DefaultMigrationRefillThresholdBps = 2000"

definition tokenomics_DefaultParams :: tokenomics_params where
  "tokenomics_DefaultParams =
     \<lparr> MinerPoolTotal = 10 ^ 30, ProjectPoolTotal = 87 * 10 ^ 29, MigrationPoolTotal = 3 * 10 ^ 29,
       HalvingIntervalBlocks = 25228800, InitialBlockReward = 19819 * 10 ^ 18,
       PriceBase = 15 * 10 ^ 16, VolumeBase = dec_new 150000, TierMultiplier = 11 * 10 ^ 17,
       ConsecutiveDaysRequired = 30, ReleasePercentageBps = 500, MinerReleaseShareBps = 5000,
       ProjectReleaseShareBps = 5000, ProjectTreasuryAddress = [],
       PriceCheckEpochBlocks = 17280 div DefaultDailySamples, DailySamples = DefaultDailySamples,
       DaySeconds = DefaultDaySeconds, MigrationRefillThresholdBps = DefaultMigrationRefillThresholdBps,
       MigrationMerkleRoot = [], MigrationClaimEndTimeUnix = 0, ValidatorMinSelfDelegation = 10 ^ 26 \<rparr>"

definition tokenomics_Params_Validate :: "addr_codec \<Rightarrow> tokenomics_params \<Rightarrow> unit result" where
  "tokenomics_Params_Validate A p =
     (if MinerPoolTotal p < 0 then Inl (Err ''miner pool total cannot be negative'')
      else if ProjectPoolTotal p < 0 then Inl (Err ''project pool total cannot be negative'')
      else if MigrationPoolTotal p < 0 then Inl (Err ''migration pool total cannot be negative'')
      else if HalvingIntervalBlocks p \<le> 0 then Inl (Err ''halving interval must be positive'')
      else if InitialBlockReward p < 0 \<or> InitialBlockReward p = 0
        then Inl (Err ''initial block reward must be positive'')
      else if PriceBase p < 0 \<or> PriceBase p = 0 then Inl (Err ''price base must be positive'')
      else if VolumeBase p < 0 \<or> VolumeBase p = 0 then Inl (Err ''volume base must be positive'')
      else if TierMultiplier p \<le> decP then Inl (Err ''tier multiplier must be greater than 1'')
      else if ConsecutiveDaysRequired p = 0 then Inl (Err ''consecutive days required must be positive'')
      else if ReleasePercentageBps p = 0 \<or> ReleasePercentageBps p > 10000
        then Inl (Err ''release percentage bps must be 1-10000'')
      else if MinerReleaseShareBps p + ProjectReleaseShareBps p \<noteq> 10000
        then Inl (Err ''miner + project release share bps must equal 10000'')
      else if ProjectTreasuryAddress p \<noteq> [] \<and> acc_from_bech32 A (ProjectTreasuryAddress p) = None
        then Inl (Err ''invalid project treasury address'')
      else if DaySeconds p \<le> 0 then Inl (Err ''day_seconds must be positive'')
      else if uint (MigrationRefillThresholdBps p) > tok_BpsDenominator
        then Inl (Err ''migration_refill_threshold_bps'')
      else if DailySamples p \<le> 0 then Inl (Err ''daily_samples must be positive'')
      else if DailySamples p > MaxDailySamples then Inl (Err ''daily_samples too large'')
      else if PriceCheckEpochBlocks p \<le> 0 then Inl (Err ''price check epoch blocks must be positive'')
      else if MigrationClaimEndTimeUnix p < 0 then Inl (Err ''migration claim end time cannot be negative'')
      else if ValidatorMinSelfDelegation p < 0 then Inl (Err ''validator min self delegation cannot be negative'')
      else Inr ())"

definition DefaultReleaseState :: release_state where
  "DefaultReleaseState =
     \<lparr> CurrentTier = 0, ConsecutiveDays = 0, LastCheckBlock = 0, LastCheckTimeUnix = 0,
       TotalMinerReleased = 0, TotalProjectReleased = 0, CurrentSampleDay = 0, SamplesToday = 0,
       DayQualified = False, LastSampledPriceTime = 0, LastSampleBlock = 0 \<rparr>"

definition DefaultBlockRewardState :: block_reward_state where
  "DefaultBlockRewardState = \<lparr> TotalDistributed = 0, CurrentPeriod = 0 \<rparr>"

definition tokenomics_DefaultGenesisState :: tokenomics_genesis where
  "tokenomics_DefaultGenesisState =
     \<lparr> tg_params = tokenomics_DefaultParams, tg_release = DefaultReleaseState,
       tg_reward = DefaultBlockRewardState, tg_claimable = Some 0, tg_claimed = [] \<rparr>"

definition validateReleaseState :: "release_state \<Rightarrow> unit result" where
  "validateReleaseState s =
     (if list_ex (\<lambda>v. v < 0) [TotalMinerReleased s, TotalProjectReleased s]
      then Inl (Err ''must not be negative'')
      else if LastCheckBlock s < 0 then Inl (Err ''last_check_block: must not be negative'')
      else if LastCheckTimeUnix s < 0 then Inl (Err ''last_check_time_unix: must not be negative'')
      else Inr ())"

definition validateBlockRewardState :: "block_reward_state \<Rightarrow> unit result" where
  "validateBlockRewardState s =
     (if TotalDistributed s < 0 then Inl (Err ''total_distributed: must not be negative'') else Inr ())"

definition tokenomics_GenesisState_Validate :: "addr_codec \<Rightarrow> tokenomics_genesis \<Rightarrow> unit result" where
  "tokenomics_GenesisState_Validate A gs =
     bindR (tokenomics_Params_Validate A (tg_params gs)) (\<lambda>_.
     bindR (validateReleaseState (tg_release gs)) (\<lambda>_.
     bindR (validateBlockRewardState (tg_reward gs)) (\<lambda>_.
       (case tg_claimable gs of
          None \<Rightarrow> Inl (Err ''invalid project_claimable: nil'')
        | Some n \<Rightarrow> if n < 0 then Inl (Err ''invalid project_claimable: must not be negative'') else Inr ()))))"

section \<open>Messages\<close>

record msg_claim_migration =
  mc_Claimer :: string
  mc_Amount :: int
  mc_MerkleProof :: "string list"

definition MsgClaimMigrationTokens_ValidateBasic :: "addr_codec \<Rightarrow> msg_claim_migration \<Rightarrow> unit result" where
  "MsgClaimMigrationTokens_ValidateBasic A msg =
     (if acc_from_bech32 A (mc_Claimer msg) = None then Inl ErrInvalidAddress
      else if mc_Amount msg < 0 \<or> mc_Amount msg = 0 then Inl ErrNothingToClaim
      else if mc_MerkleProof msg = [] then Inl ErrInvalidMerkleProof
      else Inr ())"

definition tokenomics_MsgUpdateParams_ValidateBasic ::
  "addr_codec \<Rightarrow> string \<Rightarrow> tokenomics_params \<Rightarrow> unit result" where
  "tokenomics_MsgUpdateParams_ValidateBasic A authority p =
     (if acc_from_bech32 A authority = None then Inl ErrInvalidAddress
      else tokenomics_Params_Validate A p)"

definition MinerPoolName :: string where
  "MinerPoolName = ''miner_pool''"

definition ProjectPoolName :: string where
  "ProjectPoolName = ''project_pool''"

definition MigrationPoolName :: string where
  "MigrationPoolName = ''migration_pool''"

end
