(* ===== verification/BridgeTypes.thy ===== *)
theory BridgeTypes
  imports KVStore
begin

text \<open>
  The types of the bridge adapter (\<^verbatim>\<open>x/bridgeadapter/types\<close>): parameters and receipt state, the wire format
  of the tier messages and asset transfers, the peg conversions of \<^verbatim>\<open>helpers.go\<close>, and the rate limits of
  \<^verbatim>\<open>ratelimit.go\<close>.  A \<^verbatim>\<open>[]byte\<close> is a \<^typ>\<open>string\<close>.
\<close>

section \<open>Records\<close>

record bridge_params =
  br_Enabled :: bool
  EthereumDomain :: u32
  TierReleaseVault :: string
  AtosPerErc20 :: u64
  IsmId :: string
  BridgeEnabled :: bool
  MailboxId :: string
  RemoteBridgeVault :: string
  RateLimitsDisabled :: bool
  GlobalDailyCap :: int
  GlobalDailyCapBpsOfPool :: u32
  InboundDailyCap :: int
  InboundDailyCapBpsOfPool :: u32
  PerAddressDailyBps :: u32
  MinTransferOut :: int
  SmallTransferThreshold :: int
  SmallQuotaBps :: u32
  CrisisPoolBps :: u32
  InboundSmallThreshold :: int
  MaxTransferIn :: int
  MaxTransferOut :: int
  InboundPerAddressDailyBps :: u32
  Guardians :: "string list"

record receipt_state =
  AppliedToBridge :: int
  AppliedToProject :: int
  AppId :: string
  LastMessageId :: string
  AssetAppId :: string
  TotalBridgedOut :: int
  TotalBridgedIn :: int

record rate_limit_state =
  rl_Day :: int
  rl_Used :: int
  rl_UsedLarge :: int
  rl_UsedInbound :: int

record address_usage =
  au_Day :: int
  au_Used :: int

record bridge_store =
  b_params :: "bridge_params option"
  b_receipt :: "receipt_state option"
  b_rate :: "rate_limit_state option"
  b_usage_out :: "(string, address_usage) kv"
  b_usage_in :: "(string, address_usage) kv"

record bridge_genesis =
  bg_params :: bridge_params
  bg_receipt :: receipt_state

definition HexAddressLen :: nat where
  "HexAddressLen = 32"

definition TierMessagePayloadLen :: nat where
  "TierMessagePayloadLen = 96"

definition AssetPayloadLen :: nat where
  "AssetPayloadLen = 64"

definition MsgTypeTierRelease :: nat where
  "MsgTypeTierRelease = 1"

definition MsgTypeReleaseReceipt :: nat where
  "MsgTypeReleaseReceipt = 2"

definition br_BpsDenominator :: int where
  "br_BpsDenominator = 10000"

section \<open>Big-endian integers\<close>

text \<open>
  \<^verbatim>\<open>big.Int.Bytes\<close>, the shortest big-endian form of the absolute value; \<^verbatim>\<open>SetBytes\<close>; \<^verbatim>\<open>BitLen\<close>; and the right
  alignment in a zeroed 32-byte word that \<^verbatim>\<open>copy(out[64-len(a):64], a)\<close> performs.
\<close>

function big_bytes :: "int \<Rightarrow> string" where
  "big_bytes n = (if n \<le> 0 then [] else big_bytes (n div 256) @ [char_of (n mod 256)])"
  by pat_completeness auto
termination
  by (relation "measure nat") auto

declare big_bytes.simps [simp del]

definition set_bytes :: "string \<Rightarrow> int" where
  "set_bytes bs = foldl (\<lambda>acc b. acc * 256 + of_char b) 0 bs"

function bit_len :: "int \<Rightarrow> nat" where
  "bit_len n = (if n \<le> 0 then 0 else Suc (bit_len (n div 2)))"
  by pat_completeness auto
termination
  by (relation "measure nat") auto

declare bit_len.simps [simp del]

definition zero_bytes :: "nat \<Rightarrow> string" where
  "zero_bytes n = replicate n (char_of (0 :: nat))"

definition word32 :: "string \<Rightarrow> string" where
  "word32 bs = zero_bytes (32 - length bs) @ bs"

section \<open>Tier messages (helpers.go)\<close>

definition parseTierMessage :: "string \<Rightarrow> nat \<Rightarrow> (int \<times> int) result" where
  "parseTierMessage payload wantType =
     (if length payload \<noteq> TierMessagePayloadLen then Inl (BridgeErr ErrInvalidPayload)
      else if list_ex (\<lambda>b. b \<noteq> char_of (0 :: nat)) (take 31 payload) then Inl (BridgeErr ErrInvalidPayload)
      else if payload ! 31 \<noteq> char_of wantType then Inl (BridgeErr ErrInvalidPayload)
      else Inr (set_bytes (take 32 (drop 32 payload)), set_bytes (take 32 (drop 64 payload))))"

definition buildTierMessage :: "nat \<Rightarrow> int \<Rightarrow> int \<Rightarrow> string result" where
  "buildTierMessage msgType first second =
     (if first < 0 \<or> second < 0 then Inl (BridgeErr ErrInvalidPayload)
      else let a = big_bytes first; b = big_bytes second in
        if length a > 32 \<or> length b > 32 then Inl (BridgeErr ErrInvalidPayload)
        else Inr (zero_bytes 31 @ [char_of msgType] @ word32 a @ word32 b))"

definition ParseReceipt :: "string \<Rightarrow> (int \<times> int) result" where
  "ParseReceipt payload = parseTierMessage payload MsgTypeReleaseReceipt"

definition BuildReceipt :: "int \<Rightarrow> int \<Rightarrow> string result" where
  "BuildReceipt toBridge toProject = buildTierMessage MsgTypeReleaseReceipt toBridge toProject"

definition BuildTierRelease :: "int \<Rightarrow> int \<Rightarrow> string result" where
  "BuildTierRelease miner project = buildTierMessage MsgTypeTierRelease miner project"

definition ParseTierRelease :: "string \<Rightarrow> (int \<times> int) result" where
  "ParseTierRelease payload = parseTierMessage payload MsgTypeTierRelease"

section \<open>The peg\<close>

definition Erc20ToAtos :: "int \<Rightarrow> u64 \<Rightarrow> int result" where
  "Erc20ToAtos erc20 atosPerErc20 =
     (if \<not> erc20 > 0 \<or> atosPerErc20 = 0 then Inr 0
      else if bit_len erc20 + bit_len (uint atosPerErc20) > 256 then Inl ErrInvalidAmount
      else Inr (erc20 * i64_of_u64 atosPerErc20))"

definition AtosToErc20 :: "int \<Rightarrow> u64 \<Rightarrow> int result" where
  "AtosToErc20 atos atosPerErc20 =
     (if \<not> atos > 0 then Inl ErrInvalidAmount
      else if atosPerErc20 = 0 then Inl (Err ''atos_per_erc20 must be positive'')
      else let den = uint atosPerErc20 in
        if atos mod den \<noteq> 0 then Inl (BridgeErr ErrIndivisibleAmount)
        else Inr (quoT atos den))"

section \<open>Parameters, state and genesis\<close>

definition DefaultAtosPerErc20 :: u64 where
  "DefaultAtosPerErc20 = 100"

definition DefaultEthereumDomain :: u32 where
  "DefaultEthereumDomain = 1"

definition bridge_DefaultParams :: bridge_params where
  "bridge_DefaultParams =
     \<lparr> br_Enabled = False, EthereumDomain = DefaultEthereumDomain, TierReleaseVault = [],
       AtosPerErc20 = DefaultAtosPerErc20, IsmId = [], BridgeEnabled = False, MailboxId = [],
       RemoteBridgeVault = [], RateLimitsDisabled = False, GlobalDailyCap = 5 * 10 ^ 27,
       GlobalDailyCapBpsOfPool = 500, InboundDailyCap = 3 * 10 ^ 27, InboundDailyCapBpsOfPool = 100,
       PerAddressDailyBps = 200, MinTransferOut = 10 ^ 21, SmallTransferThreshold = 10 ^ 23,
       SmallQuotaBps = 2000, CrisisPoolBps = 1000, InboundSmallThreshold = 10 ^ 24, MaxTransferIn = 0,
       MaxTransferOut = 0, InboundPerAddressDailyBps = 0, Guardians = [] \<rparr>"

fun validate_guardians :: "addr_codec \<Rightarrow> string list \<Rightarrow> string list \<Rightarrow> unit result" where
  "validate_guardians A seen [] = Inr ()"
| "validate_guardians A seen (g # gs) =
     (if acc_from_bech32 A g = None then Inl (Err ''guardian is not a valid address'')
      else if g \<in> set seen then Inl (Err ''guardian is listed twice'')
      else validate_guardians A (g # seen) gs)"

definition bridge_Params_Validate :: "addr_codec \<Rightarrow> bridge_params \<Rightarrow> unit result" where
  "bridge_Params_Validate A p =
     (if AtosPerErc20 p = 0 then Inl (Err ''atos_per_erc20 must be positive'')
      else if uint (AtosPerErc20 p) > 2 ^ 63 - 1 then Inl (Err ''atos_per_erc20 too large'')
      else if EthereumDomain p = 0 then Inl (Err ''ethereum_domain must be set'')
      else if length (TierReleaseVault p) \<noteq> 0 \<and> length (TierReleaseVault p) \<noteq> HexAddressLen
        then Inl (Err ''tier_release_vault length'')
      else if length (IsmId p) \<noteq> 0 \<and> length (IsmId p) \<noteq> HexAddressLen then Inl (Err ''ism_id length'')
      else if br_Enabled p \<and> length (TierReleaseVault p) \<noteq> HexAddressLen
        then Inl (Err ''tier_release_vault must be set before enabling the adapter'')
      else if (br_Enabled p \<or> BridgeEnabled p) \<and> length (IsmId p) \<noteq> HexAddressLen
        then Inl (Err ''ism_id must be set before enabling the adapter or the bridge'')
      else bindR (validate_guardians A [] (Guardians p)) (\<lambda>_.
        if list_ex (\<lambda>v. length v \<noteq> 0 \<and> length v \<noteq> HexAddressLen) [MailboxId p, RemoteBridgeVault p]
        then Inl (Err ''mailbox_id or remote_bridge_vault length'')
        else if BridgeEnabled p \<and> (length (MailboxId p) \<noteq> HexAddressLen \<or> length (RemoteBridgeVault p) \<noteq> HexAddressLen)
        then Inl (Err ''mailbox_id and remote_bridge_vault must be set before enabling the bridge'')
        else if list_ex (\<lambda>v. v < 0) [GlobalDailyCap p, MinTransferOut p, SmallTransferThreshold p]
        then Inl (Err ''must not be negative'')
        else if list_ex (\<lambda>v. uint v > br_BpsDenominator)
            [GlobalDailyCapBpsOfPool p, PerAddressDailyBps p, SmallQuotaBps p, CrisisPoolBps p]
        then Inl (Err ''bps must be at most 10000'')
        else if uint (SmallQuotaBps p) = br_BpsDenominator
        then Inl (Err ''small_quota_bps must be below 10000'')
        else Inr ()))"

definition VaultMatches :: "bridge_params \<Rightarrow> string \<Rightarrow> bool" where
  "VaultMatches p sender =
     (if length (TierReleaseVault p) \<noteq> HexAddressLen then False else TierReleaseVault p = sender)"

fun is_guardian_loop :: "string \<Rightarrow> string list \<Rightarrow> bool" where
  "is_guardian_loop a [] = False"
| "is_guardian_loop a (g # gs) = (if g = a then True else is_guardian_loop a gs)"

definition IsGuardian :: "bridge_params \<Rightarrow> string \<Rightarrow> bool" where
  "IsGuardian p a = (if a = [] then False else is_guardian_loop a (Guardians p))"

definition DefaultReceiptState :: receipt_state where
  "DefaultReceiptState =
     \<lparr> AppliedToBridge = 0, AppliedToProject = 0, AppId = [], LastMessageId = [], AssetAppId = [],
       TotalBridgedOut = 0, TotalBridgedIn = 0 \<rparr>"

definition ReceiptState_Validate :: "receipt_state \<Rightarrow> unit result" where
  "ReceiptState_Validate s =
     (if list_ex (\<lambda>v. v < 0) [AppliedToBridge s, AppliedToProject s, TotalBridgedOut s, TotalBridgedIn s]
      then Inl (Err ''must not be negative'')
      else if list_ex (\<lambda>v. length v \<noteq> 0 \<and> length v \<noteq> HexAddressLen) [AppId s, AssetAppId s]
      then Inl (Err ''app id length'')
      else Inr ())"

definition bridge_DefaultGenesisState :: bridge_genesis where
  "bridge_DefaultGenesisState = \<lparr> bg_params = bridge_DefaultParams, bg_receipt = DefaultReceiptState \<rparr>"

definition bridge_GenesisState_Validate :: "addr_codec \<Rightarrow> bridge_genesis \<Rightarrow> unit result" where
  "bridge_GenesisState_Validate A gs =
     bindR (bridge_Params_Validate A (bg_params gs)) (\<lambda>_. ReceiptState_Validate (bg_receipt gs))"

definition bridge_MsgUpdateParams_ValidateBasic ::
  "addr_codec \<Rightarrow> string \<Rightarrow> bridge_params \<Rightarrow> unit result" where
  "bridge_MsgUpdateParams_ValidateBasic A authority p =
     (if acc_from_bech32 A authority = None then Inl ErrInvalidAddress else bridge_Params_Validate A p)"

section \<open>Rate limits (ratelimit.go)\<close>

definition SecondsPerDay :: int where
  "SecondsPerDay = 86400"

definition DayOf :: "int \<Rightarrow> int" where
  "DayOf blockTimeUnix = (if blockTimeUnix < 0 then 0 else quoT blockTimeUnix SecondsPerDay)"

record limits =
  l_Global :: int
  l_LargeBudget :: int
  l_PerAddress :: int
  l_SmallThreshold :: int
  l_MinTransfer :: int
  l_MaxTransferOut :: int
  l_MaxTransferIn :: int
  l_InboundPerAddress :: int
  l_InboundSmallThreshold :: int
  l_CrisisMode :: bool
  l_Inbound :: int
  l_Disabled :: bool

text \<open>The closures \<open>bps\<close> and \<open>nonNegative\<close> of \<^verbatim>\<open>ResolveLimits\<close>.\<close>

definition limit_bps :: "int \<Rightarrow> u32 \<Rightarrow> int" where
  "limit_bps v b =
     (if \<not> v > 0 \<or> b = 0 then 0
      else let out = quoT (v * uint b) br_BpsDenominator in
        if \<not> out > 0 then 1 else out)"

definition nonNegative :: "int \<Rightarrow> int" where
  "nonNegative v = (if v < 0 then 0 else v)"

definition ResolveLimits :: "bridge_params \<Rightarrow> int \<Rightarrow> int \<Rightarrow> limits" where
  "ResolveLimits p poolBalance poolTotal =
     (let global0 = (if GlobalDailyCap p < 0 then 0 else GlobalDailyCap p);
          fromPool = limit_bps poolBalance (GlobalDailyCapBpsOfPool p);
          global = (if GlobalDailyCapBpsOfPool p > 0 \<and> (global0 = 0 \<or> fromPool < global0) then fromPool else global0);
          reserved = limit_bps global (SmallQuotaBps p);
          largeBudget0 = global - reserved;
          largeBudget = (if largeBudget0 < 0 then 0 else largeBudget0);
          crisis = (if CrisisPoolBps p > 0 \<and> poolTotal > 0
                    then poolBalance < limit_bps poolTotal (CrisisPoolBps p) else False);
          minTransfer = (if MinTransferOut p < 0 then 0 else MinTransferOut p);
          smallThreshold = (if SmallTransferThreshold p < 0 then 0 else SmallTransferThreshold p);
          inbound0 = (if InboundDailyCap p < 0 then 0 else InboundDailyCap p);
          fromPoolIn = limit_bps poolBalance (InboundDailyCapBpsOfPool p);
          inbound = (if InboundDailyCapBpsOfPool p > 0 \<and> (inbound0 = 0 \<or> fromPoolIn < inbound0)
                     then fromPoolIn else inbound0) in
      \<lparr> l_Global = global, l_LargeBudget = largeBudget,
        l_PerAddress = limit_bps global (PerAddressDailyBps p), l_SmallThreshold = smallThreshold,
        l_MinTransfer = minTransfer, l_MaxTransferOut = nonNegative (MaxTransferOut p),
        l_MaxTransferIn = nonNegative (MaxTransferIn p),
        l_InboundPerAddress = limit_bps inbound (InboundPerAddressDailyBps p),
        l_InboundSmallThreshold = nonNegative (InboundSmallThreshold p), l_CrisisMode = crisis,
        l_Inbound = inbound, l_Disabled = RateLimitsDisabled p \<rparr>)"

definition limit_set :: "int \<Rightarrow> bool" where
  "limit_set v \<longleftrightarrow> v > 0"

definition IsSmall :: "limits \<Rightarrow> int \<Rightarrow> bool" where
  "IsSmall l amount \<longleftrightarrow> \<not> limit_set (l_SmallThreshold l) \<or> amount \<le> l_SmallThreshold l"

definition IsSmallInbound :: "limits \<Rightarrow> int \<Rightarrow> bool" where
  "IsSmallInbound l amount \<longleftrightarrow> \<not> limit_set (l_InboundSmallThreshold l) \<or> amount \<le> l_InboundSmallThreshold l"

definition CheckOutbound :: "limits \<Rightarrow> int \<Rightarrow> int \<Rightarrow> int \<Rightarrow> int \<Rightarrow> unit result" where
  "CheckOutbound l amount globalUsed globalUsedLarge addressUsed =
     (if \<not> amount > 0 then Inl ErrInvalidAmount
      else if l_Disabled l then Inr ()
      else if limit_set (l_MinTransfer l) \<and> amount < l_MinTransfer l then Inl (BridgeErr ErrBelowMinimum)
      else if limit_set (l_MaxTransferOut l) \<and> amount > l_MaxTransferOut l then Inl (BridgeErr ErrAboveMaximum)
      else
        let small = IsSmall l amount in
        if \<not> limit_set (l_Global l) then Inl (BridgeErr ErrDailyCapReached)
        else if globalUsed + amount > l_Global l then Inl (BridgeErr ErrDailyCapReached)
        else if \<not> small \<and> globalUsedLarge + amount > l_LargeBudget l then Inl (BridgeErr ErrLargeQuotaReached)
        else if limit_set (l_PerAddress l) \<and> addressUsed + amount > l_PerAddress l
        then Inl (BridgeErr ErrAddressCapReached)
        else Inr ())"

definition CheckInbound :: "limits \<Rightarrow> int \<Rightarrow> int \<Rightarrow> int \<Rightarrow> unit result" where
  "CheckInbound l amount usedInbound recipientUsed =
     (if \<not> amount > 0 then Inl ErrInvalidAmount
      else if l_Disabled l then Inr ()
      else if limit_set (l_MaxTransferIn l) \<and> amount > l_MaxTransferIn l then Inl (BridgeErr ErrAboveMaximum)
      else if l_CrisisMode l \<and> \<not> IsSmallInbound l amount then Inl (BridgeErr ErrCrisisMode)
      else if limit_set (l_InboundPerAddress l) \<and> recipientUsed + amount > l_InboundPerAddress l
      then Inl (BridgeErr ErrAddressCapReached)
      else if limit_set (l_Inbound l) \<and> usedInbound + amount > l_Inbound l
      then Inl (BridgeErr ErrInboundCapReached)
      else Inr ())"

section \<open>Asset transfers\<close>

definition BuildAssetPayload :: "string \<Rightarrow> int \<Rightarrow> string result" where
  "BuildAssetPayload recipient erc20Amount =
     (if length recipient \<noteq> HexAddressLen then Inl (BridgeErr ErrInvalidPayload)
      else if \<not> erc20Amount > 0 then Inl ErrInvalidAmount
      else let amt = big_bytes erc20Amount in
        if length amt > 32 then Inl (BridgeErr ErrInvalidPayload)
        else Inr (recipient @ word32 amt))"

definition ParseAssetPayload :: "string \<Rightarrow> (string \<times> int) result" where
  "ParseAssetPayload payload =
     (if length payload \<noteq> AssetPayloadLen then Inl (BridgeErr ErrInvalidPayload)
      else Inr (take 32 payload, set_bytes (take 32 (drop 32 payload))))"

definition CosmosAddressFromHyperlane :: "string \<Rightarrow> addr result" where
  "CosmosAddressFromHyperlane a =
     (if length a \<noteq> HexAddressLen then Inl (BridgeErr ErrInvalidPayload)
      else if list_ex (\<lambda>b. b \<noteq> char_of (0 :: nat)) (take 12 a) then Inl (BridgeErr ErrInvalidPayload)
      else if list_all (\<lambda>b. b = char_of (0 :: nat)) (take 20 (drop 12 a)) then Inl (BridgeErr ErrInvalidPayload)
      else Inr (take 20 (drop 12 a)))"

end
