(* ===== verification/Chain.thy ===== *)
theory Chain
  imports Oracle EnergyTypes AtoxTypes TokenomicsTypes BridgeTypes
begin

text \<open>
  The context every keeper works in and the modules of the SDK it calls.

  A context is the block, the transaction in progress, the store of each module of this repository and
  \<open>ext\<close>, the state of the modules that are not part of the sources (bank, auth, staking, IBC), whose
  type is a parameter.  The record \<open>sdk\<close> holds what the keepers call of those modules.  \<open>bank_laws\<close>
  states what the bank documents: \<^verbatim>\<open>SendCoins\<close> of the fork this chain builds on debits the sender, runs
  the registered send restriction on the debited state and then credits the receiver the restriction
  names (\<^verbatim>\<open>x/atox/keeper/send_restriction.go\<close> and \<^verbatim>\<open>x/energy/keeper/send_restriction.go\<close> quote the order),
  debits and credits move exactly the named amounts and leave staking alone, and minting and burning
  change the balance of the module account and the supply by the same amount.

  The registered restriction is an argument of every operation that reaches \<^verbatim>\<open>SendCoins\<close>, because it
  is itself code of this repository.
\<close>

section \<open>Coins\<close>

type_synonym coins = "(string \<times> int) list"

definition AmountOf :: "coins \<Rightarrow> string \<Rightarrow> int" where
  "AmountOf cs d = sum_list (map (\<lambda>(d', a). if d' = d then a else 0) cs)"

text \<open>
  \<^verbatim>\<open>NewCoins(NewCoin(denom, amt))\<close>: a negative amount panics, a zero amount is dropped.
\<close>

definition new_coins :: "string \<Rightarrow> int \<Rightarrow> coins result" where
  "new_coins denom amt =
     (if amt < 0 then Inl (Panic ''negative coin amount'')
      else if amt = 0 then Inr []
      else Inr [(denom, amt)])"

lemma AmountOf_single [simp]: "AmountOf [(d, a)] d' = (if d = d' then a else 0)"
  by (simp add: AmountOf_def)

lemma AmountOf_Nil [simp]: "AmountOf [] d = 0"
  by (simp add: AmountOf_def)

lemma new_coins_AmountOf: "new_coins d a = Inr cs \<Longrightarrow> AmountOf cs d' = (if d' = d then a else 0)"
  by (auto simp: new_coins_def split: if_splits)

lemma new_coins_Inr: "new_coins d a = Inr cs \<Longrightarrow> 0 \<le> a \<and> cs = (if a = 0 then [] else [(d, a)])"
  by (auto simp: new_coins_def split: if_splits)

section \<open>The context\<close>

record 'x ctx =
  block_time :: int
  block_height :: int
  tx_bytes :: string
  fee_in_progress :: bool
  st_oracle :: oracle_store
  st_energy :: energy_store
  st_atox :: atox_store
  st_tokenomics :: tokenomics_store
  st_bridge :: bridge_store
  ext :: 'x

text \<open>A send restriction: it may change the module stores, redirect the receiver, or refuse.\<close>

type_synonym 'x hook = "'x ctx \<Rightarrow> addr \<Rightarrow> addr \<Rightarrow> coins \<Rightarrow> (addr \<times> 'x ctx) result"

section \<open>The modules of the SDK\<close>

record 'x sdk =
  codec :: addr_codec
  dmath :: dec_math
  base_denom :: string
  module_address :: "string \<Rightarrow> addr"
  module_registered :: "string \<Rightarrow> bool"
  blocked_addr :: "addr \<Rightarrow> bool"
  is_module_account :: "'x \<Rightarrow> addr \<Rightarrow> bool"
  bank_balance :: "'x \<Rightarrow> addr \<Rightarrow> string \<Rightarrow> int"
  bank_supply :: "'x \<Rightarrow> string \<Rightarrow> int"
  bank_sub :: "'x \<Rightarrow> addr \<Rightarrow> coins \<Rightarrow> 'x result"
  bank_add :: "'x \<Rightarrow> addr \<Rightarrow> coins \<Rightarrow> 'x result"
  send_coins :: "'x hook \<Rightarrow> 'x ctx \<Rightarrow> addr \<Rightarrow> addr \<Rightarrow> coins \<Rightarrow> 'x ctx result"
  send_to_module :: "'x hook \<Rightarrow> 'x ctx \<Rightarrow> addr \<Rightarrow> string \<Rightarrow> coins \<Rightarrow> 'x ctx result"
  send_from_module :: "'x hook \<Rightarrow> 'x ctx \<Rightarrow> string \<Rightarrow> addr \<Rightarrow> coins \<Rightarrow> 'x ctx result"
  send_between_modules :: "'x hook \<Rightarrow> 'x ctx \<Rightarrow> string \<Rightarrow> string \<Rightarrow> coins \<Rightarrow> 'x ctx result"
  mint_coins :: "'x ctx \<Rightarrow> string \<Rightarrow> coins \<Rightarrow> 'x ctx result"
  burn_coins :: "'x ctx \<Rightarrow> string \<Rightarrow> coins \<Rightarrow> 'x ctx result"
  delegator_bonded :: "'x \<Rightarrow> addr \<Rightarrow> int result"
  delegator_unbonding :: "'x \<Rightarrow> addr \<Rightarrow> int result"
  total_bonded :: "'x \<Rightarrow> int result"
  channel_escrows :: "'x \<Rightarrow> addr list"
  send_enabled :: "'x \<Rightarrow> coins \<Rightarrow> bool"
  valid_coins :: "coins \<Rightarrow> bool"

definition send_law :: "'x sdk \<Rightarrow> bool" where
  "send_law K \<longleftrightarrow> (\<forall>H c f t cs. send_coins K H c f t cs =
     bindR (bank_sub K (ext c) f cs) (\<lambda>x1.
     bindR (H (c\<lparr>ext := x1\<rparr>) f t cs) (\<lambda>(t', c2).
     bindR (bank_add K (ext c2) t' cs) (\<lambda>x3.
     Inr (c2\<lparr>ext := x3\<rparr>)))))"

text \<open>
  The sends of a module account: an unregistered module is a panic, a blocked receiver is refused, and
  otherwise they are \<^verbatim>\<open>SendCoins\<close>.
\<close>

definition module_send_laws :: "'x sdk \<Rightarrow> bool" where
  "module_send_laws K \<longleftrightarrow>
     (\<forall>H c f m cs. send_to_module K H c f m cs =
        (if module_registered K m then send_coins K H c f (module_address K m) cs
         else Inl (Panic ''module account does not exist''))) \<and>
     (\<forall>H c m t cs. send_from_module K H c m t cs =
        (if \<not> module_registered K m then Inl (Panic ''module account does not exist'')
         else if blocked_addr K t then Inl ErrUnauthorized
         else send_coins K H c (module_address K m) t cs)) \<and>
     (\<forall>H c m n cs. send_between_modules K H c m n cs =
        (if module_registered K m \<and> module_registered K n
         then send_coins K H c (module_address K m) (module_address K n) cs
         else Inl (Panic ''module account does not exist'')))"

text \<open>Everything but the balances: what a debit or a credit leaves alone.\<close>

definition same_rest :: "'x sdk \<Rightarrow> 'x \<Rightarrow> 'x \<Rightarrow> bool" where
  "same_rest K x y \<longleftrightarrow>
     (\<forall>a. delegator_bonded K x a = delegator_bonded K y a) \<and>
     (\<forall>a. delegator_unbonding K x a = delegator_unbonding K y a) \<and>
     (\<forall>a. is_module_account K x a = is_module_account K y a) \<and>
     channel_escrows K x = channel_escrows K y"

definition balance_laws :: "'x sdk \<Rightarrow> bool" where
  "balance_laws K \<longleftrightarrow>
     (\<forall>x a cs y. bank_sub K x a cs = Inr y \<longrightarrow> same_rest K x y \<and> (\<forall>d. 0 \<le> AmountOf cs d) \<and>
        (\<forall>d. bank_supply K y d = bank_supply K x d) \<and>
        (\<forall>b d. bank_balance K y b d = bank_balance K x b d - (if b = a then AmountOf cs d else 0))) \<and>
     (\<forall>x a cs y. bank_add K x a cs = Inr y \<longrightarrow> same_rest K x y \<and>
        (\<forall>d. bank_supply K y d = bank_supply K x d) \<and>
        (\<forall>b d. bank_balance K y b d = bank_balance K x b d + (if b = a then AmountOf cs d else 0))) \<and>
     (\<forall>x a d. 0 \<le> bank_balance K x a d)"

definition supply_laws :: "'x sdk \<Rightarrow> bool" where
  "supply_laws K \<longleftrightarrow>
     (\<forall>c m cs c'. mint_coins K c m cs = Inr c' \<longrightarrow> (\<forall>d. 0 \<le> AmountOf cs d) \<and>
        (\<exists>y. c' = c\<lparr>ext := y\<rparr> \<and> same_rest K (ext c) y \<and>
          (\<forall>d. bank_supply K y d = bank_supply K (ext c) d + AmountOf cs d) \<and>
          (\<forall>b d. bank_balance K y b d =
             bank_balance K (ext c) b d + (if b = module_address K m then AmountOf cs d else 0)))) \<and>
     (\<forall>c m cs c'. burn_coins K c m cs = Inr c' \<longrightarrow> (\<forall>d. 0 \<le> AmountOf cs d) \<and>
        (\<exists>y. c' = c\<lparr>ext := y\<rparr> \<and> same_rest K (ext c) y \<and>
          (\<forall>d. bank_supply K y d = bank_supply K (ext c) d - AmountOf cs d) \<and>
          (\<forall>b d. bank_balance K y b d =
             bank_balance K (ext c) b d - (if b = module_address K m then AmountOf cs d else 0))))"

definition bank_laws :: "'x sdk \<Rightarrow> bool" where
  "bank_laws K \<longleftrightarrow> send_law K \<and> module_send_laws K \<and> balance_laws K \<and> supply_laws K"

abbreviation balance :: "'x sdk \<Rightarrow> 'x ctx \<Rightarrow> addr \<Rightarrow> string \<Rightarrow> int" where
  "balance K c a d \<equiv> bank_balance K (ext c) a d"

section \<open>What the laws give a caller\<close>

lemma bank_sub_law:
  assumes "bank_laws K" "bank_sub K x a cs = Inr y"
  shows "same_rest K x y" "bank_supply K y d = bank_supply K x d"
    "bank_balance K y b d = bank_balance K x b d - (if b = a then AmountOf cs d else 0)" "0 \<le> AmountOf cs d"
  using assms unfolding bank_laws_def balance_laws_def by blast+

lemma bank_add_law:
  assumes "bank_laws K" "bank_add K x a cs = Inr y"
  shows "same_rest K x y" "bank_supply K y d = bank_supply K x d"
    "bank_balance K y b d = bank_balance K x b d + (if b = a then AmountOf cs d else 0)"
  using assms unfolding bank_laws_def balance_laws_def by blast+

lemma bank_balance_nonneg: "bank_laws K \<Longrightarrow> 0 \<le> bank_balance K x a d"
  by (simp add: bank_laws_def balance_laws_def)

lemma send_coins_InrE:
  assumes "bank_laws K" "send_coins K H c f t cs = Inr c'"
  obtains x1 t' c2 x3 where "bank_sub K (ext c) f cs = Inr x1" "H (c\<lparr>ext := x1\<rparr>) f t cs = Inr (t', c2)"
    "bank_add K (ext c2) t' cs = Inr x3" "c' = c2\<lparr>ext := x3\<rparr>"
  using assms unfolding bank_laws_def send_law_def by (auto split: prod.splits)

lemma send_to_module_eq: "bank_laws K \<Longrightarrow> send_to_module K H c f m cs =
    (if module_registered K m then send_coins K H c f (module_address K m) cs
     else Inl (Panic ''module account does not exist''))"
  and send_from_module_eq: "bank_laws K \<Longrightarrow> send_from_module K H c m t cs =
    (if \<not> module_registered K m then Inl (Panic ''module account does not exist'')
     else if blocked_addr K t then Inl ErrUnauthorized else send_coins K H c (module_address K m) t cs)"
  and send_between_modules_eq: "bank_laws K \<Longrightarrow> send_between_modules K H c m n cs =
    (if module_registered K m \<and> module_registered K n
     then send_coins K H c (module_address K m) (module_address K n) cs
     else Inl (Panic ''module account does not exist''))"
  unfolding bank_laws_def module_send_laws_def by blast+

lemma send_to_module_InrD:
  "bank_laws K \<Longrightarrow> send_to_module K H c f m cs = Inr c' \<Longrightarrow> send_coins K H c f (module_address K m) cs = Inr c'"
  by (simp add: send_to_module_eq split: if_splits)

lemma send_from_module_InrD:
  "bank_laws K \<Longrightarrow> send_from_module K H c m t cs = Inr c' \<Longrightarrow> send_coins K H c (module_address K m) t cs = Inr c'"
  by (simp add: send_from_module_eq split: if_splits)

lemma send_between_modules_InrD:
  "bank_laws K \<Longrightarrow> send_between_modules K H c m n cs = Inr c' \<Longrightarrow>
   send_coins K H c (module_address K m) (module_address K n) cs = Inr c'"
  by (simp add: send_between_modules_eq split: if_splits)

lemma mint_coins_InrE:
  assumes "bank_laws K" "mint_coins K c m cs = Inr c'"
  obtains y where "c' = c\<lparr>ext := y\<rparr>" "same_rest K (ext c) y" "\<And>d. 0 \<le> AmountOf cs d"
    "\<And>d. bank_supply K y d = bank_supply K (ext c) d + AmountOf cs d"
    "\<And>b d. bank_balance K y b d =
       bank_balance K (ext c) b d + (if b = module_address K m then AmountOf cs d else 0)"
  using assms unfolding bank_laws_def supply_laws_def by blast

lemma burn_coins_InrE:
  assumes "bank_laws K" "burn_coins K c m cs = Inr c'"
  obtains y where "c' = c\<lparr>ext := y\<rparr>" "same_rest K (ext c) y" "\<And>d. 0 \<le> AmountOf cs d"
    "\<And>d. bank_supply K y d = bank_supply K (ext c) d - AmountOf cs d"
    "\<And>b d. bank_balance K y b d =
       bank_balance K (ext c) b d - (if b = module_address K m then AmountOf cs d else 0)"
  using assms unfolding bank_laws_def supply_laws_def by blast

lemma same_rest_refl [simp]: "same_rest K x x"
  by (simp add: same_rest_def)

lemma same_rest_trans: "same_rest K x y \<Longrightarrow> same_rest K y z \<Longrightarrow> same_rest K x z"
  by (simp add: same_rest_def)

section \<open>A bank that satisfies the laws\<close>

text \<open>
  A ledger of balances and supplies, on which the witnesses evaluate: no vesting, one bonded token that
  no account holds, no channel, module accounts at the addresses that start with \<open>m\<close>.
\<close>

record ledger =
  l_accounts :: "((addr \<times> string) \<times> int) list"
  l_totals :: "(string \<times> int) list"

definition l_bal :: "ledger \<Rightarrow> addr \<Rightarrow> string \<Rightarrow> int" where
  "l_bal x a d = (case map_of (l_accounts x) (a, d) of None \<Rightarrow> 0 | Some n \<Rightarrow> max 0 n)"

definition l_supply :: "ledger \<Rightarrow> string \<Rightarrow> int" where
  "l_supply x d = (case map_of (l_totals x) d of None \<Rightarrow> 0 | Some n \<Rightarrow> n)"

definition l_put :: "ledger \<Rightarrow> addr \<Rightarrow> (string \<Rightarrow> int) \<Rightarrow> string list \<Rightarrow> ledger" where
  "l_put x a f ds = x\<lparr>l_accounts := map (\<lambda>d. ((a, d), f d)) ds @ l_accounts x\<rparr>"

definition l_issue :: "ledger \<Rightarrow> (string \<Rightarrow> int) \<Rightarrow> string list \<Rightarrow> ledger" where
  "l_issue x f ds = x\<lparr>l_totals := map (\<lambda>d. (d, f d)) ds @ l_totals x\<rparr>"

definition ledger_sub :: "ledger \<Rightarrow> addr \<Rightarrow> coins \<Rightarrow> ledger result" where
  "ledger_sub x a cs =
     (if list_all (\<lambda>(d, n). 0 \<le> n \<and> AmountOf cs d \<le> l_bal x a d) cs
      then Inr (l_put x a (\<lambda>d. l_bal x a d - AmountOf cs d) (map fst cs))
      else Inl ErrInsufficientFunds)"

definition ledger_add :: "ledger \<Rightarrow> addr \<Rightarrow> coins \<Rightarrow> ledger result" where
  "ledger_add x a cs =
     (if list_all (\<lambda>(d, n). 0 \<le> n) cs
      then Inr (l_put x a (\<lambda>d. l_bal x a d + AmountOf cs d) (map fst cs))
      else Inl ErrInvalidCoins)"

definition ledger_send :: "ledger hook \<Rightarrow> ledger ctx \<Rightarrow> addr \<Rightarrow> addr \<Rightarrow> coins \<Rightarrow> ledger ctx result" where
  "ledger_send H c f t cs =
     bindR (ledger_sub (ext c) f cs) (\<lambda>x1.
     bindR (H (c\<lparr>ext := x1\<rparr>) f t cs) (\<lambda>(t', c2).
     bindR (ledger_add (ext c2) t' cs) (\<lambda>x3.
     Inr (c2\<lparr>ext := x3\<rparr>))))"

definition ledger_sdk :: "ledger sdk" where
  "ledger_sdk =
     \<lparr> codec = tag_codec, dmath = even_math, base_denom = ''liao'',
       module_address = (\<lambda>m. CHR ''m'' # m), module_registered = (\<lambda>m. True),
       blocked_addr = (\<lambda>a. False),
       is_module_account = (\<lambda>x a. take 1 a = ''m''),
       bank_balance = l_bal, bank_supply = l_supply,
       bank_sub = ledger_sub, bank_add = ledger_add,
       send_coins = ledger_send,
       send_to_module = (\<lambda>H c f m. ledger_send H c f (CHR ''m'' # m)),
       send_from_module = (\<lambda>H c m. ledger_send H c (CHR ''m'' # m)),
       send_between_modules = (\<lambda>H c m n. ledger_send H c (CHR ''m'' # m) (CHR ''m'' # n)),
       mint_coins = (\<lambda>c m cs. bindR (ledger_add (ext c) (CHR ''m'' # m) cs) (\<lambda>y.
          Inr (c\<lparr>ext := l_issue y (\<lambda>d. l_supply y d + AmountOf cs d) (map fst cs)\<rparr>))),
       burn_coins = (\<lambda>c m cs. bindR (ledger_sub (ext c) (CHR ''m'' # m) cs) (\<lambda>y.
          Inr (c\<lparr>ext := l_issue y (\<lambda>d. l_supply y d - AmountOf cs d) (map fst cs)\<rparr>))),
       delegator_bonded = (\<lambda>x a. Inr 0), delegator_unbonding = (\<lambda>x a. Inr 0), total_bonded = (\<lambda>x. Inr 1),
       channel_escrows = (\<lambda>x. []), send_enabled = (\<lambda>x cs. True),
       valid_coins = (\<lambda>cs. list_all (\<lambda>(d, n). 0 < n) cs) \<rparr>"

lemma AmountOf_absent: "d \<notin> fst ` set cs \<Longrightarrow> AmountOf cs d = 0"
  unfolding AmountOf_def by (induction cs) auto

lemma AmountOf_nonneg: "list_all (\<lambda>(d, n). 0 \<le> n) cs \<Longrightarrow> 0 \<le> AmountOf cs d"
  unfolding AmountOf_def by (induction cs) auto

lemma ledger_sub_nonneg: "ledger_sub x a cs = Inr y \<Longrightarrow> 0 \<le> AmountOf cs d"
  by (rule AmountOf_nonneg) (auto simp: ledger_sub_def list_all_iff split: if_splits)

lemma ledger_add_nonneg: "ledger_add x a cs = Inr y \<Longrightarrow> 0 \<le> AmountOf cs d"
  by (rule AmountOf_nonneg) (auto simp: ledger_add_def split: if_splits)

lemma map_of_put: "map_of (map (\<lambda>d. (g d, f d)) ds @ m) (g e) = (if e \<in> set ds then Some (f e) else map_of m (g e))"
  if "inj g"
  using that by (induction ds) (auto simp: inj_eq)

lemma l_bal_nonneg [simp]: "0 \<le> l_bal x a d"
  by (simp add: l_bal_def split: option.split)

lemma l_bal_put:
  assumes "\<And>d. d \<in> set ds \<Longrightarrow> 0 \<le> f d"
  shows "l_bal (l_put x a f ds) b d = (if b = a \<and> d \<in> set ds then f d else l_bal x b d)"
proof (cases "b = a")
  case True
  then show ?thesis using assms map_of_put [of "Pair a" f ds "l_accounts x" d]
    by (auto simp: l_bal_def l_put_def inj_def simp del: map_of_append)
next
  case False
  have "map_of (map (\<lambda>d. ((a, d), f d)) ds) (b, d) = None" using False by (induction ds) auto
  then show ?thesis using False by (simp add: l_bal_def l_put_def map_add_def)
qed

lemma l_supply_put [simp]: "l_supply (l_put x a f ds) d = l_supply x d"
  by (simp add: l_supply_def l_put_def)

lemma l_bal_issue [simp]: "l_bal (l_issue x f ds) a d = l_bal x a d"
  by (simp add: l_bal_def l_issue_def)

lemma l_supply_issue: "l_supply (l_issue x f ds) d = (if d \<in> set ds then f d else l_supply x d)"
  using map_of_put [of "\<lambda>d. d" f ds "l_totals x" d] by (simp add: l_supply_def l_issue_def inj_def del: map_of_append)

lemma ledger_sub_bal:
  assumes "ledger_sub x a cs = Inr y"
  shows "l_bal y b d = l_bal x b d - (if b = a then AmountOf cs d else 0)" "l_supply y = l_supply x"
proof -
  have ok: "\<And>d. d \<in> fst ` set cs \<Longrightarrow> AmountOf cs d \<le> l_bal x a d"
    and y: "y = l_put x a (\<lambda>d. l_bal x a d - AmountOf cs d) (map fst cs)"
    using assms by (auto simp: ledger_sub_def list_all_iff split: if_splits)
  have "l_bal y b d = (if b = a \<and> d \<in> set (map fst cs) then l_bal x a d - AmountOf cs d else l_bal x b d)"
    unfolding y by (rule l_bal_put) (use ok in auto)
  then show "l_bal y b d = l_bal x b d - (if b = a then AmountOf cs d else 0)" "l_supply y = l_supply x"
    using AmountOf_absent [of d cs] by (auto simp: y fun_eq_iff)
qed

lemma ledger_add_bal:
  assumes "ledger_add x a cs = Inr y"
  shows "l_bal y b d = l_bal x b d + (if b = a then AmountOf cs d else 0)" "l_supply y = l_supply x"
proof -
  have ok: "\<And>d. 0 \<le> AmountOf cs d" and y: "y = l_put x a (\<lambda>d. l_bal x a d + AmountOf cs d) (map fst cs)"
    using assms AmountOf_nonneg by (auto simp: ledger_add_def split: if_splits)
  have "l_bal y b d = (if b = a \<and> d \<in> set (map fst cs) then l_bal x a d + AmountOf cs d else l_bal x b d)"
    unfolding y by (rule l_bal_put) (use ok in auto)
  then show "l_bal y b d = l_bal x b d + (if b = a then AmountOf cs d else 0)" "l_supply y = l_supply x"
    using AmountOf_absent [of d cs] by (auto simp: y fun_eq_iff)
qed

lemma ledger_bank_laws: "bank_laws ledger_sdk"
  unfolding bank_laws_def
proof (intro conjI)
  show "send_law ledger_sdk" by (simp add: send_law_def ledger_sdk_def ledger_send_def)
  show "module_send_laws ledger_sdk" by (simp add: module_send_laws_def ledger_sdk_def)
  show "balance_laws ledger_sdk"
    by (auto simp: balance_laws_def ledger_sdk_def same_rest_def ledger_sub_bal ledger_add_bal ledger_sub_nonneg)
  show "supply_laws ledger_sdk"
    unfolding supply_laws_def
  proof (intro conjI allI impI)
    fix c :: "ledger ctx" and m cs c' d
    assume "mint_coins ledger_sdk c m cs = Inr c'"
    then obtain y where y: "ledger_add (ext c) (CHR ''m'' # m) cs = Inr y"
      "c' = c\<lparr>ext := l_issue y (\<lambda>d. l_supply y d + AmountOf cs d) (map fst cs)\<rparr>" by (auto simp: ledger_sdk_def)
    then show "\<exists>y. c' = c\<lparr>ext := y\<rparr> \<and> same_rest ledger_sdk (ext c) y \<and>
        (\<forall>d. bank_supply ledger_sdk y d = bank_supply ledger_sdk (ext c) d + AmountOf cs d) \<and>
        (\<forall>b d. bank_balance ledger_sdk y b d = bank_balance ledger_sdk (ext c) b d +
           (if b = module_address ledger_sdk m then AmountOf cs d else 0))"
      using ledger_add_bal [OF y(1)] AmountOf_absent [of _ cs]
      by (intro exI [of _ "l_issue y (\<lambda>d. l_supply y d + AmountOf cs d) (map fst cs)"])
        (auto simp: ledger_sdk_def same_rest_def l_supply_issue)
    show "0 \<le> AmountOf cs d" using ledger_add_nonneg [OF y(1)] .
  next
    fix c :: "ledger ctx" and m cs c' d
    assume "burn_coins ledger_sdk c m cs = Inr c'"
    then obtain y where y: "ledger_sub (ext c) (CHR ''m'' # m) cs = Inr y"
      "c' = c\<lparr>ext := l_issue y (\<lambda>d. l_supply y d - AmountOf cs d) (map fst cs)\<rparr>" by (auto simp: ledger_sdk_def)
    then show "\<exists>y. c' = c\<lparr>ext := y\<rparr> \<and> same_rest ledger_sdk (ext c) y \<and>
        (\<forall>d. bank_supply ledger_sdk y d = bank_supply ledger_sdk (ext c) d - AmountOf cs d) \<and>
        (\<forall>b d. bank_balance ledger_sdk y b d = bank_balance ledger_sdk (ext c) b d -
           (if b = module_address ledger_sdk m then AmountOf cs d else 0))"
      using ledger_sub_bal [OF y(1)] AmountOf_absent [of _ cs]
      by (intro exI [of _ "l_issue y (\<lambda>d. l_supply y d - AmountOf cs d) (map fst cs)"])
        (auto simp: ledger_sdk_def same_rest_def l_supply_issue)
    show "0 \<le> AmountOf cs d" using ledger_sub_nonneg [OF y(1)] .
  qed
qed

section \<open>The laws of the modules below, together\<close>

text \<open>
  The account of a registered module exists and is recognised as one.  It has no vesting schedule, so it
  can spend what it holds, and a positive credit always succeeds.
\<close>

definition module_account_laws :: "'x sdk \<Rightarrow> bool" where
  "module_account_laws K \<longleftrightarrow> inj (module_address K) \<and> (\<forall>m. module_address K m \<noteq> []) \<and>
     (\<forall>x m. module_registered K m \<longrightarrow> is_module_account K x (module_address K m)) \<and>
     (\<forall>x m d n. 0 < n \<longrightarrow> n \<le> bank_balance K x (module_address K m) d \<longrightarrow>
        (\<exists>y. bank_sub K x (module_address K m) [(d, n)] = Inr y)) \<and>
     (\<forall>x a d n. 0 < n \<longrightarrow> (\<exists>y. bank_add K x a [(d, n)] = Inr y))"

text \<open>\<^verbatim>\<open>NewKeeper\<close> of the ATOX module panics when the two denominations are the same.\<close>

definition sdk_laws :: "'x sdk \<Rightarrow> bool" where
  "sdk_laws K \<longleftrightarrow> bank_laws K \<and> addr_laws (codec K) \<and> dec_laws (dmath K) \<and> module_account_laws K \<and>
     base_denom K \<noteq> AtoxBaseDenom"

lemma sdk_lawsD:
  assumes "sdk_laws K"
  shows "bank_laws K" "addr_laws (codec K)" "dec_laws (dmath K)" "inj (module_address K)" "inj (acc_string (codec K))"
    "module_registered K m \<Longrightarrow> is_module_account K x (module_address K m)" "base_denom K \<noteq> AtoxBaseDenom"
    "module_address K m \<noteq> []"
  using assms by (simp_all add: sdk_laws_def module_account_laws_def addr_laws_def)

lemma module_spend:
  assumes "sdk_laws K" "0 < n" "n \<le> bank_balance K x (module_address K m) d"
  obtains y where "bank_sub K x (module_address K m) [(d, n)] = Inr y"
  using assms unfolding sdk_laws_def module_account_laws_def by blast

lemma credit_ok:
  assumes "sdk_laws K" "0 < n"
  obtains y where "bank_add K x a [(d, n)] = Inr y"
  using assms unfolding sdk_laws_def module_account_laws_def by blast

lemma ledger_laws: "sdk_laws ledger_sdk"
  using ledger_bank_laws tag_codec_laws even_math_laws
  by (simp add: sdk_laws_def module_account_laws_def ledger_sdk_def inj_def ledger_sub_def ledger_add_def
      AtoxBaseDenom_def)

end
