(* ===== verification/Energy.thy ===== *)
theory Energy
  imports Chain
begin

text \<open>
  The energy keeper (\<^verbatim>\<open>x/energy/keeper\<close>): accounts and delegations with their indexes, lazy settlement,
  consumption and refund, delegation, the send restriction, the staking hooks, the message server,
  genesis and migration.  An operation takes the context and returns the changed one; the operations
  that reach the bank take the registered send restriction \<open>H\<close>.
\<close>

section \<open>Store (keeper.go)\<close>

definition upd_energy :: "(energy_store \<Rightarrow> energy_store) \<Rightarrow> 'x ctx \<Rightarrow> 'x ctx" where
  "upd_energy f c = c\<lparr>st_energy := f (st_energy c)\<rparr>"

definition energy_GetParams :: "'x ctx \<Rightarrow> energy_params" where
  "energy_GetParams c = (case e_params (st_energy c) of None \<Rightarrow> energy_DefaultParams | Some p \<Rightarrow> p)"

definition energy_SetParams :: "'x sdk \<Rightarrow> energy_params \<Rightarrow> 'x ctx \<Rightarrow> 'x ctx result" where
  "energy_SetParams K p c =
     bindR (energy_Params_Validate (codec K) p) (\<lambda>_. Inr (upd_energy (\<lambda>s. s\<lparr>e_params := Some p\<rparr>) c))"

definition GetEnergyAccount :: "'x sdk \<Rightarrow> 'x ctx \<Rightarrow> addr \<Rightarrow> energy_account" where
  "GetEnergyAccount K c a =
     (case kv_get (e_accounts (st_energy c)) (acc_string (codec K) a) of
        None \<Rightarrow> NewEnergyAccount (acc_string (codec K) a)
      | Some acct \<Rightarrow> acct)"

definition SetEnergyAccount :: "energy_account \<Rightarrow> 'x ctx \<Rightarrow> 'x ctx" where
  "SetEnergyAccount acct c = upd_energy (\<lambda>s. s\<lparr>e_accounts := kv_set (Address acct) acct (e_accounts s)\<rparr>) c"

definition GetDelegation :: "'x ctx \<Rightarrow> u64 \<Rightarrow> energy_delegation option" where
  "GetDelegation c did = kv_get (e_delegations (st_energy c)) did"

definition setDelegation :: "energy_delegation \<Rightarrow> 'x ctx \<Rightarrow> 'x ctx" where
  "setDelegation d c = upd_energy (\<lambda>s. s\<lparr>
     e_delegations := kv_set (d_Id d) d (e_delegations s),
     e_by_expiry := kv_set (u64_of_i64 (d_ExpiresAt d), d_Id d) () (e_by_expiry s),
     e_by_delegator := kv_set (d_Delegator d, d_Id d) () (e_by_delegator s),
     e_by_delegatee := kv_set (d_Delegatee d, d_Id d) () (e_by_delegatee s)\<rparr>) c"

definition removeDelegation :: "energy_delegation \<Rightarrow> 'x ctx \<Rightarrow> 'x ctx" where
  "removeDelegation d c = upd_energy (\<lambda>s. s\<lparr>
     e_delegations := kv_del (d_Id d) (e_delegations s),
     e_by_expiry := kv_del (u64_of_i64 (d_ExpiresAt d), d_Id d) (e_by_expiry s),
     e_by_delegator := kv_del (d_Delegator d, d_Id d) (e_by_delegator s),
     e_by_delegatee := kv_del (d_Delegatee d, d_Id d) (e_by_delegatee s)\<rparr>) c"

definition nextDelegationID :: "'x ctx \<Rightarrow> u64 \<times> 'x ctx" where
  "nextDelegationID c =
     (let did = (case e_next_id (st_energy c) of None \<Rightarrow> 1 | Some i \<Rightarrow> i) in
      (did, upd_energy (\<lambda>s. s\<lparr>e_next_id := Some (did + 1)\<rparr>) c))"

definition setNextDelegationID :: "u64 \<Rightarrow> 'x ctx \<Rightarrow> 'x ctx" where
  "setNextDelegationID did c = upd_energy (\<lambda>s. s\<lparr>e_next_id := Some did\<rparr>) c"

text \<open>The walk over the index keys of one address, in the order of the ids, skipping ids with no record.\<close>

definition iterateDelegationsByIndex :: "'x ctx \<Rightarrow> (string \<times> u64, unit) kv \<Rightarrow> string \<Rightarrow> energy_delegation list" where
  "iterateDelegationsByIndex c ix s =
     List.map_filter (\<lambda>((s', did), _). if s' = s then GetDelegation c did else None) ix"

definition IterateDelegationsByDelegator :: "'x ctx \<Rightarrow> string \<Rightarrow> energy_delegation list" where
  "IterateDelegationsByDelegator c s = iterateDelegationsByIndex c (e_by_delegator (st_energy c)) s"

definition IterateDelegationsByDelegatee :: "'x ctx \<Rightarrow> string \<Rightarrow> energy_delegation list" where
  "IterateDelegationsByDelegatee c s = iterateDelegationsByIndex c (e_by_delegatee (st_energy c)) s"

definition heldAtox :: "'x sdk \<Rightarrow> 'x ctx \<Rightarrow> addr \<Rightarrow> int" where
  "heldAtox K c a = balance K c a AtoxBaseDenom"

definition stakedAtos :: "'x sdk \<Rightarrow> 'x ctx \<Rightarrow> addr \<Rightarrow> int" where
  "stakedAtos K c a =
     (let staked = (case delegator_bonded K (ext c) a of
                      Inl _ \<Rightarrow> 0 | Inr b \<Rightarrow> if b > 0 then b else 0) in
      staked + (case delegator_unbonding K (ext c) a of
                  Inl _ \<Rightarrow> 0 | Inr u \<Rightarrow> if u > 0 then u else 0))"

definition cachedStakedAtos :: "energy_account \<Rightarrow> int" where
  "cachedStakedAtos acct = (if \<not> StakedSnapshot acct > 0 then 0 else StakedSnapshot acct)"

definition EligibleBalance :: "'x sdk \<Rightarrow> 'x ctx \<Rightarrow> addr \<Rightarrow> int" where
  "EligibleBalance K c a =
     (let total = balance K c a (base_denom K);
          acct = GetEnergyAccount K c a;
          total = (if LockedAtos acct > 0 then total + LockedAtos acct else total) in
      total + stakedAtos K c a + heldAtox K c a)"

section \<open>Settlement (settle.go)\<close>

definition deployAddOverElapsed :: "int \<Rightarrow> u64 \<Rightarrow> energy_params \<Rightarrow> u64" where
  "deployAddOverElapsed eligible elapsed p =
     (if \<not> eligible > 0 \<or> \<not> DeployHoldingThreshold p > 0 then 0
      else let units = quoT eligible (DeployHoldingThreshold p) in
        if units = 0 \<or> \<not> is_u64 units then (if units \<noteq> 0 then max_u64 else 0)
        else let denom = u64_of_i64 (DeployRecoverDays p) * 86400 in
          if denom = 0 then 0
          else saturatingMul (saturatingMul (word_of_int units) (DeployEnergyCapacity p)) elapsed div denom)"

text \<open>The refill over an elapsed time, the part that \<^verbatim>\<open>Settle\<close> persists.\<close>

definition settle_refill :: "energy_params \<Rightarrow> int \<Rightarrow> energy_account \<Rightarrow> energy_account" where
  "settle_refill params now acct =
     (let elapsed = u64_of_i64 (wrap64 (now - LastUpdatedTime acct));
          txCap = TxEnergyCapacity (LastBalanceSnapshot acct) params;
          acct1 =
            (if txCap > 0 \<and> TxEnergyAccrued acct < txCap \<and> TxEnergyMaxAccrueWindow params > 0
             then let add = saturatingMul elapsed txCap div u64_of_i64 (TxEnergyMaxAccrueWindow params);
                      newAccrued = saturatingAdd (TxEnergyAccrued acct) add in
                  acct\<lparr>TxEnergyAccrued := (if newAccrued > txCap then txCap else newAccrued)\<rparr>
             else acct) in
      if DeployEnergyAccrued acct1 < DeployEnergyCapacity params
      then let add = deployAddOverElapsed (LastBalanceSnapshot acct1) elapsed params in
        if add > 0
        then let newAccrued = saturatingAdd (DeployEnergyAccrued acct1) add in
          acct1\<lparr>DeployEnergyAccrued :=
            (if newAccrued > DeployEnergyCapacity params then DeployEnergyCapacity params else newAccrued)\<rparr>
        else acct1
      else acct1)"

definition Settle :: "'x sdk \<Rightarrow> 'x ctx \<Rightarrow> addr \<Rightarrow> energy_account \<times> 'x ctx" where
  "Settle K c a =
     (let acct = GetEnergyAccount K c a; now = block_time c in
      if LastUpdatedTime acct = 0
      then let acct = acct\<lparr>LastBalanceSnapshot := EligibleBalance K c a,
                           StakedSnapshot := stakedAtos K c a, LastUpdatedTime := now\<rparr> in
           (acct, SetEnergyAccount acct c)
      else if now \<le> LastUpdatedTime acct then (acct, c)
      else let acct = (settle_refill (energy_GetParams c) now acct)\<lparr>LastUpdatedTime := now\<rparr> in
           (acct, SetEnergyAccount acct c))"

text \<open>The cap-down shared by \<^verbatim>\<open>ApplyBalanceChange\<close> and \<^verbatim>\<open>ApplyStakedChange\<close>.\<close>

definition cap_down :: "energy_params \<Rightarrow> int \<Rightarrow> energy_account \<Rightarrow> energy_account" where
  "cap_down params newEligible acct =
     (let newTxCap = TxEnergyCapacity newEligible params;
          effectiveCap = (if newTxCap < DelegatedOut acct then DelegatedOut acct else newTxCap);
          acct = (if TxEnergyAccrued acct > effectiveCap then acct\<lparr>TxEnergyAccrued := effectiveCap\<rparr> else acct) in
      if DeployEnergyAccrued acct > DeployEnergyCapacity params
      then acct\<lparr>DeployEnergyAccrued := DeployEnergyCapacity params\<rparr> else acct)"

definition ApplyBalanceChange :: "'x sdk \<Rightarrow> 'x ctx \<Rightarrow> addr \<Rightarrow> int \<Rightarrow> 'x ctx" where
  "ApplyBalanceChange K c a newEligible0 =
     (let newEligible = (if newEligible0 < 0 then 0 else newEligible0);
          (acct, c) = Settle K c a;
          acct = acct\<lparr>LastBalanceSnapshot := newEligible, LastUpdatedTime := block_time c\<rparr> in
      SetEnergyAccount (cap_down (energy_GetParams c) newEligible acct) c)"

definition ApplyStakedChange :: "'x sdk \<Rightarrow> 'x ctx \<Rightarrow> addr \<Rightarrow> int \<Rightarrow> 'x ctx" where
  "ApplyStakedChange K c a staked0 =
     (let staked = (if staked0 < 0 then 0 else staked0);
          (acct, c) = Settle K c a;
          newEligible = balance K c a (base_denom K) + balance K c a AtoxBaseDenom + staked;
          newEligible = (if LockedAtos acct > 0 then newEligible + LockedAtos acct else newEligible);
          acct = acct\<lparr>LastBalanceSnapshot := newEligible, StakedSnapshot := staked,
                      LastUpdatedTime := block_time c\<rparr> in
      SetEnergyAccount (cap_down (energy_GetParams c) newEligible acct) c)"

definition SimulateSettle :: "'x sdk \<Rightarrow> 'x ctx \<Rightarrow> addr \<Rightarrow> energy_account" where
  "SimulateSettle K c a =
     (let acct = GetEnergyAccount K c a; now = block_time c in
      if LastUpdatedTime acct = 0 \<or> now \<le> LastUpdatedTime acct then acct
      else
        let params = energy_GetParams c;
            elapsed = u64_of_i64 (wrap64 (now - LastUpdatedTime acct));
            txCap = TxEnergyCapacity (LastBalanceSnapshot acct) params;
            acct =
              (if txCap > 0 \<and> TxEnergyAccrued acct < txCap \<and> TxEnergyMaxAccrueWindow params > 0
               then let add = saturatingMul elapsed txCap div u64_of_i64 (TxEnergyMaxAccrueWindow params) in
                    acct\<lparr>TxEnergyAccrued := minU64 (saturatingAdd (TxEnergyAccrued acct) add) txCap\<rparr>
               else acct) in
        if DeployEnergyAccrued acct < DeployEnergyCapacity params
        then let add = deployAddOverElapsed (LastBalanceSnapshot acct) elapsed params in
          if add > 0
          then acct\<lparr>DeployEnergyAccrued :=
                 minU64 (saturatingAdd (DeployEnergyAccrued acct) add) (DeployEnergyCapacity params)\<rparr>
          else acct
        else acct)"

definition CurrentTxCapacity :: "'x sdk \<Rightarrow> 'x ctx \<Rightarrow> addr \<Rightarrow> u64" where
  "CurrentTxCapacity K c a = TxEnergyCapacity (EligibleBalance K c a) (energy_GetParams c)"

section \<open>Consumption (consume.go)\<close>

fun all_listed :: "energy_params \<Rightarrow> string list \<Rightarrow> bool" where
  "all_listed p [] = True"
| "all_listed p (u # us) = (if \<not> IsSubsidizedMsg p u then False else all_listed p us)"

definition allSubsidized :: "energy_params \<Rightarrow> string list \<Rightarrow> bool" where
  "allSubsidized p urls = (if urls = [] then False else all_listed p urls)"

text \<open>Phase 3 of the attribution: what is left, the records to write and the attribution list.\<close>

fun attribute_loop ::
  "u64 \<Rightarrow> energy_delegation list \<Rightarrow> u64 \<times> energy_delegation list \<times> (u64 \<times> u64) list" where
  "attribute_loop remaining [] = (remaining, [], [])"
| "attribute_loop remaining (d # ds) =
     (if remaining = 0 then (remaining, [], [])
      else let avail = d_Amount d - d_Used d;
               take = minU64 remaining avail;
               (rem', upd, att) = attribute_loop (remaining - take) ds in
           (rem', d\<lparr>d_Used := d_Used d + take\<rparr> # upd, (d_Id d, take) # att))"

definition inbound_candidates :: "'x ctx \<Rightarrow> string \<Rightarrow> energy_delegation list" where
  "inbound_candidates c delegatee =
     sort_key (\<lambda>d. (d_ExpiresAt d, d_Id d))
       (filter (\<lambda>d. d_Amount d > d_Used d) (IterateDelegationsByDelegatee c delegatee))"

definition attributeDelegatedConsumption ::
  "'x sdk \<Rightarrow> 'x ctx \<Rightarrow> addr \<Rightarrow> u64 \<Rightarrow> ((u64 \<times> u64) list \<times> 'x ctx) result" where
  "attributeDelegatedConsumption K c delegatee amount =
     (if amount = 0 then Inr ([], c)
      else let (remaining, toUpdate, attribution) =
                 attribute_loop amount (inbound_candidates c (acc_string (codec K) delegatee));
               c1 = fold setDelegation toUpdate c in
           if remaining > 0 then Inl (Err ''delegated_in_usable accounting drift'')
           else Inr (attribution, c1))"

definition own_available :: "energy_account \<Rightarrow> u64" where
  "own_available acct =
     (if DelegatedOut acct < TxEnergyAccrued acct then TxEnergyAccrued acct - DelegatedOut acct else 0)"

definition Consume ::
  "'x sdk \<Rightarrow> 'x ctx \<Rightarrow> addr \<Rightarrow> u64 \<Rightarrow> bool \<Rightarrow> string list \<Rightarrow> (consume_result \<times> 'x ctx) result" where
  "Consume K c signer gasNeeded isDeploy urls =
     (let params = energy_GetParams c in
      if allSubsidized params urls then Inr (empty_result\<lparr>Free := True\<rparr>, c)
      else if \<not> EnergyEnabled params then Inr (empty_result\<lparr>ShortfallGas := gasNeeded\<rparr>, c)
      else if gasNeeded = 0 then Inr (empty_result, c)
      else
        let (acct, c) = Settle K c signer;
            deploy = (if isDeploy \<and> DeployEnergyAccrued acct > 0
                      then minU64 gasNeeded (DeployEnergyAccrued acct) else 0);
            acct = acct\<lparr>DeployEnergyAccrued := DeployEnergyAccrued acct - deploy\<rparr>;
            remaining = gasNeeded - deploy;
            ownAvail = own_available acct;
            own = (if remaining > 0 \<and> ownAvail > 0 then minU64 remaining ownAvail else 0);
            acct = acct\<lparr>TxEnergyAccrued := TxEnergyAccrued acct - own\<rparr>;
            remaining = remaining - own;
            out = empty_result\<lparr>DeployEnergyUsed := deploy, EnergyDeducted := own, OwnDeducted := own\<rparr> in
        if remaining > 0 \<and> DelegatedInUsable acct > 0
        then let del = minU64 remaining (DelegatedInUsable acct);
                 acct = acct\<lparr>DelegatedInUsable := DelegatedInUsable acct - del\<rparr>;
                 remaining = remaining - del in
             bindR (attributeDelegatedConsumption K c signer del) (\<lambda>(attrib, c).
               Inr (out\<lparr>EnergyDeducted := own + del, DelegatedDeducted := del,
                        DelegationConsumptions := attrib, ShortfallGas := remaining\<rparr>,
                    SetEnergyAccount acct c))
        else Inr (out\<lparr>ShortfallGas := remaining\<rparr>, SetEnergyAccount acct c))"

text \<open>Phase 1 of the refund: from the last attribution back, undoing what the live records allow.\<close>

fun refund_loop :: "(u64 \<times> u64) list \<Rightarrow> u64 \<Rightarrow> u64 \<Rightarrow> 'x ctx \<Rightarrow> u64 \<times> 'x ctx" where
  "refund_loop [] delTarget undone c = (undone, c)"
| "refund_loop ((did, amt) # cs) delTarget undone c =
     (if \<not> undone < delTarget then (undone, c)
      else case GetDelegation c did of
             None \<Rightarrow> refund_loop cs delTarget undone c
           | Some d \<Rightarrow>
               let step = minU64 (delTarget - undone) amt;
                   step = (if step > d_Used d then d_Used d else step) in
               if step = 0 then refund_loop cs delTarget undone c
               else refund_loop cs delTarget (undone + step)
                      (setDelegation (d\<lparr>d_Used := d_Used d - step\<rparr>) c))"

definition RefundEnergy :: "'x sdk \<Rightarrow> 'x ctx \<Rightarrow> addr \<Rightarrow> u64 \<Rightarrow> consume_result \<Rightarrow> 'x ctx" where
  "RefundEnergy K c signer amount0 res =
     (if amount0 = 0 then c
      else let maxRefund = saturatingAdd (OwnDeducted res) (DelegatedDeducted res);
               amount = (if amount0 > maxRefund then maxRefund else amount0) in
        if amount = 0 then c
        else
          let acct = GetEnergyAccount K c signer;
              delTarget = minU64 amount (DelegatedDeducted res);
              ownRefund = minU64 (amount - delTarget) (OwnDeducted res);
              (acct, c) =
                (if delTarget > 0
                 then let (undone, c) = refund_loop (rev (DelegationConsumptions res)) delTarget 0 c in
                      (acct\<lparr>DelegatedInUsable := saturatingAdd (DelegatedInUsable acct) undone\<rparr>, c)
                 else (acct, c));
              acct =
                (if ownRefund > 0
                 then let cap = TxEnergyCapacity (LastBalanceSnapshot acct) (energy_GetParams c) in
                      acct\<lparr>TxEnergyAccrued := minU64 (saturatingAdd (TxEnergyAccrued acct) ownRefund) cap\<rparr>
                 else acct) in
          SetEnergyAccount acct c)"

definition EstimateConsume ::
  "'x sdk \<Rightarrow> 'x ctx \<Rightarrow> addr \<Rightarrow> u64 \<Rightarrow> bool \<Rightarrow> string list \<Rightarrow> consume_result" where
  "EstimateConsume K c signer gasNeeded isDeploy urls =
     (let params = energy_GetParams c in
      if allSubsidized params urls then empty_result\<lparr>Free := True\<rparr>
      else if \<not> EnergyEnabled params then empty_result\<lparr>ShortfallGas := gasNeeded\<rparr>
      else
        let acct = SimulateSettle K c signer;
            deploy = (if isDeploy \<and> DeployEnergyAccrued acct > 0
                      then minU64 gasNeeded (DeployEnergyAccrued acct) else 0);
            remaining = gasNeeded - deploy;
            own = own_available acct;
            take = (if remaining > 0 \<and> own > 0 then minU64 remaining own else 0);
            remaining = remaining - take;
            del = (if remaining > 0 \<and> DelegatedInUsable acct > 0
                   then minU64 remaining (DelegatedInUsable acct) else 0);
            remaining = remaining - del in
        empty_result\<lparr>DeployEnergyUsed := deploy, EnergyDeducted := take + del, ShortfallGas := remaining\<rparr>)"

end
