(* ===== verification/EnergyModule.thy ===== *)
theory EnergyModule
  imports Energy
begin

text \<open>
  The rest of the energy module: delegation and release (\<^verbatim>\<open>delegation.go\<close>), the bank send restriction,
  the staking hooks, the pending reservations and the end of the block, the message server, genesis
  and the snapshot migration.

  \<^verbatim>\<open>releaseDelegation\<close> returns its error together with the context, because the sweep at the end of the
  block logs the error and keeps the writes made before it.
\<close>

definition LockedEnergyPoolName :: string where
  "LockedEnergyPoolName = ''energy_locked_pool''"

section \<open>Send restriction (send\_restriction.go)\<close>

definition lockedAtosOf :: "energy_account \<Rightarrow> int" where
  "lockedAtosOf acct = (if \<not> LockedAtos acct > 0 then 0 else LockedAtos acct)"

definition nonBankTerms :: "'x sdk \<Rightarrow> 'x ctx \<Rightarrow> addr \<Rightarrow> energy_account \<Rightarrow> int" where
  "nonBankTerms K c a acct =
     (if LastUpdatedTime acct = 0 then lockedAtosOf acct + stakedAtos K c a
      else lockedAtosOf acct + cachedStakedAtos acct)"

definition energy_SendRestriction :: "'x sdk \<Rightarrow> 'x hook" where
  "energy_SendRestriction K c from to amt =
     (let moved = AmountOf amt (base_denom K) + AmountOf amt AtoxBaseDenom in
      if \<not> moved > 0 then Inr (to, c)
      else if from = to then Inr (to, c)
      else
        let fromBefore = balance K c from (base_denom K) + balance K c from AtoxBaseDenom;
            toBefore = balance K c to (base_denom K) + balance K c to AtoxBaseDenom;
            fromAcct = GetEnergyAccount K c from;
            toAcct = GetEnergyAccount K c to;
            c1 = ApplyBalanceChange K c from (fromBefore + nonBankTerms K c from fromAcct);
            c2 = ApplyBalanceChange K c1 to (toBefore + moved + nonBankTerms K c1 to toAcct) in
        Inr (to, c2))"

section \<open>Delegation (delegation.go)\<close>

definition Delegate ::
  "'x sdk \<Rightarrow> 'x hook \<Rightarrow> 'x ctx \<Rightarrow> addr \<Rightarrow> addr \<Rightarrow> u64 \<Rightarrow> int \<Rightarrow> (u64 \<times> int \<times> 'x ctx) result" where
  "Delegate K H c delegator delegatee amount durationSeconds =
     (if amount = 0 then Inl ErrInvalidAmount
      else if durationSeconds \<le> 0 then Inl ErrInvalidDuration
      else if delegator = delegatee then Inl ErrSelfDelegation
      else
        let params = energy_GetParams c in
        if TxEnergyPerThreshold params = 0 \<or> TxEnergyHoldingThreshold params = 0
        then Inl (Err ''invalid params'')
        else
          let thresholdUnits = (amount + TxEnergyPerThreshold params - 1) div TxEnergyPerThreshold params;
              lockedATOS = TxEnergyHoldingThreshold params * i64_of_u64 thresholdUnits;
              (delAcct, c) = Settle K c delegator;
              freeEnergy = (if DelegatedOut delAcct > TxEnergyAccrued delAcct then 0
                            else TxEnergyAccrued delAcct - DelegatedOut delAcct) in
          if freeEnergy < amount then Inl ErrInsufficientEnergy
          else if balance K c delegator (base_denom K) < lockedATOS then Inl ErrInsufficientBalance
          else
            let delAcct = delAcct\<lparr>DelegatedOut := DelegatedOut delAcct + amount,
                                  LockedAtos := LockedAtos delAcct + lockedATOS\<rparr>;
                c = SetEnergyAccount delAcct c in
            bindR (new_coins (base_denom K) lockedATOS) (\<lambda>coins.
            bindR (send_to_module K H c delegator LockedEnergyPoolName coins) (\<lambda>c.
              let (deeAcct, c) = Settle K c delegatee;
                  deeAcct = deeAcct\<lparr>DelegatedInUsable := saturatingAdd (DelegatedInUsable deeAcct) amount\<rparr>;
                  c = SetEnergyAccount deeAcct c;
                  (did, c) = nextDelegationID c;
                  now = block_time c;
                  d = \<lparr> d_Id = did, d_Delegator = acc_string (codec K) delegator,
                        d_Delegatee = acc_string (codec K) delegatee, d_Amount = amount,
                        d_LockedAtos = lockedATOS, d_StartTime = now,
                        d_ExpiresAt = wrap64 (now + durationSeconds), d_Used = 0 \<rparr> in
              Inr (did, lockedATOS, setDelegation d c))))"

definition release_delegator :: "energy_delegation \<Rightarrow> energy_account \<Rightarrow> energy_account" where
  "release_delegator d acct =
     (let acct = (if d_Used d > 0
                  then acct\<lparr>TxEnergyAccrued :=
                         (if TxEnergyAccrued acct \<ge> d_Used d then TxEnergyAccrued acct - d_Used d else 0)\<rparr>
                  else acct);
          acct = acct\<lparr>DelegatedOut :=
                   (if DelegatedOut acct \<ge> d_Amount d then DelegatedOut acct - d_Amount d else 0)\<rparr> in
      acct\<lparr>LockedAtos :=
        (if LockedAtos acct \<ge> d_LockedAtos d then LockedAtos acct - d_LockedAtos d else 0)\<rparr>)"

definition releaseDelegation ::
  "'x sdk \<Rightarrow> 'x hook \<Rightarrow> 'x ctx \<Rightarrow> energy_delegation \<Rightarrow> go_error option \<times> 'x ctx" where
  "releaseDelegation K H c d =
     (case acc_from_bech32 (codec K) (d_Delegator d) of
        None \<Rightarrow> (Some ErrInvalidAddress, c)
      | Some delegator \<Rightarrow>
        (case acc_from_bech32 (codec K) (d_Delegatee d) of
           None \<Rightarrow> (Some ErrInvalidAddress, c)
         | Some delegatee \<Rightarrow>
           let remaining = (if d_Amount d > d_Used d then d_Amount d - d_Used d else 0);
               (delAcct, c) = Settle K c delegator;
               c = SetEnergyAccount (release_delegator d delAcct) c;
               refunded = (if d_LockedAtos d > 0
                           then bindR (new_coins (base_denom K) (d_LockedAtos d))
                                  (\<lambda>coins. send_from_module K H c LockedEnergyPoolName delegator coins)
                           else Inr c) in
           (case refunded of
              Inl e \<Rightarrow> (Some e, c)
            | Inr c \<Rightarrow>
              let (deeAcct, c) = Settle K c delegatee;
                  deeAcct = deeAcct\<lparr>DelegatedInUsable :=
                    (if DelegatedInUsable deeAcct \<ge> remaining then DelegatedInUsable deeAcct - remaining else 0)\<rparr> in
              (None, removeDelegation d (SetEnergyAccount deeAcct c)))))"

definition Undelegate :: "'x sdk \<Rightarrow> 'x hook \<Rightarrow> 'x ctx \<Rightarrow> addr \<Rightarrow> u64 \<Rightarrow> 'x ctx result" where
  "Undelegate K H c delegator did =
     (case GetDelegation c did of
        None \<Rightarrow> Inl ErrDelegationNotFound
      | Some d \<Rightarrow>
          if d_Delegator d \<noteq> acc_string (codec K) delegator then Inl ErrUnauthorized
          else (case releaseDelegation K H c d of (Some e, _) \<Rightarrow> Inl e | (None, c') \<Rightarrow> Inr c'))"

definition sweep_ids :: "int \<Rightarrow> (u64 \<times> u64, unit) kv \<Rightarrow> u64 list" where
  "sweep_ids now ix = map (snd \<circ> fst) (takeWhile (\<lambda>((e, _), _). i64_of_u64 e \<le> now) ix)"

fun sweep_loop :: "'x sdk \<Rightarrow> 'x hook \<Rightarrow> u64 list \<Rightarrow> 'x ctx \<Rightarrow> 'x ctx" where
  "sweep_loop K H [] c = c"
| "sweep_loop K H (did # ids) c =
     (case GetDelegation c did of
        None \<Rightarrow> sweep_loop K H ids c
      | Some d \<Rightarrow> sweep_loop K H ids (snd (releaseDelegation K H c d)))"

definition SweepExpiredDelegations :: "'x sdk \<Rightarrow> 'x hook \<Rightarrow> 'x ctx \<Rightarrow> 'x ctx" where
  "SweepExpiredDelegations K H c = sweep_loop K H (sweep_ids (block_time c) (e_by_expiry (st_energy c))) c"

section \<open>Pending reservations and the end of the block\<close>

definition SetPendingReservation ::
  "'x sdk \<Rightarrow> 'x ctx \<Rightarrow> string \<Rightarrow> addr \<Rightarrow> u64 \<Rightarrow> consume_result \<Rightarrow> 'x ctx" where
  "SetPendingReservation K c txHash signer gasLimit res =
     (if txHash = [] then c
      else upd_energy (\<lambda>s. s\<lparr>e_pending := kv_set txHash
             \<lparr> pr_Signer = acc_string (codec K) signer, pr_GasLimit = gasLimit, pr_ConsumeResult = res \<rparr>
             (e_pending s)\<rparr>) c)"

definition DeletePendingReservation :: "'x ctx \<Rightarrow> string \<Rightarrow> 'x ctx" where
  "DeletePendingReservation c txHash =
     (if txHash = [] then c else upd_energy (\<lambda>s. s\<lparr>e_pending := kv_del txHash (e_pending s)\<rparr>) c)"

definition IteratePendingReservations ::
  "'x sdk \<Rightarrow> 'x ctx \<Rightarrow> (string \<times> addr \<times> u64 \<times> consume_result) list" where
  "IteratePendingReservations K c =
     List.map_filter (\<lambda>(txHash, p). map_option
         (\<lambda>signer. (txHash, signer, pr_GasLimit p, pr_ConsumeResult p))
         (acc_from_bech32 (codec K) (pr_Signer p)))
       (e_pending (st_energy c))"

definition refund_entry :: "'x sdk \<Rightarrow> string \<times> addr \<times> u64 \<times> consume_result \<Rightarrow> 'x ctx \<Rightarrow> 'x ctx" where
  "refund_entry K = (\<lambda>(txHash, signer, gasLimit, res) c.
     (let refund = saturatingAdd (OwnDeducted res) (DelegatedDeducted res);
          c1 = (if refund > 0 then RefundEnergy K c signer refund res else c) in
      DeletePendingReservation c1 txHash))"

definition refundFailedTxReservations :: "'x sdk \<Rightarrow> 'x ctx \<Rightarrow> 'x ctx" where
  "refundFailedTxReservations K c = fold (refund_entry K) (IteratePendingReservations K c) c"

definition energy_EndBlocker :: "'x sdk \<Rightarrow> 'x hook \<Rightarrow> 'x ctx \<Rightarrow> 'x ctx" where
  "energy_EndBlocker K H c =
     (if \<not> EnergyEnabled (energy_GetParams c) then c
      else refundFailedTxReservations K (SweepExpiredDelegations K H c))"

section \<open>Staking hooks\<close>

definition hooks_refresh :: "'x sdk \<Rightarrow> 'x ctx \<Rightarrow> addr \<Rightarrow> 'x ctx" where
  "hooks_refresh K c delAddr =
     (if block_height c = 0 then c
      else if \<not> EnergyEnabled (energy_GetParams c) then c
      else ApplyStakedChange K c delAddr (stakedAtos K c delAddr))"

definition AfterDelegationModified :: "'x sdk \<Rightarrow> 'x ctx \<Rightarrow> addr \<Rightarrow> 'x ctx" where
  "AfterDelegationModified K c delAddr = hooks_refresh K c delAddr"

definition BeforeDelegationRemoved :: "'x sdk \<Rightarrow> 'x ctx \<Rightarrow> addr \<Rightarrow> 'x ctx" where
  "BeforeDelegationRemoved K c delAddr = hooks_refresh K c delAddr"

section \<open>Message server\<close>

definition DelegateEnergy ::
  "'x sdk \<Rightarrow> 'x hook \<Rightarrow> 'x ctx \<Rightarrow> msg_delegate_energy \<Rightarrow> (u64 \<times> int \<times> 'x ctx) result" where
  "DelegateEnergy K H c msg =
     (case acc_from_bech32 (codec K) (md_Delegator msg) of
        None \<Rightarrow> Inl ErrInvalidAddress
      | Some delegator \<Rightarrow>
        (case acc_from_bech32 (codec K) (md_Delegatee msg) of
           None \<Rightarrow> Inl ErrInvalidAddress
         | Some delegatee \<Rightarrow>
           let params = energy_GetParams c;
               duration = (if md_DurationSeconds msg = 0
                           then (if DefaultDelegationDurationSeconds params > 0
                                 then DefaultDelegationDurationSeconds params else 86400)
                           else md_DurationSeconds msg) in
           if MaxDelegationDurationSeconds params > 0 \<and> duration > MaxDelegationDurationSeconds params
           then Inl (Err ''duration_seconds exceeds max_delegation_duration_seconds'')
           else Delegate K H c delegator delegatee (md_Amount msg) duration))"

definition UndelegateEnergy :: "'x sdk \<Rightarrow> 'x hook \<Rightarrow> 'x ctx \<Rightarrow> string \<Rightarrow> u64 \<Rightarrow> 'x ctx result" where
  "UndelegateEnergy K H c msg_delegator did =
     (case acc_from_bech32 (codec K) msg_delegator of
        None \<Rightarrow> Inl ErrInvalidAddress
      | Some delegator \<Rightarrow> Undelegate K H c delegator did)"

definition energy_UpdateParams :: "'x sdk \<Rightarrow> string \<Rightarrow> 'x ctx \<Rightarrow> string \<Rightarrow> energy_params \<Rightarrow> 'x ctx result" where
  "energy_UpdateParams K authority c msg_authority p =
     (if authority \<noteq> msg_authority then Inl (Err ''unauthorized'')
      else energy_SetParams K p c)"

section \<open>Genesis and migration\<close>

definition energy_InitGenesis :: "'x sdk \<Rightarrow> bool \<Rightarrow> 'x ctx \<Rightarrow> energy_genesis \<Rightarrow> 'x ctx result" where
  "energy_InitGenesis K pool_registered c gs =
     (case energy_SetParams K (eg_params gs) c of
        Inl _ \<Rightarrow> Inl (Panic ''invalid params'')
      | Inr c \<Rightarrow>
          let c = fold SetEnergyAccount (eg_accounts gs) c;
              c = fold setDelegation (eg_delegations gs) c;
              c = setNextDelegationID (if eg_next_id gs = 0 then 1 else eg_next_id gs) c in
          if \<not> pool_registered then Inl (Panic ''module account is not registered in app'')
          else Inr c)"

text \<open>The ids from \<open>i\<close> up to \<open>next\<close>, excluded.\<close>

definition ids_below :: "u64 \<Rightarrow> u64 list" where
  "ids_below nxt = map word_of_nat [1 ..< unat nxt]"

definition energy_ExportGenesis :: "'x ctx \<Rightarrow> energy_genesis" where
  "energy_ExportGenesis c =
     (let nxt = (case e_next_id (st_energy c) of None \<Rightarrow> 1 | Some i \<Rightarrow> i) in
      \<lparr> eg_params = energy_GetParams c,
        eg_accounts = map snd (e_accounts (st_energy c)),
        eg_delegations = List.map_filter (GetDelegation c) (ids_below nxt),
        eg_next_id = nxt \<rparr>)"

definition refresh_snapshot :: "'x sdk \<Rightarrow> addr \<Rightarrow> 'x ctx \<Rightarrow> 'x ctx" where
  "refresh_snapshot K a c =
     (let acct = (GetEnergyAccount K c a)\<lparr>LastBalanceSnapshot := EligibleBalance K c a,
                                          LastUpdatedTime := block_time c\<rparr>;
          params = energy_GetParams c;
          newTxCap = TxEnergyCapacity (LastBalanceSnapshot acct) params;
          acct = (if TxEnergyAccrued acct > newTxCap then acct\<lparr>TxEnergyAccrued := newTxCap\<rparr> else acct);
          acct = (if DeployEnergyAccrued acct > DeployEnergyCapacity params
                  then acct\<lparr>DeployEnergyAccrued := DeployEnergyCapacity params\<rparr> else acct) in
      SetEnergyAccount acct c)"

definition RefreshAllSnapshots :: "'x sdk \<Rightarrow> 'x ctx \<Rightarrow> nat \<times> 'x ctx" where
  "RefreshAllSnapshots K c =
     (let addrs = List.map_filter (\<lambda>(_, a). acc_from_bech32 (codec K) (Address a)) (e_accounts (st_energy c)) in
      (length addrs, fold (refresh_snapshot K) addrs c))"

section \<open>Queries\<close>

definition energy_query_Account :: "'x sdk \<Rightarrow> 'x ctx \<Rightarrow> string \<Rightarrow> (energy_account \<times> u64 \<times> u64) result" where
  "energy_query_Account K c address =
     (if address = [] then Inl ErrInvalidRequest
      else case acc_from_bech32 (codec K) address of
             None \<Rightarrow> Inl ErrInvalidAddress
           | Some a \<Rightarrow>
               let settled = SimulateSettle K c a; params = energy_GetParams c in
               Inr (settled, TxEnergyCapacity (LastBalanceSnapshot settled) params, DeployEnergyCapacity params))"

definition energy_query_Delegations ::
  "'x sdk \<Rightarrow> 'x ctx \<Rightarrow> string \<Rightarrow> string \<Rightarrow> (energy_delegation list \<times> energy_delegation list) result" where
  "energy_query_Delegations K c address direction =
     (if address = [] then Inl ErrInvalidRequest
      else case acc_from_bech32 (codec K) address of
             None \<Rightarrow> Inl ErrInvalidAddress
           | Some a \<Rightarrow>
               Inr (if direction = [] \<or> direction = ''all'' \<or> direction = ''out''
                    then IterateDelegationsByDelegator c (acc_string (codec K) a) else [],
                    if direction = [] \<or> direction = ''all'' \<or> direction = ''in''
                    then IterateDelegationsByDelegatee c (acc_string (codec K) a) else []))"

text \<open>The fee market's minimum gas price is an argument; \<^verbatim>\<open>Ceil\<close> keeps a decimal.\<close>

definition query_EstimateFee ::
  "'x sdk \<Rightarrow> dec \<Rightarrow> 'x ctx \<Rightarrow> string \<Rightarrow> u64 \<Rightarrow> bool \<Rightarrow> (u64 \<times> u64 \<times> dec \<times> bool) result" where
  "query_EstimateFee K minGasPrice c signer0 gasLimit isDeploy =
     (if signer0 = [] then Inl ErrInvalidRequest
      else case acc_from_bech32 (codec K) signer0 of
             None \<Rightarrow> Inl ErrInvalidAddress
           | Some signer \<Rightarrow>
               let r = EstimateConsume K c signer gasLimit isDeploy [];
                   params = energy_GetParams c;
                   gasPrice = (if \<not> minGasPrice > 0 \<and> InsufficientGasPrice params > 0
                               then InsufficientGasPrice params else minGasPrice);
                   fee = (if ShortfallGas r > 0 \<and> gasPrice > 0
                          then dec_new (dec_ceil (dec_mul_int gasPrice (i64_of_u64 (ShortfallGas r)))) else 0) in
               Inr (EnergyDeducted r + DeployEnergyUsed r, ShortfallGas r, fee, Free r))"

end
