(* ===== verification/Atox.thy ===== *)
theory Atox
  imports EnergyModule
begin

text \<open>
  The ATOX keeper (\<^verbatim>\<open>x/atox/keeper\<close>): the conversion index and the per-account settlement records, the
  burn that settlement performs, payout, the releases into the exchange pool, issuance against the
  supply cap, the bank send restriction, the sweep at the end of the block, the message server,
  genesis and the queries.

  Settlement and payout return their result together with the context, because the sweep logs an
  error and keeps the writes made before it.  A call into the bank that fails leaves the state it was
  called in.  Events and logs are not modelled.
\<close>

section \<open>Store (keeper.go)\<close>

definition upd_atox :: "(atox_store \<Rightarrow> atox_store) \<Rightarrow> 'x ctx \<Rightarrow> 'x ctx" where
  "upd_atox f c = c\<lparr>st_atox := f (st_atox c)\<rparr>"

definition atox_GetParams :: "'x ctx \<Rightarrow> atox_params" where
  "atox_GetParams c = (case x_params (st_atox c) of None \<Rightarrow> atox_DefaultParams | Some p \<Rightarrow> p)"

definition atox_SetParams :: "atox_params \<Rightarrow> 'x ctx \<Rightarrow> 'x ctx result" where
  "atox_SetParams p c =
     bindR (atox_Params_Validate p) (\<lambda>_. Inr (upd_atox (\<lambda>s. s\<lparr>x_params := Some p\<rparr>) c))"

definition GetGlobalState :: "'x ctx \<Rightarrow> global_state" where
  "GetGlobalState c = (case x_global (st_atox c) of None \<Rightarrow> DefaultGlobalState | Some s \<Rightarrow> s)"

definition SetGlobalState :: "global_state \<Rightarrow> 'x ctx \<Rightarrow> 'x ctx" where
  "SetGlobalState gs c = upd_atox (\<lambda>s. s\<lparr>x_global := Some gs\<rparr>) c"

definition getAtoxAccount :: "'x sdk \<Rightarrow> 'x ctx \<Rightarrow> addr \<Rightarrow> atox_account \<times> bool" where
  "getAtoxAccount K c a =
     (case kv_get (x_accounts (st_atox c)) (acc_string (codec K) a) of
        None \<Rightarrow> (NewAtoxAccount (acc_string (codec K) a) 0, False)
      | Some acct \<Rightarrow> (acct, True))"

definition GetAtoxAccount :: "'x sdk \<Rightarrow> 'x ctx \<Rightarrow> addr \<Rightarrow> atox_account" where
  "GetAtoxAccount K c a = fst (getAtoxAccount K c a)"

definition SetAtoxAccount :: "atox_account \<Rightarrow> 'x ctx \<Rightarrow> 'x ctx" where
  "SetAtoxAccount a c = upd_atox (\<lambda>s. s\<lparr>x_accounts := kv_set (ax_Address a) a (x_accounts s)\<rparr>) c"

text \<open>An absent cursor and an empty one are the same value, as for the code that reads its length.\<close>

definition GetScanCursor :: "'x ctx \<Rightarrow> string" where
  "GetScanCursor c = x_cursor (st_atox c)"

definition SetScanCursor :: "string \<Rightarrow> 'x ctx \<Rightarrow> 'x ctx" where
  "SetScanCursor cursor c = upd_atox (\<lambda>s. s\<lparr>x_cursor := cursor\<rparr>) c"

definition GetSweptIndex :: "'x ctx \<Rightarrow> dec" where
  "GetSweptIndex c = (case x_swept (st_atox c) of None \<Rightarrow> 0 | Some d \<Rightarrow> d)"

definition SetSweptIndex :: "dec \<Rightarrow> 'x ctx \<Rightarrow> 'x ctx" where
  "SetSweptIndex d c = upd_atox (\<lambda>s. s\<lparr>x_swept := Some d\<rparr>) c"

definition ExchangePoolName :: string where
  "ExchangePoolName = ''atox_exchange_pool''"

definition AtoxModuleName :: string where
  "AtoxModuleName = ''atox''"

definition AtoxBalance :: "'x sdk \<Rightarrow> 'x ctx \<Rightarrow> addr \<Rightarrow> int" where
  "AtoxBalance K c a = balance K c a AtoxBaseDenom"

definition AtoxSupply :: "'x sdk \<Rightarrow> 'x ctx \<Rightarrow> int" where
  "AtoxSupply K c = bank_supply K (ext c) AtoxBaseDenom"

definition ExchangePoolAddress :: "'x sdk \<Rightarrow> addr" where
  "ExchangePoolAddress K = module_address K ExchangePoolName"

definition ExchangePoolBalance :: "'x sdk \<Rightarrow> 'x ctx \<Rightarrow> int" where
  "ExchangePoolBalance K c = balance K c (ExchangePoolAddress K) (base_denom K)"

definition isModuleAccount :: "'x sdk \<Rightarrow> 'x ctx \<Rightarrow> addr \<Rightarrow> bool" where
  "isModuleAccount K c a = is_module_account K (ext c) a"

section \<open>Settlement and payout (settle.go)\<close>

text \<open>
  The pull into the module account runs in a context that carries the guard, the burn in the original
  one.
\<close>

definition burnAtoxFor :: "'x sdk \<Rightarrow> 'x hook \<Rightarrow> 'x ctx \<Rightarrow> addr \<Rightarrow> int \<Rightarrow> unit result \<times> 'x ctx" where
  "burnAtoxFor K H c a amount =
     (case new_coins AtoxBaseDenom amount of
        Inl e \<Rightarrow> (Inl e, c)
      | Inr coins \<Rightarrow>
        (case send_to_module K H (c\<lparr>fee_in_progress := True\<rparr>) a AtoxModuleName coins of
           Inl e \<Rightarrow> (Inl e, c)
         | Inr c1 \<Rightarrow>
           let c1 = c1\<lparr>fee_in_progress := fee_in_progress c\<rparr> in
           (case burn_coins K c1 AtoxModuleName coins of
              Inl e \<Rightarrow> (Inl e, c1)
            | Inr c2 \<Rightarrow> (Inr (), c2))))"

definition SettleAccountWithBalance ::
  "'x sdk \<Rightarrow> 'x hook \<Rightarrow> 'x ctx \<Rightarrow> addr \<Rightarrow> int \<Rightarrow> int result \<times> 'x ctx" where
  "SettleAccountWithBalance K H c a atoxBalance =
     (if isModuleAccount K c a then (Inr 0, c)
      else
        let gs = GetGlobalState c;
            (acct, found) = getAtoxAccount K c a in
        if Index acct > GlobalIndex gs
        then (Inr 0, SetAtoxAccount (acct\<lparr>Index := GlobalIndex gs\<rparr>) c)
        else
          let (owed, burn) = ComputeOwed (dmath K) atoxBalance (Index acct) (GlobalIndex gs) in
          if \<not> owed > 0
          then (if \<not> found \<or> Index acct \<noteq> GlobalIndex gs
                then (Inr 0, SetAtoxAccount (acct\<lparr>Index := GlobalIndex gs\<rparr>) c)
                else (Inr 0, c))
          else
            (case (if burn > 0 then burnAtoxFor K H c a burn else (Inr (), c)) of
               (Inl e, c) \<Rightarrow> (Inl e, c)
             | (Inr _, c) \<Rightarrow>
                 let c = SetAtoxAccount (acct\<lparr>Pending := Pending acct + owed, Index := GlobalIndex gs\<rparr>) c;
                     c = SetGlobalState (gs\<lparr>TotalBurned := TotalBurned gs + burn,
                                            TotalPending := TotalPending gs + owed\<rparr>) c in
                 (Inr owed, c)))"

definition SettleAccount :: "'x sdk \<Rightarrow> 'x hook \<Rightarrow> 'x ctx \<Rightarrow> addr \<Rightarrow> int result \<times> 'x ctx" where
  "SettleAccount K H c a = SettleAccountWithBalance K H c a (AtoxBalance K c a)"

definition Claimable :: "'x sdk \<Rightarrow> 'x ctx \<Rightarrow> addr \<Rightarrow> int \<times> int" where
  "Claimable K c a =
     (let acct = GetAtoxAccount K c a; pending = Pending acct in
      if isModuleAccount K c a then (pending, 0)
      else let gs = GetGlobalState c in
        if Index acct \<ge> GlobalIndex gs then (pending, 0)
        else (pending, fst (ComputeOwed (dmath K) (AtoxBalance K c a) (Index acct) (GlobalIndex gs))))"

definition AddToExchangePool :: "'x sdk \<Rightarrow> 'x hook \<Rightarrow> 'x ctx \<Rightarrow> string \<Rightarrow> int \<Rightarrow> 'x ctx result" where
  "AddToExchangePool K H c fromModule amount =
     (let params = atox_GetParams c in
      if \<not> Enabled params then Inl ErrAtoxDisabled
      else if \<not> amount > 0 then Inl ErrInvalidAmount
      else
        let gs = GetGlobalState c in
        bindR (ComputeIndexDelta amount (IndexRemainder gs) (SupplyCap params)) (\<lambda>(delta, remainder).
        bindR (new_coins (base_denom K) amount) (\<lambda>coins.
        bindR (send_between_modules K H c fromModule ExchangePoolName coins) (\<lambda>c.
          Inr (SetGlobalState (gs\<lparr>GlobalIndex := GlobalIndex gs + delta, IndexRemainder := remainder,
                                  TotalReleasedToPool := TotalReleasedToPool gs + amount\<rparr>) c)))))"

definition MintedAgainstCap :: "'x sdk \<Rightarrow> 'x ctx \<Rightarrow> int" where
  "MintedAgainstCap K c = AtoxSupply K c + TotalBurned (GetGlobalState c)"

definition AtoxSupplyCap :: "'x ctx \<Rightarrow> int" where
  "AtoxSupplyCap c = SupplyCap (atox_GetParams c)"

definition AtoxEnabled :: "'x ctx \<Rightarrow> bool" where
  "AtoxEnabled c = Enabled (atox_GetParams c)"

definition MintAtox :: "'x sdk \<Rightarrow> 'x hook \<Rightarrow> 'x ctx \<Rightarrow> addr \<Rightarrow> int \<Rightarrow> 'x ctx result" where
  "MintAtox K H c recipient amount =
     (let params = atox_GetParams c in
      if \<not> Enabled params then Inl ErrAtoxDisabled
      else if \<not> amount > 0 then Inl ErrInvalidAmount
      else if MintedAgainstCap K c + amount > SupplyCap params then Inl ErrSupplyCapReached
      else
        (case SettleAccountWithBalance K H c recipient (AtoxBalance K c recipient) of
           (Inl e, _) \<Rightarrow> Inl e
         | (Inr _, c) \<Rightarrow>
             bindR (new_coins AtoxBaseDenom amount) (\<lambda>coins.
             bindR (mint_coins K c AtoxModuleName coins) (\<lambda>c.
             send_from_module K H c AtoxModuleName recipient coins))))"

definition MintAtoxToModule :: "'x sdk \<Rightarrow> 'x hook \<Rightarrow> 'x ctx \<Rightarrow> string \<Rightarrow> int \<Rightarrow> 'x ctx result" where
  "MintAtoxToModule K H c module amount =
     (if \<not> Enabled (atox_GetParams c) then Inl ErrAtoxDisabled
      else if \<not> amount > 0 then Inl ErrInvalidAmount
      else if MintedAgainstCap K c + amount > SupplyCap (atox_GetParams c) then Inl ErrSupplyCapReached
      else
        bindR (new_coins AtoxBaseDenom amount) (\<lambda>coins.
        bindR (mint_coins K c AtoxModuleName coins) (\<lambda>c.
        send_between_modules K H c AtoxModuleName module coins)))"

definition PayoutPending :: "'x sdk \<Rightarrow> 'x hook \<Rightarrow> 'x ctx \<Rightarrow> addr \<Rightarrow> int \<Rightarrow> int result \<times> 'x ctx" where
  "PayoutPending K H c a minPayout =
     (case SettleAccount K H c a of
        (Inl e, c) \<Rightarrow> (Inl e, c)
      | (Inr _, c) \<Rightarrow>
        let acct = GetAtoxAccount K c a; amount = Pending acct in
        if \<not> amount > 0 then (Inr 0, c)
        else if minPayout > 0 \<and> amount < minPayout then (Inr 0, c)
        else if ExchangePoolBalance K c < amount then (Inl ErrPoolInsolvent, c)
        else
          (case bindR (new_coins (base_denom K) amount) (\<lambda>coins. send_from_module K H c ExchangePoolName a coins) of
             Inl e \<Rightarrow> (Inl e, c)
           | Inr c \<Rightarrow>
             let c = SetAtoxAccount (acct\<lparr>Pending := 0, TotalClaimed := TotalClaimed acct + amount\<rparr>) c;
                 gs = GetGlobalState c in
             if TotalPending gs < amount then (Inl (Err ''total_pending is below the payout''), c)
             else (Inr amount,
                   SetGlobalState (gs\<lparr>TotalPending := TotalPending gs - amount,
                                      TotalPaidOut := TotalPaidOut gs + amount\<rparr>) c)))"

section \<open>Send restriction (send\_restriction.go)\<close>

definition rejectIBCEscrow :: "'x sdk \<Rightarrow> 'x ctx \<Rightarrow> addr \<Rightarrow> unit result" where
  "rejectIBCEscrow K c to =
     (if to \<in> set (channel_escrows K (ext c)) then Inl ErrAtoxCannotLeave else Inr ())"

text \<open>
  The restriction settles with burns, which send through the bank again; \<open>Hi\<close> is the restriction that
  runs on those nested sends.
\<close>

definition atox_SendRestriction :: "'x sdk \<Rightarrow> 'x hook \<Rightarrow> 'x hook" where
  "atox_SendRestriction K Hi c from to amt =
     (let moved = AmountOf amt AtoxBaseDenom in
      if \<not> moved > 0 then Inr (to, c)
      else
        bindR (rejectIBCEscrow K c to) (\<lambda>_.
          if from = to then Inr (to, c)
          else if fee_in_progress c then Inr (to, c)
          else
            let fromPre = AtoxBalance K c from + moved;
                toPre = AtoxBalance K c to in
            (case SettleAccountWithBalance K Hi c from fromPre of
               (Inl e, _) \<Rightarrow> Inl e
             | (Inr _, c) \<Rightarrow>
               (case SettleAccountWithBalance K Hi c to toPre of
                  (Inl e, _) \<Rightarrow> Inl e
                | (Inr _, c) \<Rightarrow> Inr (to, c)))))"

definition RecordFeeBurn :: "int \<Rightarrow> 'x ctx \<Rightarrow> 'x ctx" where
  "RecordFeeBurn fee c =
     (let gs = GetGlobalState c in SetGlobalState (gs\<lparr>TotalFeeBurned := TotalFeeBurned gs + fee\<rparr>) c)"

definition get_TransferFeeBps :: "'x ctx \<Rightarrow> u32" where
  "get_TransferFeeBps c = TransferFeeBps (atox_GetParams c)"

section \<open>The sweep at the end of the block (abci.go)\<close>

text \<open>
  The account keys from \<open>start\<close> on, in the order of the store; the batch stops at \<open>limit\<close> keys and
  says whether another key was left.
\<close>

definition account_keys_from :: "'x ctx \<Rightarrow> string \<Rightarrow> string list" where
  "account_keys_from c start =
     filter (\<lambda>k. start \<le> k) (map (\<lambda>e. atox_AccountKey (fst e)) (x_accounts (st_atox c)))"

definition collectSweepBatch :: "'x ctx \<Rightarrow> u32 \<Rightarrow> string list \<times> bool" where
  "collectSweepBatch c limit =
     (let start = (if GetScanCursor c = [] then atox_AccountKey [] else GetScanCursor c);
          keys = account_keys_from c start in
      (take (unat limit) keys, unat limit < length keys))"

fun sweep_payouts :: "'x sdk \<Rightarrow> 'x hook \<Rightarrow> int \<Rightarrow> string list \<Rightarrow> 'x ctx \<Rightarrow> 'x ctx" where
  "sweep_payouts K H minPayout [] c = c"
| "sweep_payouts K H minPayout (key # keys) c =
     (case acc_from_bech32 (codec K) (AddressFromAccountKey key) of
        None \<Rightarrow> sweep_payouts K H minPayout keys c
      | Some a \<Rightarrow> sweep_payouts K H minPayout keys (snd (PayoutPending K H c a minPayout)))"

definition atox_EndBlocker :: "'x sdk \<Rightarrow> 'x hook \<Rightarrow> 'x ctx \<Rightarrow> 'x ctx" where
  "atox_EndBlocker K H c =
     (let params = atox_GetParams c in
      if \<not> Enabled params \<or> AutoSettlePerBlock params = 0 then c
      else
        let globalIndex = GlobalIndex (GetGlobalState c) in
        if GetScanCursor c = [] \<and> GetSweptIndex c = globalIndex then c
        else
          let c = (if GetScanCursor c = [] then SetSweptIndex globalIndex c else c);
              (keys, hasMore) = collectSweepBatch c (AutoSettlePerBlock params);
              c = sweep_payouts K H (MinAutoPayout params) keys c in
          if \<not> hasMore then SetScanCursor [] c
          else SetScanCursor (last keys @ [char_of (0 :: nat)]) c)"

section \<open>Message server\<close>

definition ClaimAtos :: "'x sdk \<Rightarrow> 'x hook \<Rightarrow> 'x ctx \<Rightarrow> string \<Rightarrow> (int \<times> 'x ctx) result" where
  "ClaimAtos K H c claimer0 =
     (if \<not> Enabled (atox_GetParams c) then Inl ErrAtoxDisabled
      else case acc_from_bech32 (codec K) claimer0 of
             None \<Rightarrow> Inl ErrInvalidAddress
           | Some claimer \<Rightarrow>
             (case PayoutPending K H c claimer 0 of
                (Inl e, _) \<Rightarrow> Inl e
              | (Inr paid, c) \<Rightarrow> if \<not> paid > 0 then Inl ErrNothingToClaim else Inr (paid, c)))"

definition atox_UpdateParams :: "string \<Rightarrow> 'x ctx \<Rightarrow> string \<Rightarrow> atox_params \<Rightarrow> 'x ctx result" where
  "atox_UpdateParams authority c msg_authority p =
     (if authority \<noteq> msg_authority then Inl (Err ''unauthorized'')
      else if SupplyCap p \<noteq> SupplyCap (atox_GetParams c) then Inl (Err ''supply_cap is immutable'')
      else atox_SetParams p c)"

section \<open>Genesis\<close>

definition atox_InitGenesis :: "bool \<Rightarrow> 'x ctx \<Rightarrow> atox_genesis \<Rightarrow> 'x ctx result" where
  "atox_InitGenesis pool_registered c gs =
     (if \<not> pool_registered then Inl (Panic ''module account is not registered in app'')
      else case atox_SetParams (xg_params gs) c of
             Inl _ \<Rightarrow> Inl (Panic ''invalid params'')
           | Inr c \<Rightarrow>
             let c = SetGlobalState (xg_global gs) c;
                 c = fold SetAtoxAccount (xg_accounts gs) c;
                 c = SetScanCursor (xg_cursor gs) c in
             Inr (SetSweptIndex (xg_swept gs) c))"

definition atox_ExportGenesis :: "'x ctx \<Rightarrow> atox_genesis" where
  "atox_ExportGenesis c =
     \<lparr> xg_params = atox_GetParams c, xg_global = GetGlobalState c,
       xg_accounts = map snd (x_accounts (st_atox c)),
       xg_cursor = GetScanCursor c, xg_swept = GetSweptIndex c \<rparr>"

section \<open>Queries (grpc\_query.go)\<close>

definition claimStatus :: "'x sdk \<Rightarrow> 'x ctx \<Rightarrow> addr \<Rightarrow> int \<Rightarrow> bool \<times> string" where
  "claimStatus K c a claimable =
     (if \<not> Enabled (atox_GetParams c) then (False, ''module_disabled'')
      else if isModuleAccount K c a then (False, ''module_account'')
      else if \<not> claimable > 0 then (False, ''nothing_to_claim'')
      else if ExchangePoolBalance K c < claimable then (False, ''pool_insufficient'')
      else (True, []))"

record account_response =
  ar_Account :: atox_account
  ar_AtoxBalance :: int
  ar_Unsettled :: int
  ar_Claimable :: int
  ar_CanClaim :: bool
  ar_ClaimBlockedReason :: string
  ar_BurnOnSettle :: int
  ar_MaxSendable :: int

definition atox_query_Account :: "'x sdk \<Rightarrow> 'x ctx \<Rightarrow> string \<Rightarrow> account_response result" where
  "atox_query_Account K c address =
     (case acc_from_bech32 (codec K) address of
        None \<Rightarrow> Inl ErrInvalidAddress
      | Some a \<Rightarrow>
        let (pending, unsettled) = Claimable K c a;
            claimable = pending + unsettled;
            bal = AtoxBalance K c a;
            (canClaim, reason) = claimStatus K c a claimable;
            sendable = bal - unsettled;
            sendable = (if sendable < 0 then 0 else sendable) in
        Inr \<lparr> ar_Account = GetAtoxAccount K c a, ar_AtoxBalance = bal, ar_Unsettled = unsettled,
              ar_Claimable = claimable, ar_CanClaim = canClaim, ar_ClaimBlockedReason = reason,
              ar_BurnOnSettle = unsettled, ar_MaxSendable = sendable \<rparr>)"

definition atox_query_GlobalState :: "'x sdk \<Rightarrow> 'x ctx \<Rightarrow> global_state \<times> int" where
  "atox_query_GlobalState K c = (GetGlobalState c, AtoxSupply K c)"

definition atox_query_ExchangePool :: "'x sdk \<Rightarrow> 'x ctx \<Rightarrow> string \<times> int \<times> int" where
  "atox_query_ExchangePool K c =
     (acc_string (codec K) (ExchangePoolAddress K), ExchangePoolBalance K c, TotalPending (GetGlobalState c))"

end
