(* ===== verification/AtoxWrapper.thy ===== *)
theory AtoxWrapper
  imports Atox
begin

text \<open>
  What the application puts around the ATOX keeper: the bank message server that takes the transfer
  fee out of the transferred amount (\<^verbatim>\<open>x/atox/wrapper\<close>) and the send restriction that \<^verbatim>\<open>app/app.go\<close>
  registers, the energy restriction followed by the ATOX one.
\<close>

section \<open>The registered send restriction (app.go)\<close>

text \<open>
  The ATOX restriction reaches the bank again when it burns, and the bank runs the registered
  restriction on that send.  The nested run carries the guard \<open>fee_in_progress\<close> and never settles, so
  two levels are the fixed point of the recursion (\<open>app_hook_unfold\<close> below).
\<close>

definition app_hook_with :: "'x sdk \<Rightarrow> 'x hook \<Rightarrow> 'x hook" where
  "app_hook_with K Hi c from to amt =
     bindR (energy_SendRestriction K c from to amt) (\<lambda>(to, c). atox_SendRestriction K Hi c from to amt)"

definition no_hook :: "'x hook" where
  "no_hook c from to amt = Inl (Panic ''settlement inside a guarded send'')"

definition app_hook :: "'x sdk \<Rightarrow> 'x hook" where
  "app_hook K = app_hook_with K (app_hook_with K no_hook)"

section \<open>The inclusive transfer fee (wrapper/bank.go)\<close>

text \<open>\<^verbatim>\<open>Coins.Sub\<close> of one coin: a difference of zero is dropped.\<close>

definition coins_sub :: "coins \<Rightarrow> string \<Rightarrow> int \<Rightarrow> coins" where
  "coins_sub cs d n = filter (\<lambda>(_, a). a \<noteq> 0) (map (\<lambda>(d', a). (d', if d' = d then a - n else a)) cs)"

definition ChargeInclusiveFee :: "'x sdk \<Rightarrow> 'x hook \<Rightarrow> 'x ctx \<Rightarrow> addr \<Rightarrow> addr \<Rightarrow> coins \<Rightarrow> 'x ctx result" where
  "ChargeInclusiveFee K H c from to amt =
     (let moved = AmountOf amt AtoxBaseDenom in
      if \<not> moved > 0 then send_coins K H c from to amt
      else if isModuleAccount K c from \<or> isModuleAccount K c to then send_coins K H c from to amt
      else if from = to then send_coins K H c from to amt
      else
        let fee = ComputeTransferFee moved (get_TransferFeeBps c) in
        if \<not> fee > 0 then send_coins K H c from to amt
        else if fee \<ge> moved then Inl ErrInvalidAmount
        else
          bindR (new_coins AtoxBaseDenom fee) (\<lambda>feeCoins.
            let net = coins_sub amt AtoxBaseDenom fee in
            bindR (send_to_module K H c from AtoxModuleName feeCoins) (\<lambda>c.
            bindR (burn_coins K c AtoxModuleName feeCoins) (\<lambda>c.
            send_coins K H (RecordFeeBurn fee c) from to net))))"

section \<open>The bank message server (wrapper/msg\_server.go)\<close>

record msg_send =
  ms_FromAddress :: string
  ms_ToAddress :: string
  ms_Amount :: coins

definition MsgServer_Send :: "'x sdk \<Rightarrow> 'x hook \<Rightarrow> 'x ctx \<Rightarrow> msg_send \<Rightarrow> 'x ctx result" where
  "MsgServer_Send K H c msg =
     (case acc_from_bech32 (codec K) (ms_FromAddress msg) of
        None \<Rightarrow> Inl ErrInvalidAddress
      | Some from \<Rightarrow>
        (case acc_from_bech32 (codec K) (ms_ToAddress msg) of
           None \<Rightarrow> Inl ErrInvalidAddress
         | Some to \<Rightarrow>
           if \<not> valid_coins K (ms_Amount msg) then Inl ErrInvalidCoins
           else if \<not> (ms_Amount msg \<noteq> [] \<and> list_all (\<lambda>(_, n). n > 0) (ms_Amount msg)) then Inl ErrInvalidCoins
           else if \<not> send_enabled K (ext c) (ms_Amount msg) then Inl (Err ''send disabled'')
           else if blocked_addr K to then Inl ErrUnauthorized
           else ChargeInclusiveFee K H c from to (ms_Amount msg)))"

fun multi_send_loop :: "'x sdk \<Rightarrow> 'x hook \<Rightarrow> addr \<Rightarrow> (string \<times> coins) list \<Rightarrow> 'x ctx \<Rightarrow> 'x ctx result" where
  "multi_send_loop K H from [] c = Inr c"
| "multi_send_loop K H from ((address, coins) # outs) c =
     (case acc_from_bech32 (codec K) address of
        None \<Rightarrow> Inl ErrInvalidAddress
      | Some to \<Rightarrow>
        if blocked_addr K to then Inl ErrUnauthorized
        else bindR (ChargeInclusiveFee K H c from to coins) (\<lambda>c. multi_send_loop K H from outs c))"

definition MsgServer_MultiSend ::
  "'x sdk \<Rightarrow> 'x hook \<Rightarrow> 'x ctx \<Rightarrow> (string \<times> coins) list \<Rightarrow> (string \<times> coins) list \<Rightarrow> 'x ctx result" where
  "MsgServer_MultiSend K H c inputs outputs =
     (case inputs of
        [] \<Rightarrow> Inl ErrInvalidRequest
      | (address, coins) # rest \<Rightarrow>
        if rest \<noteq> [] then Inl ErrInvalidRequest
        else if outputs = [] then Inl ErrInvalidRequest
        else (case acc_from_bech32 (codec K) address of
                None \<Rightarrow> Inl ErrInvalidAddress
              | Some from \<Rightarrow>
                if \<not> send_enabled K (ext c) coins then Inl (Err ''send disabled'')
                else multi_send_loop K H from outputs c))"

end
