(* ===== verification/EnergyAnte.thy ===== *)
theory EnergyAnte
  imports EnergyModule
begin

text \<open>
  The transaction pipeline of the energy module: the fee decorator of \<^verbatim>\<open>x/energy/ante/decorator.go\<close> and
  the refund decorator of \<^verbatim>\<open>x/energy/ante/post.go\<close>.  What the decorators call outside the module (the
  digest of the transaction bytes, the existence of an account, the fee checker, fee grants) are the
  fields of the parameter \<open>ante_env\<close>; handing over to the next decorator is returning.
\<close>

record fee_tx =
  tx_gas :: u64
  tx_msg_urls :: "string list"
  tx_fee_payer :: addr
  tx_fee_granter :: addr
  tx_fee :: coins

record 'x ante_env =
  sha256 :: "string \<Rightarrow> string"
  has_account :: "'x \<Rightarrow> addr \<Rightarrow> bool"
  fee_checker :: "'x ctx \<Rightarrow> fee_tx \<Rightarrow> unit result"
  use_granted_fees :: "'x ctx \<Rightarrow> addr \<Rightarrow> addr \<Rightarrow> coins \<Rightarrow> 'x ctx result"

text \<open>What the decorator stashes in the context for the refund: the reservation, its payer and the priority.\<close>

record ante_out =
  a_reserved :: consume_result
  a_signer :: addr
  a_priority :: int

definition txHashFromCtx :: "'x ante_env \<Rightarrow> 'x ctx \<Rightarrow> string" where
  "txHashFromCtx E c = (if tx_bytes c = [] then [] else sha256 E (tx_bytes c))"

definition computeShortfallFee :: "'x sdk \<Rightarrow> 'x ctx \<Rightarrow> u64 \<Rightarrow> coins \<Rightarrow> u64 \<Rightarrow> coins result" where
  "computeShortfallFee K c shortfallGas fee gasLimit =
     (if shortfallGas = 0 \<or> gasLimit = 0 then Inr []
      else
        let denom = base_denom K;
            offered = AmountOf fee denom;
            params = energy_GetParams c;
            gasLimitDec = dec_new (i64_of_u64 gasLimit);
            offeredPerGas = (if offered > 0 then dec_quo (dmath K) (dec_new offered) gasLimitDec else 0);
            offeredPerGas = (if InsufficientGasPrice params > 0 \<and> offeredPerGas < InsufficientGasPrice params
                             then InsufficientGasPrice params else offeredPerGas) in
        if \<not> offeredPerGas > 0 then Inr []
        else let amt = dec_ceil (dec_mul_int offeredPerGas (i64_of_u64 shortfallGas)) in
          if \<not> amt > 0 then Inr []
          else new_coins denom amt)"

definition maxInt64Priority :: int where
  "maxInt64Priority = 2 ^ 63 - 1"

fun getTxPriority_loop :: "coins \<Rightarrow> int \<Rightarrow> string \<Rightarrow> int \<Rightarrow> int" where
  "getTxPriority_loop [] gas baseDenom priority = priority"
| "getTxPriority_loop ((d, a) # cs) gas baseDenom priority =
     (if d \<noteq> baseDenom then getTxPriority_loop cs gas baseDenom priority
      else let gasPrice = quoT a gas;
               p = (if in_int64 gasPrice then gasPrice else maxInt64Priority) in
           getTxPriority_loop cs gas baseDenom (if priority = 0 \<or> p < priority then p else priority))"

definition getTxPriority :: "coins \<Rightarrow> int \<Rightarrow> string \<Rightarrow> int" where
  "getTxPriority fee gas baseDenom = getTxPriority_loop fee gas baseDenom 0"

fun isContractDeployMsg :: "string list \<Rightarrow> bool" where
  "isContractDeployMsg [] = False"
| "isContractDeployMsg (u # us) =
     (if u = ''/cosmwasm.wasm.v1.MsgInstantiateContract'' \<or>
         u = ''/cosmwasm.wasm.v1.MsgInstantiateContract2'' \<or>
         u = ''/cosmwasm.wasm.v1.MsgStoreCode''
      then True else isContractDeployMsg us)"

definition FeeCollectorName :: string where
  "FeeCollectorName = ''fee_collector''"

definition energy_AnteHandle ::
  "'x sdk \<Rightarrow> 'x hook \<Rightarrow> 'x ante_env \<Rightarrow> 'x ctx \<Rightarrow> fee_tx \<Rightarrow> bool \<Rightarrow> (ante_out \<times> 'x ctx) result" where
  "energy_AnteHandle K H E c tx simulate =
     (if \<not> simulate \<and> block_height c > 0 \<and> tx_gas tx = 0 then Inl ErrInvalidGasLimit
      else
        let gasLimit = tx_gas tx;
            feePayer = tx_fee_payer tx;
            feeGranter = tx_fee_granter tx;
            deductFrom = (if feeGranter \<noteq> [] then feeGranter else feePayer) in
        if deductFrom = [] then Inl ErrInvalidAddress
        else if \<not> has_account E (ext c) deductFrom then Inl ErrUnknownAddress
        else
          let isDeploy = isContractDeployMsg (tx_msg_urls tx);
              probeGas = (if simulate \<and> gasLimit = 0 then 1 else gasLimit) in
          bindR (Consume K c deductFrom probeGas isDeploy (tx_msg_urls tx)) (\<lambda>(consumed, c).
            let out = \<lparr> a_reserved = consumed, a_signer = deductFrom, a_priority = 0 \<rparr>;
                c = (if \<not> Free consumed \<and> \<not> simulate
                     then SetPendingReservation K c (txHashFromCtx E c) deductFrom gasLimit consumed else c) in
            if Free consumed then Inr (out, c)
            else if ShortfallGas consumed = 0
            then bindR (if simulate then Inr () else fee_checker E c tx) (\<lambda>_. Inr (out, c))
            else
              bindR (if simulate then Inr () else fee_checker E c tx) (\<lambda>_.
              bindR (computeShortfallFee K c (ShortfallGas consumed) (tx_fee tx) gasLimit) (\<lambda>chargeAtos.
                if chargeAtos = [] then Inr (out, c)
                else
                  bindR (if feeGranter \<noteq> [] \<and> feeGranter \<noteq> feePayer
                         then use_granted_fees E c feeGranter feePayer chargeAtos else Inr c) (\<lambda>c.
                  (case send_to_module K H c deductFrom FeeCollectorName chargeAtos of
                     Inl _ \<Rightarrow> Inl ErrInsufficientFee
                   | Inr c \<Rightarrow>
                       Inr (out\<lparr>a_priority := getTxPriority chargeAtos (i64_of_u64 (ShortfallGas consumed)) (base_denom K)\<rparr>,
                            c)))))))"

text \<open>
  The refund after a transaction that ran.  The reservation is \<open>None\<close> when the context carries none;
  the marker is deleted on every path.
\<close>

definition energy_PostHandle ::
  "'x sdk \<Rightarrow> 'x ante_env \<Rightarrow> 'x ctx \<Rightarrow> ante_out option \<Rightarrow> u64 \<Rightarrow> u64 \<Rightarrow> 'x ctx" where
  "energy_PostHandle K E c stash gasUsed gasLimit =
     (let c' =
        (case stash of
           None \<Rightarrow> c
         | Some out \<Rightarrow>
             let reserved = a_reserved out in
             if Free reserved then c
             else if gasUsed \<ge> gasLimit then c
             else let totalEnergyReserved = EnergyDeducted reserved in
               if totalEnergyReserved = 0 then c
               else let energyUsed = (if gasUsed \<ge> totalEnergyReserved then totalEnergyReserved else gasUsed);
                        refund = totalEnergyReserved - energyUsed in
                    if refund = 0 then c
                    else RefundEnergy K c (a_signer out) refund reserved) in
      DeletePendingReservation c' (txHashFromCtx E c))"

end
