(* ===== verification/EnergySettle.thy ===== *)
theory EnergySettle
  imports EnergyAnte
begin

text \<open>
  Capacity and lazy settlement of the energy module: the capacity as exact arithmetic, what a refill
  leaves alone and how far it goes, and that splitting a waiting time gains nothing.
\<close>

section \<open>Capacity\<close>

lemma TxEnergyCapacity_unat:
  assumes thr: "0 < TxEnergyHoldingThreshold p" and per: "TxEnergyPerThreshold p \<noteq> 0"
  shows "uint (TxEnergyCapacity b p) =
     min (max 0 (b div TxEnergyHoldingThreshold p) * uint (TxEnergyPerThreshold p)) (2 ^ 64 - 1)"
proof (cases "0 < b")
  case True
  let ?u = "b div TxEnergyHoldingThreshold p"
  have u: "0 \<le> ?u" using True thr by (simp add: pos_imp_zdiv_nonneg_iff)
  show ?thesis
  proof (cases "is_u64 ?u")
    case isu: True
    have "unat (word_of_int ?u :: u64) = nat ?u"
      using isu by (simp add: is_u64_def unat_eq_nat_uint uint_word_of_int)
    then have "int (unat (TxEnergyCapacity b p)) = min (?u * uint (TxEnergyPerThreshold p)) (2 ^ 64 - 1)"
      using isu True thr u
      by (simp add: TxEnergyCapacity_def saturatingMulU64_eq saturatingMul_unat of_nat_min nat_mult_distrib)
    with u show ?thesis by simp
  next
    case big: False
    have "1 \<le> uint (TxEnergyPerThreshold p)" using per
      by (metis int_one_le_iff_zero_less linorder_neqE_linordered_idom uint_0_iff uint_ge_0 not_less)
    then have "2 ^ 64 * 1 \<le> ?u * uint (TxEnergyPerThreshold p)"
      using big u by (intro mult_mono) (auto simp: is_u64_def)
    moreover have "TxEnergyCapacity b p = max_u64"
      using True thr u big by (auto simp: TxEnergyCapacity_def)
    ultimately show ?thesis using u by (simp add: uint_max_u64)
  qed
next
  case False
  then have "b div TxEnergyHoldingThreshold p \<le> 0"
    using thr by (simp add: div_nonpos_pos_le0 not_less)
  with False show ?thesis by (simp add: TxEnergyCapacity_def)
qed

lemma TxEnergyCapacity_mono:
  assumes "0 < TxEnergyHoldingThreshold p" "TxEnergyPerThreshold p \<noteq> 0" "b \<le> b'"
  shows "TxEnergyCapacity b p \<le> TxEnergyCapacity b' p"
proof -
  have "max 0 (b div TxEnergyHoldingThreshold p) \<le> max 0 (b' div TxEnergyHoldingThreshold p)"
    using assms by (intro max.mono zdiv_mono1) simp_all
  then have "uint (TxEnergyCapacity b p) \<le> uint (TxEnergyCapacity b' p)"
    unfolding TxEnergyCapacity_unat [OF assms(1,2)]
    by (intro min.mono mult_right_mono) auto
  then show ?thesis by (simp add: word_le_def)
qed

section \<open>Settlement\<close>

lemma clamp_minU64: "(if b < a then b else a) = minU64 a b"
  by (cases "a = b") (auto simp: minU64_def)

lemma settle_refill_keeps [simp]:
  "Address (settle_refill p now acct) = Address acct"
  "DelegatedOut (settle_refill p now acct) = DelegatedOut acct"
  "DelegatedInUsable (settle_refill p now acct) = DelegatedInUsable acct"
  "LockedAtos (settle_refill p now acct) = LockedAtos acct"
  "LastBalanceSnapshot (settle_refill p now acct) = LastBalanceSnapshot acct"
  "StakedSnapshot (settle_refill p now acct) = StakedSnapshot acct"
  "LastUpdatedTime (settle_refill p now acct) = LastUpdatedTime acct"
  by (simp_all add: settle_refill_def Let_def)

lemma settle_refill_tx:
  "TxEnergyAccrued (settle_refill p now acct) =
     (let cap = TxEnergyCapacity (LastBalanceSnapshot acct) p in
      if cap > 0 \<and> TxEnergyAccrued acct < cap \<and> TxEnergyMaxAccrueWindow p > 0
      then minU64 (saturatingAdd (TxEnergyAccrued acct)
             (saturatingMul (u64_of_i64 (wrap64 (now - LastUpdatedTime acct))) cap
                div u64_of_i64 (TxEnergyMaxAccrueWindow p))) cap
      else TxEnergyAccrued acct)"
  by (auto simp: settle_refill_def Let_def clamp_minU64)

lemma settle_refill_deploy:
  "DeployEnergyAccrued (settle_refill p now acct) =
     (let add = deployAddOverElapsed (LastBalanceSnapshot acct)
                  (u64_of_i64 (wrap64 (now - LastUpdatedTime acct))) p in
      if DeployEnergyAccrued acct < DeployEnergyCapacity p \<and> add > 0
      then minU64 (saturatingAdd (DeployEnergyAccrued acct) add) (DeployEnergyCapacity p)
      else DeployEnergyAccrued acct)"
  by (auto simp: settle_refill_def Let_def clamp_minU64)

lemma settle_refill_bounds:
  "TxEnergyAccrued acct \<le> TxEnergyAccrued (settle_refill p now acct)"
  "TxEnergyAccrued (settle_refill p now acct) \<le>
     max (TxEnergyAccrued acct) (TxEnergyCapacity (LastBalanceSnapshot acct) p)"
  "DeployEnergyAccrued acct \<le> DeployEnergyAccrued (settle_refill p now acct)"
  "DeployEnergyAccrued (settle_refill p now acct) \<le> max (DeployEnergyAccrued acct) (DeployEnergyCapacity p)"
  using saturatingAdd_ge
  by (auto simp: settle_refill_tx settle_refill_deploy Let_def minU64_eq less_imp_le max_def)

text \<open>The refill as arithmetic on naturals, when the elapsed time does not wrap.\<close>

definition accrual :: "nat \<Rightarrow> nat \<Rightarrow> nat \<Rightarrow> nat" where
  "accrual window cap elapsed = min (elapsed * cap) (2 ^ 64 - 1) div window"

lemma settle_refill_tx_unat:
  assumes "LastUpdatedTime acct \<le> now" "in_int64 (now - LastUpdatedTime acct)"
    and "0 < TxEnergyMaxAccrueWindow p" "TxEnergyMaxAccrueWindow p < 2 ^ 63"
  defines "cap \<equiv> unat (TxEnergyCapacity (LastBalanceSnapshot acct) p)"
  shows "unat (TxEnergyAccrued (settle_refill p now acct)) =
     (if unat (TxEnergyAccrued acct) < cap
      then min cap (unat (TxEnergyAccrued acct) +
                    accrual (nat (TxEnergyMaxAccrueWindow p)) cap (nat (now - LastUpdatedTime acct)))
      else unat (TxEnergyAccrued acct))"
proof -
  let ?e = "u64_of_i64 (wrap64 (now - LastUpdatedTime acct))" and ?w = "u64_of_i64 (TxEnergyMaxAccrueWindow p)"
  have e: "unat ?e = nat (now - LastUpdatedTime acct)"
    using assms(1,2) by (simp add: unat_eq_nat_uint uint_u64_of_i64 in_int64_def)
  have w: "unat ?w = nat (TxEnergyMaxAccrueWindow p)"
    using assms(3,4) by (simp add: unat_eq_nat_uint uint_u64_of_i64)
  have "min (min x (2 ^ 64 - 1)) cap = min cap x" for x
    using unat_le_max [of "TxEnergyCapacity (LastBalanceSnapshot acct) p"] by (simp add: cap_def min_def)
  then show ?thesis
    using assms(3) e w
    by (auto simp: settle_refill_tx Let_def word_less_nat_alt saturatingAdd_unat saturatingMul_unat
        unat_div_distrib accrual_def cap_def)
qed

lemma accrual_split:
  assumes "0 < window"
  shows "accrual window cap e1 + accrual window cap e2 \<le> accrual window cap (e1 + e2) \<or>
         2 ^ 64 - 1 < (e1 + e2) * cap"
proof (cases "2 ^ 64 - 1 < (e1 + e2) * cap")
  case False
  then have "e1 * cap \<le> 2 ^ 64 - 1" "e2 * cap \<le> 2 ^ 64 - 1" by (simp_all add: distrib_right)
  moreover have "e1 * cap div window + e2 * cap div window \<le> (e1 * cap + e2 * cap) div window"
    by (metis div_add1_eq le_add1)
  ultimately show ?thesis using False by (simp add: accrual_def distrib_right min_absorb1)
qed simp

end
