(* ===== verification/EnergyBooks.thy ===== *)
theory EnergyBooks
  imports EnergySettle
begin

text \<open>
  The books of the energy module: the per-account counters, the delegation records with their three
  indexes, and the sums over the records that the counters have to agree with.  The locale
  \<open>refresh_op\<close> collects the operations that only refresh an account, and \<open>usage_change\<close> the ones that
  only move the used amount of records.
\<close>

section \<open>Books\<close>

text \<open>
  The books of the module: the counters of every account that delegations maintain, and the
  delegation records with their indexes.  Settlement and snapshots leave them alone.
\<close>

definition counters :: "energy_store \<Rightarrow> string \<Rightarrow> u64 \<times> u64 \<times> int" where
  "counters s k = (case kv_get (e_accounts s) k of
     None \<Rightarrow> (0, 0, 0) | Some a \<Rightarrow> (DelegatedOut a, DelegatedInUsable a, LockedAtos a))"

definition lent_out :: "energy_store \<Rightarrow> string \<Rightarrow> u64" where
  "lent_out s k = fst (counters s k)"

definition in_usable :: "energy_store \<Rightarrow> string \<Rightarrow> u64" where
  "in_usable s k = fst (snd (counters s k))"

definition locked_of :: "energy_store \<Rightarrow> string \<Rightarrow> int" where
  "locked_of s k = snd (snd (counters s k))"

definition accounts_ok :: "energy_store \<Rightarrow> bool" where
  "accounts_ok s \<longleftrightarrow> kv_inv (e_accounts s) \<and> (\<forall>(k, a) \<in> set (e_accounts s). Address a = k)"

definition same_books :: "energy_store \<Rightarrow> energy_store \<Rightarrow> bool" where
  "same_books s s' \<longleftrightarrow>
     (accounts_ok s \<longrightarrow> accounts_ok s') \<and> counters s' = counters s \<and>
     e_delegations s' = e_delegations s \<and> e_by_expiry s' = e_by_expiry s \<and>
     e_by_delegator s' = e_by_delegator s \<and> e_by_delegatee s' = e_by_delegatee s \<and>
     e_next_id s' = e_next_id s \<and> e_pending s' = e_pending s \<and> e_params s' = e_params s"

lemma same_books_refl [simp]: "same_books s s"
  by (simp add: same_books_def)

lemma same_books_trans: "same_books s t \<Longrightarrow> same_books t u \<Longrightarrow> same_books s u"
  by (simp add: same_books_def)

text \<open>An operation that touches nothing but the energy store.\<close>

definition frame :: "'x ctx \<Rightarrow> 'x ctx \<Rightarrow> bool" where
  "frame c c' \<longleftrightarrow> c' = c\<lparr>st_energy := st_energy c'\<rparr>"

lemma frame_refl [simp]: "frame c c"
  by (simp add: frame_def)

lemma frame_trans: "frame c d \<Longrightarrow> frame d e \<Longrightarrow> frame c e"
  by (cases c; cases d; cases e) (simp add: frame_def)

lemma frame_simps:
  assumes "frame c c'"
  shows "ext c' = ext c" "block_time c' = block_time c" "block_height c' = block_height c"
    "tx_bytes c' = tx_bytes c" "fee_in_progress c' = fee_in_progress c"
    "st_oracle c' = st_oracle c" "st_atox c' = st_atox c"
  using assms by (cases c; cases c'; simp add: frame_def)+

lemma frame_upd_energy [simp]: "frame c (upd_energy f c)"
  by (simp add: frame_def upd_energy_def)

lemma st_energy_upd [simp]: "st_energy (upd_energy f c) = f (st_energy c)"
  by (simp add: upd_energy_def)

lemma frame_set [simp]: "frame c (SetEnergyAccount a c)"
  by (simp add: SetEnergyAccount_def)

lemma accounts_okD:
  assumes "accounts_ok s" "kv_get (e_accounts s) k = Some a"
  shows "Address a = k"
  using assms kv_entry_iff [of "e_accounts s" k a] by (auto simp: accounts_ok_def)

lemma accounts_ok_set:
  "accounts_ok (st_energy c) \<Longrightarrow> accounts_ok (st_energy (SetEnergyAccount a c))"
  using set_kv_set_subset [of "Address a" a "e_accounts (st_energy c)"]
  by (auto simp: accounts_ok_def SetEnergyAccount_def)

lemma GetEnergyAccount_addr [simp]:
  "accounts_ok (st_energy c) \<Longrightarrow> Address (GetEnergyAccount K c a) = acc_string (codec K) a"
  by (auto simp: GetEnergyAccount_def NewEnergyAccount_def accounts_okD split: option.splits)

lemma GetEnergyAccount_counters:
  "counters (st_energy c) (acc_string (codec K) a) =
     (DelegatedOut (GetEnergyAccount K c a), DelegatedInUsable (GetEnergyAccount K c a),
      LockedAtos (GetEnergyAccount K c a))"
  by (simp add: counters_def GetEnergyAccount_def NewEnergyAccount_def split: option.splits)

lemma counters_set:
  "counters (st_energy (SetEnergyAccount a c)) =
     (counters (st_energy c))(Address a := (DelegatedOut a, DelegatedInUsable a, LockedAtos a))"
  by (auto simp: counters_def SetEnergyAccount_def kv_get_set fun_eq_iff)

lemma SetEnergyAccount_rest [simp]:
  "e_delegations (st_energy (SetEnergyAccount a c)) = e_delegations (st_energy c)"
  "e_by_expiry (st_energy (SetEnergyAccount a c)) = e_by_expiry (st_energy c)"
  "e_by_delegator (st_energy (SetEnergyAccount a c)) = e_by_delegator (st_energy c)"
  "e_by_delegatee (st_energy (SetEnergyAccount a c)) = e_by_delegatee (st_energy c)"
  "e_next_id (st_energy (SetEnergyAccount a c)) = e_next_id (st_energy c)"
  "e_pending (st_energy (SetEnergyAccount a c)) = e_pending (st_energy c)"
  "e_params (st_energy (SetEnergyAccount a c)) = e_params (st_energy c)"
  by (simp_all add: SetEnergyAccount_def)

lemma same_books_set:
  assumes "accounts_ok (st_energy c)" "Address a = acc_string (codec K) x"
    and "DelegatedOut a = DelegatedOut (GetEnergyAccount K c x)"
    and "DelegatedInUsable a = DelegatedInUsable (GetEnergyAccount K c x)"
    and "LockedAtos a = LockedAtos (GetEnergyAccount K c x)"
  shows "same_books (st_energy c) (st_energy (SetEnergyAccount a c))"
  using assms GetEnergyAccount_counters [of c K x]
  by (simp add: same_books_def accounts_ok_set counters_set fun_upd_idem)

lemma Get_set:
  assumes "Address a = acc_string (codec K) x"
  shows "GetEnergyAccount K (SetEnergyAccount a c) y =
    (if acc_string (codec K) y = acc_string (codec K) x then a else GetEnergyAccount K c y)"
  using assms by (simp add: GetEnergyAccount_def SetEnergyAccount_def kv_get_set)

section \<open>Refreshing operations\<close>

locale refresh_op =
  fixes op :: "'i \<Rightarrow> 'x ctx \<Rightarrow> 'x ctx"
  assumes op_frame: "frame c (op i c)"
    and op_books: "accounts_ok (st_energy c) \<Longrightarrow> same_books (st_energy c) (st_energy (op i c))"
begin

lemma op_accounts_ok: "accounts_ok (st_energy c) \<Longrightarrow> accounts_ok (st_energy (op i c))"
  using op_books [of c i] by (simp add: same_books_def)

lemma op_counters: "accounts_ok (st_energy c) \<Longrightarrow> counters (st_energy (op i c)) = counters (st_energy c)"
  using op_books [of c i] by (simp add: same_books_def)

lemma fold_frame: "frame c (fold op js c)"
  by (induction js arbitrary: c) (auto intro: frame_trans op_frame)

lemma fold_books: "accounts_ok (st_energy c) \<Longrightarrow> same_books (st_energy c) (st_energy (fold op js c))"
proof (induction js arbitrary: c)
  case (Cons i js)
  then show ?case
    using same_books_trans [OF op_books [OF Cons.prems, of i]] op_accounts_ok [OF Cons.prems] by simp
qed simp

end

lemma Settle_account:
  assumes "accounts_ok (st_energy c)"
  shows "Address (fst (Settle K c a)) = acc_string (codec K) a"
    "DelegatedOut (fst (Settle K c a)) = DelegatedOut (GetEnergyAccount K c a)"
    "DelegatedInUsable (fst (Settle K c a)) = DelegatedInUsable (GetEnergyAccount K c a)"
    "LockedAtos (fst (Settle K c a)) = LockedAtos (GetEnergyAccount K c a)"
  using assms by (simp_all add: Settle_def Let_def)

lemma Settle_stored:
  assumes "accounts_ok (st_energy c)"
  shows "GetEnergyAccount K (snd (Settle K c a)) a = fst (Settle K c a)"
  using assms by (auto simp: Settle_def Let_def Get_set)

definition op_Settle :: "'x sdk \<times> addr \<Rightarrow> 'x ctx \<Rightarrow> 'x ctx" where
  "op_Settle = (\<lambda>(K, a) c. snd (Settle K c a))"

definition op_Balance :: "'x sdk \<times> addr \<times> int \<Rightarrow> 'x ctx \<Rightarrow> 'x ctx" where
  "op_Balance = (\<lambda>(K, a, n) c. ApplyBalanceChange K c a n)"

definition op_Staked :: "'x sdk \<times> addr \<times> int \<Rightarrow> 'x ctx \<Rightarrow> 'x ctx" where
  "op_Staked = (\<lambda>(K, a, n) c. ApplyStakedChange K c a n)"

definition op_Snapshot :: "'x sdk \<times> addr \<Rightarrow> 'x ctx \<Rightarrow> 'x ctx" where
  "op_Snapshot = (\<lambda>(K, a) c. refresh_snapshot K a c)"

lemma Settle_frame: "frame c (snd (Settle K c a))"
  by (simp add: Settle_def Let_def)

lemma Settle_books:
  assumes "accounts_ok (st_energy c)"
  shows "same_books (st_energy c) (st_energy (snd (Settle K c a)))"
  unfolding Settle_def Let_def
  using assms by (auto intro!: same_books_set [where K = K and x = a])

lemma cap_down_keeps [simp]:
  "Address (cap_down p e a) = Address a" "DelegatedOut (cap_down p e a) = DelegatedOut a"
  "DelegatedInUsable (cap_down p e a) = DelegatedInUsable a" "LockedAtos (cap_down p e a) = LockedAtos a"
  "LastBalanceSnapshot (cap_down p e a) = LastBalanceSnapshot a" "StakedSnapshot (cap_down p e a) = StakedSnapshot a"
  "LastUpdatedTime (cap_down p e a) = LastUpdatedTime a"
  by (simp_all add: cap_down_def Let_def)

text \<open>Writing back a settled account with the same counters.\<close>

lemma settled_write_books:
  assumes "accounts_ok (st_energy c)" "Settle K c x = (acct, c1)"
    and "Address a = Address acct" "DelegatedOut a = DelegatedOut acct"
    and "DelegatedInUsable a = DelegatedInUsable acct" "LockedAtos a = LockedAtos acct"
  shows "same_books (st_energy c) (st_energy (SetEnergyAccount a c1))"
proof -
  have b: "same_books (st_energy c) (st_energy c1)" using Settle_books [OF assms(1), of K x] assms(2) by simp
  then have ok: "accounts_ok (st_energy c1)" using assms(1) by (simp add: same_books_def)
  have g: "GetEnergyAccount K c1 x = acct" using Settle_stored [OF assms(1), of K x] assms(2) by simp
  have "same_books (st_energy c1) (st_energy (SetEnergyAccount a c1))"
    using assms Settle_account [OF assms(1), of K x] g
    by (intro same_books_set [OF ok, where K = K and x = x]) simp_all
  then show ?thesis by (rule same_books_trans [OF b])
qed

lemma settled_write_frame: "Settle K c x = (acct, c1) \<Longrightarrow> frame c (SetEnergyAccount a c1)"
  using Settle_frame [of c K x] by (auto intro: frame_trans [of c c1])

lemma ApplyBalanceChange_books:
  "accounts_ok (st_energy c) \<Longrightarrow> same_books (st_energy c) (st_energy (ApplyBalanceChange K c a n))"
  "frame c (ApplyBalanceChange K c a n)"
  by (auto simp: ApplyBalanceChange_def Let_def split: prod.splits intro!: settled_write_books settled_write_frame)

lemma ApplyStakedChange_books:
  "accounts_ok (st_energy c) \<Longrightarrow> same_books (st_energy c) (st_energy (ApplyStakedChange K c a n))"
  "frame c (ApplyStakedChange K c a n)"
  by (auto simp: ApplyStakedChange_def Let_def split: prod.splits intro!: settled_write_books settled_write_frame)

lemma refresh_snapshot_books:
  "accounts_ok (st_energy c) \<Longrightarrow> same_books (st_energy c) (st_energy (refresh_snapshot K a c))"
  "frame c (refresh_snapshot K a c)"
  by (simp_all add: refresh_snapshot_def Let_def same_books_set [where K = K and x = a])

interpretation settle: refresh_op op_Settle
  by unfold_locales (auto simp: op_Settle_def Settle_frame Settle_books)

interpretation balance_change: refresh_op op_Balance
  by unfold_locales (auto simp: op_Balance_def ApplyBalanceChange_books)

interpretation staked_change: refresh_op op_Staked
  by unfold_locales (auto simp: op_Staked_def ApplyStakedChange_books)

interpretation snapshot: refresh_op op_Snapshot
  by unfold_locales (auto simp: op_Snapshot_def refresh_snapshot_books)

section \<open>Delegation records\<close>

definition canonical :: "addr_codec \<Rightarrow> string \<Rightarrow> bool" where
  "canonical A k \<longleftrightarrow> (\<exists>a. acc_from_bech32 A k = Some a \<and> acc_string A a = k)"

definition next_id :: "energy_store \<Rightarrow> u64" where
  "next_id s = (case e_next_id s of None \<Rightarrow> 1 | Some i \<Rightarrow> i)"

definition record_ok :: "addr_codec \<Rightarrow> u64 \<Rightarrow> u64 \<times> energy_delegation \<Rightarrow> bool" where
  "record_ok A nxt e \<longleftrightarrow>
     d_Id (snd e) = fst e \<and> fst e < nxt \<and> d_Used (snd e) \<le> d_Amount (snd e) \<and> 0 \<le> d_LockedAtos (snd e) \<and>
     canonical A (d_Delegator (snd e)) \<and> canonical A (d_Delegatee (snd e))"

definition index_ok :: "('a \<times> u64, unit) kv \<Rightarrow> (energy_delegation \<Rightarrow> 'a) \<Rightarrow> (u64, energy_delegation) kv \<Rightarrow> bool" where
  "index_ok ix f ds \<longleftrightarrow>
     (\<forall>k i. kv_get ix (k, i) = Some () \<longleftrightarrow> (\<exists>d. kv_get ds i = Some d \<and> f d = k))"

definition recs_ok :: "addr_codec \<Rightarrow> energy_store \<Rightarrow> bool" where
  "recs_ok A s \<longleftrightarrow>
     kv_inv (e_delegations s) \<and> kv_inv (e_by_expiry s) \<and> kv_inv (e_by_delegator s) \<and> kv_inv (e_by_delegatee s) \<and>
     (\<forall>e \<in> set (e_delegations s). record_ok A (next_id s) e) \<and>
     index_ok (e_by_expiry s) (\<lambda>d. u64_of_i64 (d_ExpiresAt d)) (e_delegations s) \<and>
     index_ok (e_by_delegator s) d_Delegator (e_delegations s) \<and>
     index_ok (e_by_delegatee s) d_Delegatee (e_delegations s)"

text \<open>The amounts the counters have to agree with.\<close>

definition in_sum :: "energy_store \<Rightarrow> string \<Rightarrow> int" where
  "in_sum s k = kv.total (\<lambda>(_, d). if d_Delegatee d = k then uint (d_Amount d) - uint (d_Used d) else 0) (e_delegations s)"

definition out_sum :: "energy_store \<Rightarrow> string \<Rightarrow> int" where
  "out_sum s k = kv.total (\<lambda>(_, d). if d_Delegator d = k then uint (d_Amount d) else 0) (e_delegations s)"

definition lock_sum :: "energy_store \<Rightarrow> string \<Rightarrow> int" where
  "lock_sum s k = kv.total (\<lambda>(_, d). if d_Delegator d = k then d_LockedAtos d else 0) (e_delegations s)"

definition lock_total :: "energy_store \<Rightarrow> int" where
  "lock_total s = kv.total (\<lambda>(_, d). d_LockedAtos d) (e_delegations s)"

lemma recs_okD:
  assumes "recs_ok A s" "kv_get (e_delegations s) i = Some d"
  shows "d_Id d = i" "i < next_id s" "d_Used d \<le> d_Amount d" "0 \<le> d_LockedAtos d"
    "canonical A (d_Delegator d)" "canonical A (d_Delegatee d)"
proof -
  have "(i, d) \<in> set (e_delegations s)"
    using assms kv_entry_iff [of "e_delegations s" i d] by (auto simp: recs_ok_def)
  then have "record_ok A (next_id s) (i, d)" using assms(1) by (simp add: recs_ok_def)
  then show "d_Id d = i" "i < next_id s" "d_Used d \<le> d_Amount d" "0 \<le> d_LockedAtos d"
    "canonical A (d_Delegator d)" "canonical A (d_Delegatee d)"
    by (simp_all add: record_ok_def)
qed

lemma index_ok_set:
  assumes "index_ok ix f ds" "\<forall>d'. kv_get ds (d_Id d) = Some d' \<longrightarrow> f d' = f d"
  shows "index_ok (kv_set (f d, d_Id d) () ix) f (kv_set (d_Id d) d ds)"
  using assms by (auto simp: index_ok_def kv_get_set)

lemma index_ok_del:
  assumes "index_ok ix f ds" "kv_get ds (d_Id d) = Some d"
  shows "index_ok (kv_del (f d, d_Id d) ix) f (kv_del (d_Id d) ds)"
  using assms by (auto simp: index_ok_def kv_get_del)

lemma setDelegation_simps [simp]:
  "e_delegations (st_energy (setDelegation d c)) = kv_set (d_Id d) d (e_delegations (st_energy c))"
  "e_by_expiry (st_energy (setDelegation d c)) =
     kv_set (u64_of_i64 (d_ExpiresAt d), d_Id d) () (e_by_expiry (st_energy c))"
  "e_by_delegator (st_energy (setDelegation d c)) = kv_set (d_Delegator d, d_Id d) () (e_by_delegator (st_energy c))"
  "e_by_delegatee (st_energy (setDelegation d c)) = kv_set (d_Delegatee d, d_Id d) () (e_by_delegatee (st_energy c))"
  "e_next_id (st_energy (setDelegation d c)) = e_next_id (st_energy c)"
  "e_accounts (st_energy (setDelegation d c)) = e_accounts (st_energy c)"
  "e_pending (st_energy (setDelegation d c)) = e_pending (st_energy c)"
  "e_params (st_energy (setDelegation d c)) = e_params (st_energy c)"
  "frame c (setDelegation d c)"
  by (simp_all add: setDelegation_def)

lemma removeDelegation_simps [simp]:
  "e_delegations (st_energy (removeDelegation d c)) = kv_del (d_Id d) (e_delegations (st_energy c))"
  "e_by_expiry (st_energy (removeDelegation d c)) =
     kv_del (u64_of_i64 (d_ExpiresAt d), d_Id d) (e_by_expiry (st_energy c))"
  "e_by_delegator (st_energy (removeDelegation d c)) = kv_del (d_Delegator d, d_Id d) (e_by_delegator (st_energy c))"
  "e_by_delegatee (st_energy (removeDelegation d c)) = kv_del (d_Delegatee d, d_Id d) (e_by_delegatee (st_energy c))"
  "e_next_id (st_energy (removeDelegation d c)) = e_next_id (st_energy c)"
  "e_accounts (st_energy (removeDelegation d c)) = e_accounts (st_energy c)"
  "e_pending (st_energy (removeDelegation d c)) = e_pending (st_energy c)"
  "e_params (st_energy (removeDelegation d c)) = e_params (st_energy c)"
  "frame c (removeDelegation d c)"
  by (simp_all add: removeDelegation_def)

text \<open>Writing a record whose identity and parties do not change, or a fresh one.\<close>

lemma recs_ok_set:
  assumes "recs_ok A (st_energy c)" "record_ok A (next_id (st_energy c)) (d_Id d, d)"
    and same: "\<And>d'. kv_get (e_delegations (st_energy c)) (d_Id d) = Some d' \<Longrightarrow>
       d_ExpiresAt d' = d_ExpiresAt d \<and> d_Delegator d' = d_Delegator d \<and> d_Delegatee d' = d_Delegatee d"
  shows "recs_ok A (st_energy (setDelegation d c))"
  using assms set_kv_set_subset [of "d_Id d" d "e_delegations (st_energy c)"]
  by (auto simp: recs_ok_def next_id_def intro!: index_ok_set
      [where f = "\<lambda>d. u64_of_i64 (d_ExpiresAt d)", simplified] index_ok_set)

lemma recs_ok_remove:
  assumes "recs_ok A (st_energy c)" "kv_get (e_delegations (st_energy c)) (d_Id d) = Some d"
  shows "recs_ok A (st_energy (removeDelegation d c))"
  using assms set_kv_del_subset [of "d_Id d" "e_delegations (st_energy c)"]
  by (auto simp: recs_ok_def next_id_def
      intro!: index_ok_del [where f = "\<lambda>d. u64_of_i64 (d_ExpiresAt d)", simplified] index_ok_del)

lemma recs_ok_cong:
  assumes "e_delegations s' = e_delegations s" "e_by_expiry s' = e_by_expiry s"
    "e_by_delegator s' = e_by_delegator s" "e_by_delegatee s' = e_by_delegatee s" "e_next_id s' = e_next_id s"
  shows "recs_ok A s' = recs_ok A s"
  using assms by (simp add: recs_ok_def next_id_def)

lemma recs_ok_books: "same_books s s' \<Longrightarrow> recs_ok A s \<Longrightarrow> recs_ok A s'"
  using recs_ok_cong [of s' s A] by (simp add: same_books_def)

section \<open>Sums over the records\<close>

lemma at_key_total:
  assumes "kv_get m k = Some v"
  shows "kv.at_key f m k = f (k, v)"
  using assms by (simp add: kv.at_key_def)

lemma total_replace:
  assumes "kv_inv m" "kv_get m k = Some v"
  shows "kv.total f (kv_set k w m) = kv.total f m - f (k, v) + f (k, w)"
  using kv.total_put [OF assms(1), of f k w] by (simp add: at_key_total [OF assms(2)])

lemma total_fresh:
  assumes "kv_inv m" "kv_get m k = None"
  shows "kv.total f (kv_set k w m) = kv.total f m + f (k, w)"
  using kv.total_put [OF assms(1), of f k w] assms(2) by (simp add: kv.at_key_def)

lemma total_remove:
  assumes "kv_inv m" "kv_get m k = Some v"
  shows "kv.total f (kv_del k m) = kv.total f m - f (k, v)"
  using kv.total_del [OF assms(1), of f k] by (simp add: at_key_total [OF assms(2)])

lemma recs_ok_inv: "recs_ok A s \<Longrightarrow> kv_inv (e_delegations s)"
  by (simp add: recs_ok_def)

text \<open>Changing the used amount of a record.\<close>

lemma set_used:
  assumes ok: "recs_ok A (st_energy c)" and g: "GetDelegation c i = Some d" and u: "u \<le> d_Amount d"
  defines "c' \<equiv> setDelegation (d\<lparr>d_Used := u\<rparr>) c"
  shows "recs_ok A (st_energy c')"
    "in_sum (st_energy c') k = in_sum (st_energy c) k + (if d_Delegatee d = k then uint (d_Used d) - uint u else 0)"
    "out_sum (st_energy c') k = out_sum (st_energy c) k"
    "lock_sum (st_energy c') k = lock_sum (st_energy c) k"
    "lock_total (st_energy c') = lock_total (st_energy c)"
    "counters (st_energy c') = counters (st_energy c)"
    "GetDelegation c' j = (if j = i then Some (d\<lparr>d_Used := u\<rparr>) else GetDelegation c j)"
proof -
  have g': "kv_get (e_delegations (st_energy c)) i = Some d" using g by (simp add: GetDelegation_def)
  note r = recs_okD [OF ok g']
  show "recs_ok A (st_energy c')"
    unfolding c'_def using r u g' by (intro recs_ok_set [OF ok]) (auto simp: record_ok_def)
  show "in_sum (st_energy c') k = in_sum (st_energy c) k + (if d_Delegatee d = k then uint (d_Used d) - uint u else 0)"
    "out_sum (st_energy c') k = out_sum (st_energy c) k"
    "lock_sum (st_energy c') k = lock_sum (st_energy c) k"
    "lock_total (st_energy c') = lock_total (st_energy c)"
    using total_replace [OF recs_ok_inv [OF ok] g'] r(1)
    by (simp_all add: in_sum_def out_sum_def lock_sum_def lock_total_def c'_def)
  show "counters (st_energy c') = counters (st_energy c)" by (simp add: counters_def c'_def fun_eq_iff)
  show "GetDelegation c' j = (if j = i then Some (d\<lparr>d_Used := u\<rparr>) else GetDelegation c j)"
    using r(1) by (simp add: GetDelegation_def c'_def kv_get_set)
qed

section \<open>Changing only what is used\<close>

definition usage_change :: "addr_codec \<Rightarrow> 'x ctx \<Rightarrow> 'x ctx \<Rightarrow> bool" where
  "usage_change A c c' \<longleftrightarrow>
     frame c c' \<and> recs_ok A (st_energy c') \<and> e_accounts (st_energy c') = e_accounts (st_energy c) \<and>
     e_next_id (st_energy c') = e_next_id (st_energy c) \<and> e_pending (st_energy c') = e_pending (st_energy c) \<and>
     e_params (st_energy c') = e_params (st_energy c) \<and>
     out_sum (st_energy c') = out_sum (st_energy c) \<and> lock_sum (st_energy c') = lock_sum (st_energy c) \<and>
     lock_total (st_energy c') = lock_total (st_energy c) \<and>
     (\<forall>i. map_option (d_Used_update (\<lambda>_. 0)) (GetDelegation c' i) =
          map_option (d_Used_update (\<lambda>_. 0)) (GetDelegation c i))"

lemma usage_change_refl: "recs_ok A (st_energy c) \<Longrightarrow> usage_change A c c"
  by (simp add: usage_change_def)

lemma usage_change_trans: "usage_change A c d \<Longrightarrow> usage_change A d e \<Longrightarrow> usage_change A c e"
  by (auto simp: usage_change_def intro: frame_trans)

lemma usage_change_counters: "usage_change A c c' \<Longrightarrow> counters (st_energy c') = counters (st_energy c)"
  by (simp add: usage_change_def counters_def fun_eq_iff)

lemma usage_change_delegatee:
  assumes "usage_change A c c'" "GetDelegation c' i = Some d'"
  obtains d where "GetDelegation c i = Some d" "d_Delegatee d = d_Delegatee d'" "d_Delegator d = d_Delegator d'"
    "d_Amount d = d_Amount d'" "d_LockedAtos d = d_LockedAtos d'" "d_ExpiresAt d = d_ExpiresAt d'"
proof -
  have "map_option (d_Used_update (\<lambda>_. 0)) (GetDelegation c i) = Some (d'\<lparr>d_Used := 0\<rparr>)"
    using assms unfolding usage_change_def by (metis option.map(2))
  then obtain d where "GetDelegation c i = Some d" "d\<lparr>d_Used := 0\<rparr> = d'\<lparr>d_Used := 0\<rparr>" by auto
  then show thesis by (intro that [of d]) (cases d; cases d'; simp)+
qed

lemma set_used_change:
  assumes "recs_ok A (st_energy c)" "GetDelegation c i = Some d" "u \<le> d_Amount d"
  shows "usage_change A c (setDelegation (d\<lparr>d_Used := u\<rparr>) c)"
  using set_used [OF assms] assms(2) by (auto simp: usage_change_def fun_eq_iff)

section \<open>Attribution\<close>

lemma distinct_map_filter_key:
  assumes "distinct (map h xs)" "\<And>x y. x \<in> set xs \<Longrightarrow> f x = Some y \<Longrightarrow> g y = h x"
  shows "distinct (map g (List.map_filter f xs))"
proof -
  have "map g (List.map_filter f xs) = map h (filter (\<lambda>x. f x \<noteq> None) xs)"
    using assms(2) by (auto simp: List.map_filter_def)
  then show ?thesis using assms(1) by (simp add: distinct_map_filter)
qed

text \<open>A walk over an index visits every record of its key once.\<close>

lemma index_walk:
  assumes ix: "index_ok ix f (e_delegations (st_energy c))" "kv_inv ix" and ok: "recs_ok A (st_energy c)"
  shows "set (iterateDelegationsByIndex c ix k) = {d. \<exists>i. GetDelegation c i = Some d \<and> f d = k}"
    "distinct (map d_Id (iterateDelegationsByIndex c ix k))"
proof -
  have "d \<in> set (iterateDelegationsByIndex c ix k) \<longleftrightarrow> (\<exists>i. ((k, i), ()) \<in> set ix \<and> GetDelegation c i = Some d)" for d
    by (force simp: iterateDelegationsByIndex_def List.map_filter_def split: if_splits)
  also have "\<dots> d \<longleftrightarrow> (\<exists>i. GetDelegation c i = Some d \<and> f d = k)" for d
    using ix kv_entry_iff [OF ix(2)] by (auto simp: index_ok_def GetDelegation_def)
  finally show "set (iterateDelegationsByIndex c ix k) = {d. \<exists>i. GetDelegation c i = Some d \<and> f d = k}" by auto
  let ?f = "\<lambda>((s', i), _). if s' = k then GetDelegation c i else None"
  have "distinct (map fst ix)" by (rule kv_inv_distinct [OF ix(2)])
  moreover have "(k, d_Id d) = fst e" if "?f e = Some d" for e d
    using that recs_okD(1) [OF ok] by (auto simp: GetDelegation_def split: if_splits prod.splits)
  ultimately have "distinct (map (\<lambda>d. (k, d_Id d)) (List.map_filter ?f ix))"
    by (rule distinct_map_filter_key)
  then show "distinct (map d_Id (iterateDelegationsByIndex c ix k))"
    by (auto simp: iterateDelegationsByIndex_def distinct_map inj_on_def)
qed

lemma recs_ok_indexes:
  assumes "recs_ok A s"
  shows "index_ok (e_by_delegator s) d_Delegator (e_delegations s)" "kv_inv (e_by_delegator s)"
    "index_ok (e_by_delegatee s) d_Delegatee (e_delegations s)" "kv_inv (e_by_delegatee s)"
    "index_ok (e_by_expiry s) (\<lambda>d. u64_of_i64 (d_ExpiresAt d)) (e_delegations s)" "kv_inv (e_by_expiry s)"
  using assms by (simp_all add: recs_ok_def)

lemma set_inbound:
  assumes "recs_ok A (st_energy c)"
  shows "set (IterateDelegationsByDelegatee c k) = {d. \<exists>i. GetDelegation c i = Some d \<and> d_Delegatee d = k}"
  unfolding IterateDelegationsByDelegatee_def by (rule index_walk [OF recs_ok_indexes(3,4) [OF assms] assms])

lemma distinct_inbound:
  assumes "recs_ok A (st_energy c)"
  shows "distinct (map d_Id (IterateDelegationsByDelegatee c k))"
  unfolding IterateDelegationsByDelegatee_def by (rule index_walk [OF recs_ok_indexes(3,4) [OF assms] assms])

lemma walk_outbound:
  assumes "recs_ok A (st_energy c)"
  shows "set (IterateDelegationsByDelegator c k) = {d. \<exists>i. GetDelegation c i = Some d \<and> d_Delegator d = k}"
    "distinct (map d_Id (IterateDelegationsByDelegator c k))"
  unfolding IterateDelegationsByDelegator_def by (rule index_walk [OF recs_ok_indexes(1,2) [OF assms] assms])+

lemma in_sum_inbound:
  assumes "recs_ok A (st_energy c)"
  shows "in_sum (st_energy c) k =
    sum_list (map (\<lambda>d. uint (d_Amount d) - uint (d_Used d)) (IterateDelegationsByDelegatee c k))"
proof -
  let ?m = "e_delegations (st_energy c)" and ?L = "IterateDelegationsByDelegatee c k"
  let ?g = "\<lambda>d. uint (d_Amount d) - uint (d_Used d)"
  have inv: "kv_inv ?m" using assms by (rule recs_ok_inv)
  let ?M = "{e \<in> set ?m. d_Delegatee (snd e) = k}"
  have "in_sum (st_energy c) k = (\<Sum>e \<in> set ?m. if d_Delegatee (snd e) = k then ?g (snd e) else 0)"
    using kv.total_sum [OF inv] by (simp add: in_sum_def case_prod_beta)
  also have "\<dots> = (\<Sum>e \<in> ?M. (?g \<circ> snd) e)"
    by (simp add: sum.inter_filter)
  also have "\<dots> = sum ?g (snd ` ?M)"
    by (subst sum.reindex) (auto simp: inj_on_def kv_entry_iff [OF inv] dest!: recs_okD(1) [OF assms])
  also have "snd ` ?M = set ?L"
    using kv_entry_iff [OF inv] by (force simp: set_inbound [OF assms] GetDelegation_def)
  also have "sum ?g (set ?L) = sum_list (map ?g ?L)"
    using distinct_inbound [OF assms, of k] by (simp add: distinct_map sum_list_distinct_conv_sum_set)
  finally show ?thesis .
qed

lemma sum_list_filter_zero:
  fixes f :: "'a \<Rightarrow> int"
  assumes "\<forall>x \<in> set xs. \<not> P x \<longrightarrow> f x = 0"
  shows "sum_list (map f (filter P xs)) = sum_list (map f xs)"
  using assms by (induction xs) auto

lemma sum_list_sort_key: "sum_list (map (f :: 'a \<Rightarrow> int) (sort_key g xs)) = sum_list (map f xs)"
  by (metis mset_map mset_sort sum_mset_sum_list)

text \<open>The candidates are the delegatee's records with energy left, and together they hold its inbound energy.\<close>

lemma candidates:
  assumes "recs_ok A (st_energy c)"
  shows "set (inbound_candidates c k) =
      {d. \<exists>i. GetDelegation c i = Some d \<and> d_Delegatee d = k \<and> d_Used d < d_Amount d}"
    and "distinct (map d_Id (inbound_candidates c k))"
    and "sum_list (map (\<lambda>d. uint (d_Amount d) - uint (d_Used d)) (inbound_candidates c k)) = in_sum (st_energy c) k"
    and "sorted (map (\<lambda>d. (d_ExpiresAt d, d_Id d)) (inbound_candidates c k))"
proof -
  show "set (inbound_candidates c k) =
      {d. \<exists>i. GetDelegation c i = Some d \<and> d_Delegatee d = k \<and> d_Used d < d_Amount d}"
    by (auto simp: inbound_candidates_def set_inbound [OF assms])
  have "inj_on d_Id (set (IterateDelegationsByDelegatee c k))" "distinct (IterateDelegationsByDelegatee c k)"
    using distinct_inbound [OF assms, of k] by (simp_all add: distinct_map)
  then show "distinct (map d_Id (inbound_candidates c k))"
    by (simp add: inbound_candidates_def distinct_map) (auto simp: inj_on_def)
  have "\<forall>d \<in> set (IterateDelegationsByDelegatee c k).
      \<not> d_Used d < d_Amount d \<longrightarrow> uint (d_Amount d) - uint (d_Used d) = 0"
    using recs_okD(3) [OF assms] by (fastforce simp: set_inbound [OF assms] GetDelegation_def)
  from sum_list_filter_zero [OF this]
  show "sum_list (map (\<lambda>d. uint (d_Amount d) - uint (d_Used d)) (inbound_candidates c k)) = in_sum (st_energy c) k"
    by (simp add: inbound_candidates_def sum_list_sort_key in_sum_inbound [OF assms])
  show "sorted (map (\<lambda>d. (d_ExpiresAt d, d_Id d)) (inbound_candidates c k))"
    by (simp add: inbound_candidates_def)
qed

text \<open>
  The loop on any list of distinct live records of one delegatee: it takes what is asked or all there
  is, never more from a record than it has left, and the writes move exactly that out of the
  delegatee's inbound energy.
\<close>

abbreviation taken :: "(u64 \<times> u64) list \<Rightarrow> int" where
  "taken att \<equiv> sum_list (map (\<lambda>e. uint (snd e)) att)"

lemma attribute_loop_effect:
  assumes "recs_ok A (st_energy c)" "distinct (map d_Id ds)"
    and "\<forall>d \<in> set ds. GetDelegation c (d_Id d) = Some d \<and> d_Delegatee d = k"
    and "attribute_loop rem0 ds = (rem', upd, att)"
  shows "usage_change A c (fold setDelegation upd c) \<and>
    (\<forall>j. in_sum (st_energy (fold setDelegation upd c)) j = in_sum (st_energy c) j - (if j = k then taken att else 0)) \<and>
    taken att = min (uint rem0) (sum_list (map (\<lambda>d. uint (d_Amount d) - uint (d_Used d)) ds)) \<and>
    uint rem' = uint rem0 - taken att \<and> set (map fst att) \<subseteq> set (map d_Id ds)"
  using assms
proof (induction ds arbitrary: rem0 c rem' upd att)
  case Nil
  then show ?case by (simp add: usage_change_refl)
next
  case (Cons d ds)
  have g: "GetDelegation c (d_Id d) = Some d" and del: "d_Delegatee d = k" using Cons.prems(3) by auto
  have le: "d_Used e \<le> d_Amount e" if "e \<in> set (d # ds)" for e
    using recs_okD(3) [OF Cons.prems(1)] Cons.prems(3) that by (auto simp: GetDelegation_def)
  have avail: "0 \<le> sum_list (map (\<lambda>d. uint (d_Amount d) - uint (d_Used d)) (d # ds))"
    using le by (intro sum_list_nonneg) (auto simp: word_le_def)
  show ?case
  proof (cases "rem0 = 0")
    case True
    then show ?thesis using Cons.prems avail by (simp add: usage_change_refl)
  next
    case False
    let ?t = "minU64 rem0 (d_Amount d - d_Used d)"
    let ?c1 = "setDelegation (d\<lparr>d_Used := d_Used d + ?t\<rparr>) c"
    obtain u a where l: "attribute_loop (rem0 - ?t) ds = (rem', u, a)"
      "upd = d\<lparr>d_Used := d_Used d + ?t\<rparr> # u" "att = (d_Id d, ?t) # a"
      using Cons.prems(4) False by (auto simp: Let_def split: prod.splits)
    have av: "uint (d_Amount d - d_Used d) = uint (d_Amount d) - uint (d_Used d)"
      using le by (intro uint_minus_u64) simp
    then have t: "uint ?t = min (uint rem0) (uint (d_Amount d) - uint (d_Used d))" by (simp add: uint_minU64)
    have ut: "uint (d_Used d + ?t) = uint (d_Used d) + uint ?t"
      using uint_u64_less [of "d_Amount d"] t by (intro uint_plus_u64) auto
    have rt: "uint (rem0 - ?t) = uint rem0 - uint ?t" using t by (intro uint_minus_u64) (simp add: word_le_def)
    have am: "d_Used d + ?t \<le> d_Amount d" unfolding word_le_def ut using t by linarith
    note su = set_used [OF Cons.prems(1) g am] and sc = set_used_change [OF Cons.prems(1) g am]
    have "\<forall>e \<in> set ds. GetDelegation ?c1 (d_Id e) = Some e \<and> d_Delegatee e = k"
    proof
      fix e assume e: "e \<in> set ds"
      then have "d_Id e \<noteq> d_Id d" using Cons.prems(2) by (auto simp: image_iff)
      then show "GetDelegation ?c1 (d_Id e) = Some e \<and> d_Delegatee e = k"
        using Cons.prems(3) e unfolding su(7) by simp
    qed
    note IH = Cons.IH [OF su(1) _ this l(1)]
    let ?av = "\<lambda>ds. sum_list (map (\<lambda>d. uint (d_Amount d) - uint (d_Used d)) ds)"
    have 1: "usage_change A ?c1 (fold setDelegation u ?c1)"
      and 2: "in_sum (st_energy (fold setDelegation u ?c1)) j = in_sum (st_energy ?c1) j - (if j = k then taken a else 0)"
      and 3: "taken a = min (uint (rem0 - ?t)) (?av ds)" and 4: "uint rem' = uint (rem0 - ?t) - taken a"
      and 5: "set (map fst a) \<subseteq> set (map d_Id ds)" for j
      using IH Cons.prems(2) by (auto simp only: distinct.simps list.map)
    have 6: "in_sum (st_energy ?c1) j = in_sum (st_energy c) j - (if j = k then uint ?t else 0)" for j
      unfolding su(2) ut del by simp
    have 7: "taken att = uint ?t + taken a" by (simp add: l)
    have 8: "0 \<le> ?av ds" using le by (intro sum_list_nonneg) (auto simp: word_le_def)
    have "taken att = min (uint rem0) (?av (d # ds))" "uint rem' = uint rem0 - taken att"
      using 3 4 8 t rt unfolding 7 by (simp_all add: min_def split: if_splits)
    moreover have "usage_change A c (fold setDelegation upd c)" using usage_change_trans [OF sc 1] by (simp add: l)
    moreover have "in_sum (st_energy (fold setDelegation upd c)) j =
        in_sum (st_energy c) j - (if j = k then taken att else 0)" for j
      using 2 [of j] 6 [of j] unfolding 7 by (simp add: l)
    ultimately show ?thesis using 5 by (auto simp: l)
  qed
qed

section \<open>Attribution and refund\<close>

text \<open>An attribution of as much as the delegatee's records hold never reports drift.\<close>

lemma attribute_ok:
  assumes ok: "recs_ok A (st_energy c)" and k: "k = acc_string (codec K) a"
    and enough: "uint amount \<le> in_sum (st_energy c) k"
  obtains att c' where "attributeDelegatedConsumption K c a amount = Inr (att, c')" "usage_change A c c'"
    "\<And>j. in_sum (st_energy c') j = in_sum (st_energy c) j - (if j = k then uint amount else 0)"
    "taken att = uint amount" "set (map fst att) \<subseteq> set (map d_Id (inbound_candidates c k))"
proof (cases "amount = 0")
  case True
  then show thesis using that [of "[]" c] ok by (simp add: attributeDelegatedConsumption_def usage_change_refl)
next
  case False
  let ?ds = "inbound_candidates c k"
  obtain rem' upd att where l: "attribute_loop amount ?ds = (rem', upd, att)" by (metis surj_pair)
  have live: "\<forall>d \<in> set ?ds. GetDelegation c (d_Id d) = Some d \<and> d_Delegatee d = k"
    using recs_okD(1) [OF ok] unfolding candidates(1) [OF ok] by (force simp: GetDelegation_def)
  note e = attribute_loop_effect [OF ok candidates(2) [OF ok] live l, unfolded candidates(3) [OF ok]]
  then have t: "taken att = uint amount" using enough by simp
  then have "uint rem' = 0" using e by linarith
  then have "rem' = 0" by (simp add: uint_0_iff)
  then show thesis
    using that [of att "fold setDelegation upd c"] e t False l k
    by (simp add: attributeDelegatedConsumption_def)
qed

lemma refund_loop_effect:
  assumes "recs_ok A (st_energy c)" "undone \<le> target"
    and "\<forall>e \<in> set cs. \<forall>d. GetDelegation c (fst e) = Some d \<longrightarrow> d_Delegatee d = k"
    and "refund_loop cs target undone c = (u, c')"
  shows "usage_change A c c' \<and> undone \<le> u \<and> u \<le> target \<and>
    (\<forall>j. in_sum (st_energy c') j = in_sum (st_energy c) j + (if j = k then uint u - uint undone else 0))"
  using assms
proof (induction cs target undone c rule: refund_loop.induct)
  case (1 target undone c)
  then show ?case by (simp add: usage_change_refl)
next
  case (2 did amt cs target undone c)
  show ?case
  proof (cases "undone < target")
    case False
    then show ?thesis using 2(4-) by (simp add: usage_change_refl)
  next
    case lt: True
    show ?thesis
    proof (cases "GetDelegation c did")
      case None
      then show ?thesis using 2(1) [OF _ None] 2(4-) lt by simp
    next
      case (Some d)
      let ?step = "minU64 (minU64 (target - undone) amt) (d_Used d)"
      let ?c1 = "setDelegation (d\<lparr>d_Used := d_Used d - ?step\<rparr>) c"
      have st: "(if d_Used d < minU64 (target - undone) amt then d_Used d else minU64 (target - undone) amt) = ?step"
        by (rule clamp_minU64)
      show ?thesis
      proof (cases "?step = 0")
        case True
        then show ?thesis using 2(2) [OF _ Some refl refl] 2(4-) lt Some by (simp add: Let_def st)
      next
        case nz: False
        have le: "?step \<le> d_Used d" "?step \<le> target - undone" by (simp_all add: minU64_eq min.coboundedI1)
        have us: "uint (d_Used d - ?step) = uint (d_Used d) - uint ?step" using le(1) by (rule uint_minus_u64)
        have td: "uint (target - undone) = uint target - uint undone" using lt by (intro uint_minus_u64) simp
        have un: "uint (undone + ?step) = uint undone + uint ?step"
          using le(2) uint_u64_less [of target] td by (intro uint_plus_u64) (simp add: word_le_def)
        have am: "d_Used d - ?step \<le> d_Amount d"
          using recs_okD(3) [OF 2(4) Some [unfolded GetDelegation_def]] us uint_ge_0 [of ?step]
          unfolding word_le_def by linarith
        note su = set_used [OF 2(4) Some am] and sc = set_used_change [OF 2(4) Some am]
        have step: "undone + ?step \<le> target" "undone \<le> undone + ?step"
          using le(2) un td unfolding word_le_def by (simp_all)
        have live: "\<forall>x \<in> set cs. \<forall>e. GetDelegation ?c1 (fst x) = Some e \<longrightarrow> d_Delegatee e = k"
          using 2(6) Some unfolding su(7) by (auto split: if_splits)
        have run: "refund_loop cs target (undone + ?step) ?c1 = (u, c')"
          using 2(7) lt Some nz by (simp add: Let_def st)
        have IH: "usage_change A ?c1 c' \<and> undone + ?step \<le> u \<and> u \<le> target \<and>
            (\<forall>j. in_sum (st_energy c') j = in_sum (st_energy ?c1) j + (if j = k then uint u - uint (undone + ?step) else 0))"
          using 2(3) [OF _ Some refl st [symmetric] nz su(1) step(1) live run] lt by simp
        have "d_Delegatee d = k" using 2(6) Some by auto
        then show ?thesis using IH usage_change_trans [OF sc] order_trans [OF step(2)]
          unfolding un by (simp add: su(2) us)
      qed
    qed
  qed
qed

section \<open>Consumption\<close>

text \<open>
  The plan of a consumption in natural numbers: deploy energy first (for a deployment), then the
  signer's own energy that is not lent out, then the energy lent to it; the rest is the shortfall.
\<close>

definition plan :: "energy_account \<Rightarrow> nat \<Rightarrow> bool \<Rightarrow> nat \<times> nat \<times> nat \<times> nat" where
  "plan acct gas isDeploy =
     (let d = (if isDeploy then min gas (unat (DeployEnergyAccrued acct)) else 0);
          own = min (gas - d) (unat (TxEnergyAccrued acct) - unat (DelegatedOut acct));
          del = min (gas - d - own) (unat (DelegatedInUsable acct)) in
      (d, own, del, gas - d - own - del))"

lemma minU64_guard: "(if a > 0 \<and> b > 0 then minU64 a b else 0) = minU64 a b"
  by (auto simp: minU64_eq min_def word_gt_0)

lemma minU64_deploy: "(if dep \<and> b > 0 then minU64 a b else 0) = (if dep then minU64 a b else 0)"
  by (auto simp: minU64_eq min_def word_gt_0)

lemma unat_sub_le: "b \<le> a \<Longrightarrow> unat (a - b) = unat a - unat (b :: u64)"
  by (simp add: unat_sub)

lemma minU64_le [simp]: "minU64 a b \<le> a" "minU64 a b \<le> b"
  by (simp_all add: minU64_eq)

lemma unat_own_available: "unat (own_available acct) = unat (TxEnergyAccrued acct) - unat (DelegatedOut acct)"
  by (auto simp: own_available_def unat_sub_le word_less_nat_alt word_le_nat_alt)

text \<open>The amounts of a consumption as the code computes them.\<close>

definition drawn :: "energy_account \<Rightarrow> u64 \<Rightarrow> bool \<Rightarrow> u64 \<times> u64 \<times> u64 \<times> u64" where
  "drawn acct g isDeploy =
     (let d = (if isDeploy then minU64 g (DeployEnergyAccrued acct) else 0);
          own = minU64 (g - d) (own_available acct);
          del = minU64 (g - d - own) (DelegatedInUsable acct) in
      (d, own, del, g - d - own - del))"

lemma drawn_plan:
  assumes "drawn acct g isDeploy = (d, own, del, short)"
  shows "plan acct (unat g) isDeploy = (unat d, unat own, unat del, unat short)"
  using assms by (auto simp: drawn_def plan_def Let_def unat_sub_le unat_own_available)

lemma drawn_total:
  assumes "drawn acct g isDeploy = (d, own, del, short)"
  shows "unat d + unat own + unat del + unat short = unat g" "unat (own + del) = unat own + unat del"
    "own \<le> TxEnergyAccrued acct" "unat own \<le> unat (TxEnergyAccrued acct) - unat (DelegatedOut acct)"
    "del \<le> DelegatedInUsable acct"
proof -
  note p = drawn_plan [OF assms, unfolded plan_def Let_def, simplified]
  show s: "unat d + unat own + unat del + unat short = unat g"
    using p by (auto simp: min_def split: if_splits)
  show "unat (own + del) = unat own + unat del"
    using s unat_u64_less [of g] by (intro unat_add_lem [THEN iffD1]) simp
  show "own \<le> TxEnergyAccrued acct" "unat own \<le> unat (TxEnergyAccrued acct) - unat (DelegatedOut acct)"
    "del \<le> DelegatedInUsable acct"
    using p by (auto simp: word_le_nat_alt)
qed

lemma own_available_deploy [simp]: "own_available (acct\<lparr>DeployEnergyAccrued := x\<rparr>) = own_available acct"
  by (simp add: own_available_def)

lemma Consume_drawn:
  assumes "\<not> allSubsidized (energy_GetParams c) urls" "EnergyEnabled (energy_GetParams c)" "g \<noteq> 0"
    and s: "Settle K c signer = (acct, c1)" and dr: "drawn acct g isDeploy = (d, own, del, short)"
  shows "Consume K c signer g isDeploy urls =
     bindR (attributeDelegatedConsumption K c1 signer del) (\<lambda>(att, c2).
       Inr (\<lparr> EnergyDeducted = own + del, OwnDeducted = own, DelegatedDeducted = del, DeployEnergyUsed = d,
              ShortfallGas = short, Free = False, DelegationConsumptions = att \<rparr>,
            SetEnergyAccount (acct\<lparr>DeployEnergyAccrued := DeployEnergyAccrued acct - d,
              TxEnergyAccrued := TxEnergyAccrued acct - own,
              DelegatedInUsable := DelegatedInUsable acct - del\<rparr>) c2))"
proof -
  have z: "attributeDelegatedConsumption K c1 signer 0 = Inr ([], c1)"
    by (simp add: attributeDelegatedConsumption_def)
  have del: "del = (if g - d - own > 0 \<and> DelegatedInUsable acct > 0 then minU64 (g - d - own) (DelegatedInUsable acct) else 0)"
    using dr by (auto simp: drawn_def Let_def minU64_guard)
  have eqs: "d = (if isDeploy then minU64 g (DeployEnergyAccrued acct) else 0)"
    "own = minU64 (g - d) (own_available acct)" "short = g - d - own - del"
    using dr by (auto simp: drawn_def Let_def)
  show ?thesis
  proof (cases "g - d - own > 0 \<and> DelegatedInUsable acct > 0")
    case True
    then have "del = minU64 (g - d - own) (DelegatedInUsable acct)" using del by simp
    then show ?thesis using assms(1-3) True eqs(3) unfolding Consume_def minU64_guard unfolding minU64_deploy
      by (simp add: s Let_def empty_result_def flip: eqs(1,2))
  next
    case False
    then have "del = 0" unfolding del by (rule if_not_P)
    then show ?thesis using assms(1-3) eqs(3) unfolding Consume_def minU64_guard unfolding minU64_deploy
      by (simp add: s Let_def empty_result_def z if_not_P [OF False] flip: eqs(1,2))
  qed
qed

text \<open>The read-only settlement and the persisted one leave the same spendable amounts.\<close>

lemma SimulateSettle_agrees:
  "DeployEnergyAccrued (SimulateSettle K c a) = DeployEnergyAccrued (fst (Settle K c a))"
  "TxEnergyAccrued (SimulateSettle K c a) = TxEnergyAccrued (fst (Settle K c a))"
  "DelegatedOut (SimulateSettle K c a) = DelegatedOut (fst (Settle K c a))"
  "DelegatedInUsable (SimulateSettle K c a) = DelegatedInUsable (fst (Settle K c a))"
  by (auto simp: SimulateSettle_def Settle_def Let_def settle_refill_tx settle_refill_deploy)

lemma Estimate_drawn:
  assumes "\<not> allSubsidized (energy_GetParams c) urls" "EnergyEnabled (energy_GetParams c)"
    and dr: "drawn (fst (Settle K c signer)) g isDeploy = (d, own, del, short)"
  shows "EstimateConsume K c signer g isDeploy urls =
     empty_result\<lparr>DeployEnergyUsed := d, EnergyDeducted := own + del, ShortfallGas := short\<rparr>"
proof -
  have o: "own_available (SimulateSettle K c signer) = own_available (fst (Settle K c signer))"
    by (simp add: own_available_def SimulateSettle_agrees)
  show ?thesis using assms unfolding EstimateConsume_def minU64_guard unfolding minU64_deploy
    by (auto simp: Let_def drawn_def SimulateSettle_agrees o)
qed

end
