(* ===== verification/EnergyInv.thy ===== *)
theory EnergyInv
  imports EnergyBooks
begin

text \<open>
  The invariant of the energy module and the operations that keep it: consumption, refund, the
  pending reservations, delegation, release and the sweep.  \<open>kept\<close> is what every step guarantees: the
  invariant afterwards, and that no id is ever given to another delegatee, so that a reservation made
  earlier can still be undone.  The locale \<open>energy_hook\<close> is what the module needs of the registered send
  restriction.
\<close>

section \<open>The invariant\<close>

text \<open>
  Nothing is on an account that the live records do not back, and what the records say is locked is
  in the pool.
\<close>

definition backed :: "energy_store \<Rightarrow> bool" where
  "backed s \<longleftrightarrow>
     (\<forall>k. uint (in_usable s k) \<le> in_sum s k) \<and>
     (\<forall>k. uint (lent_out s k) \<le> out_sum s k) \<and>
     (\<forall>k. 0 \<le> locked_of s k \<and> locked_of s k \<le> lock_sum s k)"

definition pool_balance :: "'x sdk \<Rightarrow> 'x ctx \<Rightarrow> int" where
  "pool_balance K c = balance K c (module_address K LockedEnergyPoolName) (base_denom K)"

definition energy_inv :: "'x sdk \<Rightarrow> 'x ctx \<Rightarrow> bool" where
  "energy_inv K c \<longleftrightarrow>
     accounts_ok (st_energy c) \<and> recs_ok (codec K) (st_energy c) \<and> backed (st_energy c) \<and>
     lock_total (st_energy c) \<le> pool_balance K c"

text \<open>A reservation names only delegations to its signer.\<close>

definition res_ok :: "energy_store \<Rightarrow> string \<Rightarrow> consume_result \<Rightarrow> bool" where
  "res_ok s k res \<longleftrightarrow>
     (\<forall>e \<in> set (DelegationConsumptions res). fst e < next_id s \<and>
        (\<forall>d. kv_get (e_delegations s) (fst e) = Some d \<longrightarrow> d_Delegatee d = k))"

lemma res_ok_empty [simp]: "DelegationConsumptions res = [] \<Longrightarrow> res_ok s k res"
  by (simp add: res_ok_def)

text \<open>An id is never given to another delegatee.\<close>

definition ids_kept :: "energy_store \<Rightarrow> energy_store \<Rightarrow> bool" where
  "ids_kept s s' \<longleftrightarrow> next_id s \<le> next_id s' \<and>
     (\<forall>i d'. kv_get (e_delegations s') i = Some d' \<longrightarrow> i < next_id s \<longrightarrow>
        (\<exists>d. kv_get (e_delegations s) i = Some d \<and> d_Delegatee d = d_Delegatee d'))"

lemma ids_kept_refl [simp]: "ids_kept s s"
  by (simp add: ids_kept_def)

lemma ids_keptD:
  assumes "ids_kept s s'" "kv_get (e_delegations s') i = Some d'" "i < next_id s"
  obtains d where "kv_get (e_delegations s) i = Some d" "d_Delegatee d = d_Delegatee d'"
  using assms unfolding ids_kept_def by blast

lemma ids_kept_trans:
  assumes "ids_kept s t" "ids_kept t u"
  shows "ids_kept s u"
proof -
  have le: "next_id s \<le> next_id t" "next_id t \<le> next_id u" using assms by (simp_all add: ids_kept_def)
  have "\<exists>d. kv_get (e_delegations s) i = Some d \<and> d_Delegatee d = d_Delegatee d'"
    if "kv_get (e_delegations u) i = Some d'" "i < next_id s" for i d'
    using ids_keptD [OF assms(2) that(1) order_less_le_trans [OF that(2) le(1)]] ids_keptD [OF assms(1) _ that(2)]
    by metis
  then show ?thesis using le by (simp add: ids_kept_def)
qed

lemma ids_kept_same: "e_delegations s' = e_delegations s \<Longrightarrow> e_next_id s' = e_next_id s \<Longrightarrow> ids_kept s s'"
  by (simp add: ids_kept_def next_id_def)

lemma ids_kept_books: "same_books s s' \<Longrightarrow> ids_kept s s'"
  by (rule ids_kept_same) (simp_all add: same_books_def)

lemma ids_kept_usage: "usage_change A c c' \<Longrightarrow> ids_kept (st_energy c) (st_energy c')"
  unfolding ids_kept_def
  by (intro conjI allI impI)
    (simp add: usage_change_def next_id_def, metis usage_change_delegatee GetDelegation_def)

lemma res_ok_kept:
  assumes "ids_kept s s'" "res_ok s k res"
  shows "res_ok s' k res"
proof -
  have "next_id s \<le> next_id s'" using assms(1) by (simp add: ids_kept_def)
  moreover have "d_Delegatee d' = k"
    if "e \<in> set (DelegationConsumptions res)" "kv_get (e_delegations s') (fst e) = Some d'" for e d'
  proof -
    have e: "fst e < next_id s" "\<And>d. kv_get (e_delegations s) (fst e) = Some d \<Longrightarrow> d_Delegatee d = k"
      using assms(2) that(1) by (auto simp: res_ok_def)
    show ?thesis using ids_keptD [OF assms(1) that(2) e(1)] e(2) by metis
  qed
  ultimately show ?thesis using assms(2) by (auto simp: res_ok_def intro: order_less_le_trans)
qed

lemma backed_books:
  assumes "same_books s s'" shows "backed s' = backed s"
  using assms by (simp add: backed_def same_books_def in_usable_def lent_out_def locked_of_def
      in_sum_def out_sum_def lock_sum_def)

lemma lock_total_books: "same_books s s' \<Longrightarrow> lock_total s' = lock_total s"
  by (simp add: same_books_def lock_total_def)

lemma energy_inv_books:
  assumes "same_books (st_energy c) (st_energy c')" "pool_balance K c \<le> pool_balance K c'" "energy_inv K c"
  shows "energy_inv K c'"
  using assms recs_ok_books [OF assms(1)] backed_books [OF assms(1)] lock_total_books [OF assms(1)]
  by (auto simp: energy_inv_def same_books_def)

lemma pool_balance_frame: "frame c c' \<Longrightarrow> pool_balance K c' = pool_balance K c"
  by (simp add: pool_balance_def frame_simps)

text \<open>Usage moved in the records together with the counter of the delegatee.\<close>

lemma energy_inv_usage:
  assumes inv: "energy_inv K c" and u: "usage_change (codec K) c c'"
    and sums: "\<And>j. in_sum (st_energy c') j = in_sum (st_energy c) j + (if j = Address a then delta else 0)"
    and a: "DelegatedOut a = lent_out (st_energy c) (Address a)" "LockedAtos a = locked_of (st_energy c) (Address a)"
      "uint (DelegatedInUsable a) \<le> uint (in_usable (st_energy c) (Address a)) + delta"
  shows "energy_inv K (SetEnergyAccount a c')"
proof -
  let ?s = "st_energy c" and ?t = "st_energy (SetEnergyAccount a c')"
  have cs: "counters ?t = (counters ?s)(Address a := (DelegatedOut a, DelegatedInUsable a, LockedAtos a))"
    using usage_change_counters [OF u] by (simp add: counters_set)
  have sm: "in_sum ?t = in_sum (st_energy c')" "out_sum ?t = out_sum ?s" "lock_sum ?t = lock_sum ?s"
    "lock_total ?t = lock_total ?s"
    using u by (simp_all add: in_sum_def out_sum_def lock_sum_def lock_total_def usage_change_def fun_eq_iff)
  have "backed ?t"
    using inv a sums unfolding backed_def energy_inv_def in_usable_def lent_out_def locked_of_def cs sm
    by (auto simp: add_increasing2 intro: order_trans)
  moreover have "accounts_ok ?t"
    using inv u by (intro accounts_ok_set) (simp add: energy_inv_def accounts_ok_def usage_change_def)
  moreover have "recs_ok (codec K) ?t"
    using u recs_ok_cong [of ?t "st_energy c'"] by (simp add: usage_change_def)
  moreover have "pool_balance K (SetEnergyAccount a c') = pool_balance K c"
    by (rule pool_balance_frame, rule frame_trans [of c c']) (use u in \<open>simp_all add: usage_change_def\<close>)
  ultimately show ?thesis using inv sm(4) by (simp add: energy_inv_def)
qed


text \<open>What every step of the module keeps, next to the invariant.\<close>

definition kept :: "'x sdk \<Rightarrow> 'x ctx \<Rightarrow> 'x ctx \<Rightarrow> bool" where
  "kept K c c' \<longleftrightarrow> energy_inv K c' \<and> ids_kept (st_energy c) (st_energy c')"

lemma kept_trans: "kept K c d \<Longrightarrow> kept K d e \<Longrightarrow> kept K c e"
  by (auto simp: kept_def intro: ids_kept_trans)

lemma kept_books:
  assumes "energy_inv K c" "same_books (st_energy c) (st_energy c')" "pool_balance K c \<le> pool_balance K c'"
  shows "kept K c c'"
  using assms by (simp add: kept_def ids_kept_books energy_inv_books)

lemma kept_refresh:
  assumes "energy_inv K c" "same_books (st_energy c) (st_energy c')" "frame c c'"
  shows "kept K c c'"
  using assms by (intro kept_books) (simp_all add: pool_balance_frame)

lemma kept_usage:
  assumes "energy_inv K c" "usage_change (codec K) c c'"
    and "\<And>j. in_sum (st_energy c') j = in_sum (st_energy c) j + (if j = Address a then delta else 0)"
    and "DelegatedOut a = lent_out (st_energy c) (Address a)" "LockedAtos a = locked_of (st_energy c) (Address a)"
      "uint (DelegatedInUsable a) \<le> uint (in_usable (st_energy c) (Address a)) + delta"
  shows "kept K c (SetEnergyAccount a c')"
  using energy_inv_usage [OF assms] ids_kept_trans [OF ids_kept_usage [OF assms(2)] ids_kept_same]
  by (simp add: kept_def)

lemma account_books:
  "lent_out (st_energy c) (acc_string (codec K) a) = DelegatedOut (GetEnergyAccount K c a)"
  "in_usable (st_energy c) (acc_string (codec K) a) = DelegatedInUsable (GetEnergyAccount K c a)"
  "locked_of (st_energy c) (acc_string (codec K) a) = LockedAtos (GetEnergyAccount K c a)"
  by (simp_all add: lent_out_def in_usable_def locked_of_def GetEnergyAccount_counters)

lemma energy_invD:
  assumes "energy_inv K c"
  shows "accounts_ok (st_energy c)" "recs_ok (codec K) (st_energy c)" "backed (st_energy c)"
    "lock_total (st_energy c) \<le> pool_balance K c"
  using assms by (simp_all add: energy_inv_def)

lemma Settle_kept:
  assumes "energy_inv K c" "Settle K c a = (acct, c1)"
  shows "kept K c c1" "frame c c1" "GetEnergyAccount K c1 a = acct" "Address acct = acc_string (codec K) a"
    "same_books (st_energy c) (st_energy c1)"
proof -
  note ok = energy_invD(1) [OF assms(1)]
  show "frame c c1" using Settle_frame [of c K a] assms(2) by simp
  show "same_books (st_energy c) (st_energy c1)" using Settle_books [OF ok, of K a] assms(2) by simp
  then show "kept K c c1" using \<open>frame c c1\<close> assms(1) by (rule kept_refresh [rotated])
  show "GetEnergyAccount K c1 a = acct" using Settle_stored [OF ok, of K a] assms(2) by simp
  show "Address acct = acc_string (codec K) a" using Settle_account(1) [OF ok, of K a] assms(2) by simp
qed

lemma inbound_live:
  assumes "recs_ok A (st_energy c)" "d \<in> set (inbound_candidates c k)"
  shows "GetDelegation c (d_Id d) = Some d" "d_Delegatee d = k" "d_Id d < next_id (st_energy c)"
  using assms(2) recs_okD(1,2) [OF assms(1)] unfolding candidates(1) [OF assms(1)] by (auto simp: GetDelegation_def)

text \<open>In every state that satisfies the invariant a consumption succeeds.\<close>

lemma Consume_kept:
  assumes inv: "energy_inv K c"
  obtains res c' where "Consume K c signer g isDeploy urls = Inr (res, c')" "kept K c c'" "frame c c'"
    "e_pending (st_energy c') = e_pending (st_energy c)"
    "res_ok (st_energy c') (acc_string (codec K) signer) res"
    "taken (DelegationConsumptions res) = uint (DelegatedDeducted res)"
proof (cases "\<not> allSubsidized (energy_GetParams c) urls \<and> EnergyEnabled (energy_GetParams c) \<and> g \<noteq> 0")
  case False
  then have "\<exists>res. Consume K c signer g isDeploy urls = Inr (res, c) \<and> DelegationConsumptions res = [] \<and>
      DelegatedDeducted res = 0"
    by (auto simp: Consume_def Let_def empty_result_def)
  then show thesis using that inv by (fastforce simp: kept_def)
next
  case True
  let ?k = "acc_string (codec K) signer"
  obtain acct c1 where s: "Settle K c signer = (acct, c1)" by fastforce
  obtain d own del short where dr: "drawn acct g isDeploy = (d, own, del, short)" by (metis surj_pair)
  note st = Settle_kept [OF inv s]
  have inv1: "energy_inv K c1" using st(1) by (simp add: kept_def)
  have b: "uint (DelegatedInUsable acct) \<le> in_sum (st_energy c1) ?k"
    using energy_invD(3) [OF inv1] account_books(2) [of c1 K signer] st(3) by (simp add: backed_def) metis
  have del: "del \<le> DelegatedInUsable acct" by (rule drawn_total(5) [OF dr])
  have enough: "uint del \<le> in_sum (st_energy c1) ?k" using del b unfolding word_le_def by linarith
  obtain att c2 where a: "attributeDelegatedConsumption K c1 signer del = Inr (att, c2)"
    "usage_change (codec K) c1 c2"
    "\<And>j. in_sum (st_energy c2) j = in_sum (st_energy c1) j - (if j = ?k then uint del else 0)"
    "taken att = uint del" "set (map fst att) \<subseteq> set (map d_Id (inbound_candidates c1 ?k))"
    using attribute_ok [OF energy_invD(2) [OF inv1] refl enough] by metis
  let ?acct = "acct\<lparr>DeployEnergyAccrued := DeployEnergyAccrued acct - d,
      TxEnergyAccrued := TxEnergyAccrued acct - own, DelegatedInUsable := DelegatedInUsable acct - del\<rparr>"
  let ?res = "\<lparr> EnergyDeducted = own + del, OwnDeducted = own, DelegatedDeducted = del, DeployEnergyUsed = d,
      ShortfallGas = short, Free = False, DelegationConsumptions = att \<rparr>"
  have "kept K c1 (SetEnergyAccount ?acct c2)"
    by (rule kept_usage [OF inv1 a(2), where delta = "- uint del"])
      (use a(3) st(3,4) del account_books [of c1 K signer] in \<open>simp_all add: uint_minus_u64\<close>)
  moreover have "res_ok (st_energy (SetEnergyAccount ?acct c2)) ?k ?res"
  proof -
    have "fst e < next_id (st_energy c1) \<and> (\<forall>d. kv_get (e_delegations (st_energy c1)) (fst e) = Some d \<longrightarrow> d_Delegatee d = ?k)"
      if e: "e \<in> set att" for e
    proof -
      obtain x where x: "x \<in> set (inbound_candidates c1 ?k)" "fst e = d_Id x" using a(5) e by auto
      show ?thesis using inbound_live [OF energy_invD(2) [OF inv1] x(1)] unfolding x(2) GetDelegation_def by simp
    qed
    then have "res_ok (st_energy c1) ?k ?res" by (simp add: res_ok_def)
    then show ?thesis using res_ok_kept calculation by (auto simp: kept_def)
  qed
  moreover have "frame c (SetEnergyAccount ?acct c2)"
    using frame_trans [OF st(2) frame_trans [of c1 c2]] a(2) by (simp add: usage_change_def)
  moreover have "e_pending (st_energy (SetEnergyAccount ?acct c2)) = e_pending (st_energy c)"
    using a(2) st(5) by (simp add: usage_change_def same_books_def)
  moreover have "Consume K c signer g isDeploy urls = Inr (?res, SetEnergyAccount ?acct c2)"
    using Consume_drawn [OF _ _ _ s dr] True a(1) by simp
  ultimately show thesis using that [of ?res] kept_trans [OF st(1)] a(4) by simp
qed

lemma RefundEnergy_kept:
  assumes inv: "energy_inv K c" and res: "res_ok (st_energy c) (acc_string (codec K) signer) res"
  shows "kept K c (RefundEnergy K c signer amount res) \<and> frame c (RefundEnergy K c signer amount res) \<and>
    e_pending (st_energy (RefundEnergy K c signer amount res)) = e_pending (st_energy c)"
proof -
  let ?k = "acc_string (codec K) signer" and ?acct = "GetEnergyAccount K c signer"
  define am where "am = (if amount > saturatingAdd (OwnDeducted res) (DelegatedDeducted res)
      then saturatingAdd (OwnDeducted res) (DelegatedDeducted res) else amount)"
  define target where "target = minU64 am (DelegatedDeducted res)"
  obtain u c1 where r: "refund_loop (rev (DelegationConsumptions res)) target 0 c = (u, c1)" by fastforce
  have live: "\<forall>e \<in> set (rev (DelegationConsumptions res)). \<forall>d. GetDelegation c (fst e) = Some d \<longrightarrow> d_Delegatee d = ?k"
    using res by (simp add: res_ok_def GetDelegation_def)
  note e = refund_loop_effect [OF energy_invD(2) [OF inv] _ live r, simplified]
  have addr: "Address ?acct = ?k" by (simp add: energy_invD [OF inv])
  have pend: "e_pending (st_energy c1) = e_pending (st_energy c)" using e by (simp add: usage_change_def)
  have undo: "kept K c (SetEnergyAccount a c1)" "frame c (SetEnergyAccount a c1)"
    if "Address a = ?k" "DelegatedOut a = DelegatedOut ?acct" "LockedAtos a = LockedAtos ?acct"
      "DelegatedInUsable a = saturatingAdd (DelegatedInUsable ?acct) u" for a
  proof -
    show "kept K c (SetEnergyAccount a c1)"
      by (rule kept_usage [OF inv, where delta = "uint u"])
        (use e that account_books [of c K signer] in \<open>simp_all add: uint_saturatingAdd\<close>)
    show "frame c (SetEnergyAccount a c1)" by (rule frame_trans [of c c1]) (use e in \<open>simp_all add: usage_change_def\<close>)
  qed
  have own: "kept K c (SetEnergyAccount b c)"
    if "Address b = ?k" "DelegatedOut b = DelegatedOut ?acct" "LockedAtos b = LockedAtos ?acct"
      "DelegatedInUsable b = DelegatedInUsable ?acct" for b
    by (rule kept_usage [OF inv usage_change_refl, where delta = 0])
      (use that account_books [of c K signer] energy_invD [OF inv] in \<open>simp_all\<close>)
  have self: "kept K c c" using inv by (simp add: kept_def)
  show ?thesis
    unfolding RefundEnergy_def Let_def am_def [symmetric] target_def [symmetric] r prod.case
    using addr self by (auto simp: own undo pend split: if_splits)
qed


section \<open>Pending reservations\<close>

lemma kept_pending:
  assumes "energy_inv K c"
  shows "kept K c (upd_energy (\<lambda>s. s\<lparr>e_pending := f s\<rparr>) c)"
proof -
  let ?c = "upd_energy (\<lambda>s. s\<lparr>e_pending := f s\<rparr>) c"
  have "recs_ok (codec K) (st_energy ?c)" using energy_invD(2) [OF assms] recs_ok_cong [of "st_energy ?c" "st_energy c"] by simp
  moreover have "counters (st_energy ?c) = counters (st_energy c)" by (simp add: counters_def fun_eq_iff)
  ultimately have "energy_inv K ?c"
    using assms by (simp add: energy_inv_def backed_def accounts_ok_def in_usable_def lent_out_def locked_of_def
      in_sum_def out_sum_def lock_sum_def lock_total_def pool_balance_frame [OF frame_upd_energy])
  then show ?thesis by (simp add: kept_def ids_kept_same)
qed

text \<open>Every marker belongs to a reservation that was issued.\<close>

definition markers_in :: "addr_codec \<Rightarrow> energy_store \<Rightarrow> (string \<times> consume_result) set \<Rightarrow> bool" where
  "markers_in A s R \<longleftrightarrow>
     (\<forall>e \<in> set (e_pending s). canonical A (pr_Signer (snd e)) \<and> (pr_Signer (snd e), pr_ConsumeResult (snd e)) \<in> R)"

definition issued_ok :: "energy_store \<Rightarrow> (string \<times> consume_result) set \<Rightarrow> bool" where
  "issued_ok s R \<longleftrightarrow> (\<forall>(k, res) \<in> R. res_ok s k res)"

lemma issued_kept: "ids_kept s s' \<Longrightarrow> issued_ok s R \<Longrightarrow> issued_ok s' R"
  using res_ok_kept by (fastforce simp: issued_ok_def)

lemma SetPendingReservation_kept:
  assumes "energy_inv K c"
  shows "kept K c (SetPendingReservation K c h signer g res)" "frame c (SetPendingReservation K c h signer g res)"
    "set (e_pending (st_energy (SetPendingReservation K c h signer g res))) \<subseteq>
       insert (h, \<lparr> pr_Signer = acc_string (codec K) signer, pr_GasLimit = g, pr_ConsumeResult = res \<rparr>)
         (set (e_pending (st_energy c)))"
proof -
  have "kept K c c" using assms by (simp add: kept_def)
  then show "kept K c (SetPendingReservation K c h signer g res)"
    unfolding SetPendingReservation_def by (simp add: kept_pending [OF assms])
  show "frame c (SetPendingReservation K c h signer g res)" by (simp add: SetPendingReservation_def)
  show "set (e_pending (st_energy (SetPendingReservation K c h signer g res))) \<subseteq>
      insert (h, \<lparr> pr_Signer = acc_string (codec K) signer, pr_GasLimit = g, pr_ConsumeResult = res \<rparr>)
         (set (e_pending (st_energy c)))"
    using set_kv_set_subset [of h _ "e_pending (st_energy c)"] by (auto simp: SetPendingReservation_def)
qed

lemma DeletePendingReservation_kept:
  assumes "energy_inv K c"
  shows "kept K c (DeletePendingReservation c h)" "frame c (DeletePendingReservation c h)"
    "set (e_pending (st_energy (DeletePendingReservation c h))) \<subseteq> set (e_pending (st_energy c))"
proof -
  have "kept K c c" using assms by (simp add: kept_def)
  then show "kept K c (DeletePendingReservation c h)"
    unfolding DeletePendingReservation_def by (simp add: kept_pending [OF assms])
  show "frame c (DeletePendingReservation c h)" by (simp add: DeletePendingReservation_def)
  show "set (e_pending (st_energy (DeletePendingReservation c h))) \<subseteq> set (e_pending (st_energy c))"
    using set_kv_del_subset [of h "e_pending (st_energy c)"] by (auto simp: DeletePendingReservation_def)
qed

lemma refund_entry_kept:
  assumes inv: "energy_inv K c" and "res_ok (st_energy c) (acc_string (codec K) signer) res"
  shows "kept K c (refund_entry K (h, signer, g, res) c) \<and> frame c (refund_entry K (h, signer, g, res) c) \<and>
    set (e_pending (st_energy (refund_entry K (h, signer, g, res) c))) \<subseteq> set (e_pending (st_energy c))"
proof -
  let ?r = "saturatingAdd (OwnDeducted res) (DelegatedDeducted res)"
  let ?c1 = "if ?r > 0 then RefundEnergy K c signer ?r res else c"
  have 1: "kept K c ?c1" "frame c ?c1" "e_pending (st_energy ?c1) = e_pending (st_energy c)"
    using RefundEnergy_kept [OF assms] inv by (auto simp: kept_def)
  then have "energy_inv K ?c1" by (simp add: kept_def)
  note 2 = DeletePendingReservation_kept [OF this, of h]
  show ?thesis using kept_trans [OF 1(1) 2(1)] frame_trans [OF 1(2) 2(2)] 2(3) 1(3)
    by (simp add: refund_entry_def Let_def)
qed

lemma refund_fold_kept:
  assumes "energy_inv K c" "\<forall>(h, signer, g, res) \<in> set es. res_ok (st_energy c) (acc_string (codec K) signer) res"
  shows "kept K c (fold (refund_entry K) es c) \<and> frame c (fold (refund_entry K) es c) \<and>
    set (e_pending (st_energy (fold (refund_entry K) es c))) \<subseteq> set (e_pending (st_energy c))"
  using assms
proof (induction es arbitrary: c)
  case Nil
  then show ?case by (simp add: kept_def)
next
  case (Cons e es)
  obtain h signer g res where e: "e = (h, signer, g, res)" by (metis surj_pair)
  let ?c1 = "refund_entry K e c"
  have 1: "kept K c ?c1" "frame c ?c1" "set (e_pending (st_energy ?c1)) \<subseteq> set (e_pending (st_energy c))"
    using refund_entry_kept [OF Cons.prems(1)] Cons.prems(2) e by auto
  have k: "energy_inv K ?c1" "ids_kept (st_energy c) (st_energy ?c1)" using 1(1) by (simp_all add: kept_def)
  have "\<forall>(h, signer, g, res) \<in> set es. res_ok (st_energy ?c1) (acc_string (codec K) signer) res"
    using Cons.prems(2) res_ok_kept [OF k(2)] by auto
  from Cons.IH [OF k(1) this] show ?case
    using kept_trans [OF 1(1)] frame_trans [OF 1(2)] 1(3) by auto
qed

lemma refundFailed_kept:
  assumes inv: "energy_inv K c" and R: "markers_in (codec K) (st_energy c) R" "issued_ok (st_energy c) R"
  shows "kept K c (refundFailedTxReservations K c) \<and> frame c (refundFailedTxReservations K c) \<and>
    set (e_pending (st_energy (refundFailedTxReservations K c))) \<subseteq> set (e_pending (st_energy c))"
  unfolding refundFailedTxReservations_def
proof (rule refund_fold_kept [OF inv], clarify)
  fix h signer g res
  assume "(h, signer, g, res) \<in> set (IteratePendingReservations K c)"
  then obtain p where p: "(h, p) \<in> set (e_pending (st_energy c))" "acc_from_bech32 (codec K) (pr_Signer p) = Some signer"
      "res = pr_ConsumeResult p"
    by (auto simp: IteratePendingReservations_def List.map_filter_def)
  then have "canonical (codec K) (pr_Signer p)" "(pr_Signer p, res) \<in> R" using R(1) by (force simp: markers_in_def)+
  then show "res_ok (st_energy c) (acc_string (codec K) signer) res"
    using R(2) p(2) by (auto simp: canonical_def issued_ok_def)
qed

abbreviation pool :: "'x sdk \<Rightarrow> addr" where
  "pool K \<equiv> module_address K LockedEnergyPoolName"

section \<open>What a send leaves of the books\<close>

locale energy_hook =
  fixes H :: "'x sdk \<Rightarrow> 'x hook"
  assumes hook_keeps: "sdk_laws K \<Longrightarrow> accounts_ok (st_energy c) \<Longrightarrow> H K c f t cs = Inr (t', c') \<Longrightarrow>
    t' = t \<and> same_books (st_energy c) (st_energy c') \<and> pool_balance K c \<le> pool_balance K c' \<and>
    block_time c' = block_time c"
begin

lemma send_books:
  assumes "sdk_laws K" "accounts_ok (st_energy c)" "send_coins K (H K) c f t cs = Inr c'"
  shows "same_books (st_energy c) (st_energy c')" "block_time c' = block_time c"
    "pool_balance K c - (if f = pool K then AmountOf cs (base_denom K) else 0) +
       (if t = pool K then AmountOf cs (base_denom K) else 0) \<le> pool_balance K c'"
proof -
  note b = sdk_lawsD(1) [OF assms(1)]
  obtain x1 t' c2 x3 where s: "bank_sub K (ext c) f cs = Inr x1" "H K (c\<lparr>ext := x1\<rparr>) f t cs = Inr (t', c2)"
    "bank_add K (ext c2) t' cs = Inr x3" "c' = c2\<lparr>ext := x3\<rparr>"
    using send_coins_InrE [OF b assms(3)] by metis
  have h: "t' = t" "same_books (st_energy c) (st_energy c2)"
    "pool_balance K (c\<lparr>ext := x1\<rparr>) \<le> pool_balance K c2" "block_time c2 = block_time c"
    using hook_keeps [OF assms(1) _ s(2)] assms(2) by auto
  show "same_books (st_energy c) (st_energy c')" "block_time c' = block_time c" using h by (simp_all add: s(4))
  show "pool_balance K c - (if f = pool K then AmountOf cs (base_denom K) else 0) +
       (if t = pool K then AmountOf cs (base_denom K) else 0) \<le> pool_balance K c'"
    using h(1,3) bank_sub_law(3) [OF b s(1), of "pool K" "base_denom K"]
      bank_add_law(3) [OF b s(3), of "pool K" "base_denom K"]
    by (auto simp: pool_balance_def s(4))
qed

end

lemma energy_SendRestriction_keeps:
  assumes "accounts_ok (st_energy c)" "energy_SendRestriction K c f t cs = Inr (t', c')"
  shows "t' = t" "same_books (st_energy c) (st_energy c')" "frame c c'"
    "pool_balance K c' = pool_balance K c" "block_time c' = block_time c"
proof -
  show "t' = t" using assms(2) by (auto simp: energy_SendRestriction_def Let_def split: if_splits)
  have two: "same_books (st_energy c) (st_energy (ApplyBalanceChange K (ApplyBalanceChange K c a n) b m))" for a n b m
    using ApplyBalanceChange_books(1) [OF assms(1), of K a n]
      ApplyBalanceChange_books(1) [of "ApplyBalanceChange K c a n" K b m] assms(1) by (simp add: same_books_def)
  show "same_books (st_energy c) (st_energy c')"
    using assms(2) two by (auto simp: energy_SendRestriction_def Let_def split: if_splits)
  show fr: "frame c c'"
    using assms(2) frame_trans [OF ApplyBalanceChange_books(2) ApplyBalanceChange_books(2)]
    by (auto simp: energy_SendRestriction_def Let_def split: if_splits)
  show "pool_balance K c' = pool_balance K c" "block_time c' = block_time c"
    using fr by (simp_all add: pool_balance_frame frame_simps)
qed

interpretation restriction: energy_hook energy_SendRestriction
  by unfold_locales (simp add: energy_SendRestriction_keeps)

section \<open>Writing a settled account\<close>

lemma settle_write:
  assumes ok: "accounts_ok (st_energy c)" and s: "Settle K c x = (acct, c1)" and a: "Address a = Address acct"
  defines "c2 \<equiv> SetEnergyAccount a c1"
  shows "counters (st_energy c2) =
      (counters (st_energy c))(acc_string (codec K) x := (DelegatedOut a, DelegatedInUsable a, LockedAtos a))"
    "counters (st_energy c) (acc_string (codec K) x) = (DelegatedOut acct, DelegatedInUsable acct, LockedAtos acct)"
    "accounts_ok (st_energy c2)" "frame c c2"
    "e_delegations (st_energy c2) = e_delegations (st_energy c)" "e_by_expiry (st_energy c2) = e_by_expiry (st_energy c)"
    "e_by_delegator (st_energy c2) = e_by_delegator (st_energy c)"
    "e_by_delegatee (st_energy c2) = e_by_delegatee (st_energy c)" "e_next_id (st_energy c2) = e_next_id (st_energy c)"
    "e_pending (st_energy c2) = e_pending (st_energy c)" "e_params (st_energy c2) = e_params (st_energy c)"
proof -
  have b: "same_books (st_energy c) (st_energy c1)" using Settle_books [OF ok, of K x] s by simp
  have k: "Address acct = acc_string (codec K) x" using Settle_account(1) [OF ok, of K x] s by simp
  show "counters (st_energy c2) =
      (counters (st_energy c))(acc_string (codec K) x := (DelegatedOut a, DelegatedInUsable a, LockedAtos a))"
    using b a k by (simp add: c2_def counters_set same_books_def)
  show "counters (st_energy c) (acc_string (codec K) x) = (DelegatedOut acct, DelegatedInUsable acct, LockedAtos acct)"
    using Settle_account(2-4) [OF ok, of K x] s by (simp add: GetEnergyAccount_counters)
  show "accounts_ok (st_energy c2)" using b ok by (simp add: c2_def accounts_ok_set same_books_def)
  show "frame c c2" using settled_write_frame [OF s] by (simp add: c2_def)
qed (use Settle_books [OF ok, of K x] s in \<open>simp_all add: c2_def same_books_def\<close>)


section \<open>Adding and removing a record\<close>

definition same_records :: "energy_store \<Rightarrow> energy_store \<Rightarrow> bool" where
  "same_records s s' \<longleftrightarrow>
     e_delegations s' = e_delegations s \<and> e_by_expiry s' = e_by_expiry s \<and>
     e_by_delegator s' = e_by_delegator s \<and> e_by_delegatee s' = e_by_delegatee s \<and> e_next_id s' = e_next_id s"

lemma same_recordsD:
  assumes "same_records s s'"
  shows "recs_ok A s' = recs_ok A s" "in_sum s' = in_sum s" "out_sum s' = out_sum s" "lock_sum s' = lock_sum s"
    "lock_total s' = lock_total s"
  using assms recs_ok_cong [of s' s A]
  by (simp_all add: same_records_def in_sum_def out_sum_def lock_sum_def lock_total_def fun_eq_iff)

lemma records_books: "same_books s s' \<Longrightarrow> same_records s s'"
  by (simp add: same_books_def same_records_def)

text \<open>A record under the next id.\<close>

lemma new_record:
  assumes ok: "recs_ok A (st_energy c)" and i: "next_id (st_energy c) \<noteq> max_u64"
    and d: "d_Id d = next_id (st_energy c)" "d_Used d = 0" "0 \<le> d_LockedAtos d"
      "canonical A (d_Delegator d)" "canonical A (d_Delegatee d)"
  defines "s' \<equiv> st_energy (setDelegation d (snd (nextDelegationID c)))"
  shows "recs_ok A s'" "ids_kept (st_energy c) s'"
    "in_sum s' k = in_sum (st_energy c) k + (if k = d_Delegatee d then uint (d_Amount d) else 0)"
    "out_sum s' k = out_sum (st_energy c) k + (if k = d_Delegator d then uint (d_Amount d) else 0)"
    "lock_sum s' k = lock_sum (st_energy c) k + (if k = d_Delegator d then d_LockedAtos d else 0)"
    "lock_total s' = lock_total (st_energy c) + d_LockedAtos d"
proof -
  let ?c1 = "snd (nextDelegationID c)"
  have n1: "next_id (st_energy ?c1) = next_id (st_energy c) + 1"
    and r1: "e_delegations (st_energy ?c1) = e_delegations (st_energy c)"
      "e_by_expiry (st_energy ?c1) = e_by_expiry (st_energy c)"
      "e_by_delegator (st_energy ?c1) = e_by_delegator (st_energy c)"
      "e_by_delegatee (st_energy ?c1) = e_by_delegatee (st_energy c)"
    by (simp_all add: nextDelegationID_def Let_def next_id_def)
  have less: "next_id (st_energy c) < next_id (st_energy c) + 1"
    using u64_less_inc [OF i] .
  have fresh: "kv_get (e_delegations (st_energy c)) (d_Id d) = None"
    using recs_okD(2) [OF ok] d(1) by (cases "kv_get (e_delegations (st_energy c)) (d_Id d)") auto
  have ok1: "recs_ok A (st_energy ?c1)"
    using ok less unfolding recs_ok_def r1 n1 by (auto simp: record_ok_def)
  show "recs_ok A s'"
    unfolding s'_def using d fresh less n1 r1(1) by (intro recs_ok_set [OF ok1]) (auto simp: record_ok_def)
  show "ids_kept (st_energy c) s'"
    using d(1) less unfolding ids_kept_def s'_def by (auto simp: n1 r1 kv_get_set next_id_def [of "st_energy (setDelegation d ?c1)"] next_id_def [of "st_energy ?c1", symmetric])
  show "in_sum s' k = in_sum (st_energy c) k + (if k = d_Delegatee d then uint (d_Amount d) else 0)"
    "out_sum s' k = out_sum (st_energy c) k + (if k = d_Delegator d then uint (d_Amount d) else 0)"
    "lock_sum s' k = lock_sum (st_energy c) k + (if k = d_Delegator d then d_LockedAtos d else 0)"
    "lock_total s' = lock_total (st_energy c) + d_LockedAtos d"
    using total_fresh [OF recs_ok_inv [OF ok] fresh, of _ d] d(2)
    by (auto simp: in_sum_def out_sum_def lock_sum_def lock_total_def s'_def r1)
qed

lemma old_record:
  assumes ok: "recs_ok A (st_energy c)" and g: "GetDelegation c i = Some d"
  defines "s' \<equiv> st_energy (removeDelegation d c)"
  shows "recs_ok A s'" "ids_kept (st_energy c) s'"
    "in_sum s' k = in_sum (st_energy c) k - (if k = d_Delegatee d then uint (d_Amount d) - uint (d_Used d) else 0)"
    "out_sum s' k = out_sum (st_energy c) k - (if k = d_Delegator d then uint (d_Amount d) else 0)"
    "lock_sum s' k = lock_sum (st_energy c) k - (if k = d_Delegator d then d_LockedAtos d else 0)"
    "lock_total s' = lock_total (st_energy c) - d_LockedAtos d"
proof -
  have g': "kv_get (e_delegations (st_energy c)) i = Some d" using g by (simp add: GetDelegation_def)
  have i: "d_Id d = i" by (rule recs_okD(1) [OF ok g'])
  show "recs_ok A s'" unfolding s'_def by (rule recs_ok_remove [OF ok]) (simp add: i g')
  show "ids_kept (st_energy c) s'" by (auto simp: ids_kept_def s'_def next_id_def kv_get_del split: if_splits)
  show "in_sum s' k = in_sum (st_energy c) k - (if k = d_Delegatee d then uint (d_Amount d) - uint (d_Used d) else 0)"
    "out_sum s' k = out_sum (st_energy c) k - (if k = d_Delegator d then uint (d_Amount d) else 0)"
    "lock_sum s' k = lock_sum (st_energy c) k - (if k = d_Delegator d then d_LockedAtos d else 0)"
    "lock_total s' = lock_total (st_energy c) - d_LockedAtos d"
    using total_remove [OF recs_ok_inv [OF ok] g'] i
    by (auto simp: in_sum_def out_sum_def lock_sum_def lock_total_def s'_def)
qed

section \<open>Delegating\<close>

definition locked_for :: "energy_params \<Rightarrow> u64 \<Rightarrow> int" where
  "locked_for p amount =
     TxEnergyHoldingThreshold p * i64_of_u64 ((amount + TxEnergyPerThreshold p - 1) div TxEnergyPerThreshold p)"

definition delegation_of :: "'x sdk \<Rightarrow> int \<Rightarrow> u64 \<Rightarrow> addr \<Rightarrow> addr \<Rightarrow> u64 \<Rightarrow> int \<Rightarrow> int \<Rightarrow> energy_delegation" where
  "delegation_of K now did delegator delegatee amount locked duration =
     \<lparr> d_Id = did, d_Delegator = acc_string (codec K) delegator, d_Delegatee = acc_string (codec K) delegatee,
       d_Amount = amount, d_LockedAtos = locked, d_StartTime = now, d_ExpiresAt = wrap64 (now + duration), d_Used = 0 \<rparr>"

lemma Delegate_InrE:
  assumes "Delegate K H c delegator delegatee amount duration = Inr (did, locked, c')"
  obtains da c1 coins c3 de c4 where
    "amount \<noteq> 0" "0 < duration" "delegator \<noteq> delegatee" "locked = locked_for (energy_GetParams c) amount"
    "Settle K c delegator = (da, c1)" "DelegatedOut da \<le> TxEnergyAccrued da"
    "amount \<le> TxEnergyAccrued da - DelegatedOut da" "locked \<le> balance K c1 delegator (base_denom K)"
    "new_coins (base_denom K) locked = Inr coins"
    "send_to_module K H (SetEnergyAccount (da\<lparr>DelegatedOut := DelegatedOut da + amount,
       LockedAtos := LockedAtos da + locked\<rparr>) c1) delegator LockedEnergyPoolName coins = Inr c3"
    "Settle K c3 delegatee = (de, c4)" "did = next_id (st_energy c4)"
    "c' = setDelegation (delegation_of K (block_time c4) did delegator delegatee amount locked duration)
       (snd (nextDelegationID (SetEnergyAccount (de\<lparr>DelegatedInUsable := saturatingAdd (DelegatedInUsable de) amount\<rparr>) c4)))"
proof -
  obtain da c1 where s: "Settle K c delegator = (da, c1)" by fastforce
  let ?c2 = "SetEnergyAccount (da\<lparr>DelegatedOut := DelegatedOut da + amount,
       LockedAtos := LockedAtos da + locked_for (energy_GetParams c) amount\<rparr>) c1"
  obtain coins c3 where co: "new_coins (base_denom K) (locked_for (energy_GetParams c) amount) = Inr coins"
      "send_to_module K H ?c2 delegator LockedEnergyPoolName coins = Inr c3"
      "amount \<noteq> 0" "0 < duration" "delegator \<noteq> delegatee"
      "\<not> (if DelegatedOut da > TxEnergyAccrued da then 0 else TxEnergyAccrued da - DelegatedOut da) < amount"
      "\<not> balance K c1 delegator (base_denom K) < locked_for (energy_GetParams c) amount"
    using assms by (auto simp: Delegate_def s Let_def locked_for_def split: if_splits)
  obtain de c4 where s2: "Settle K c3 delegatee = (de, c4)" by fastforce
  have r: "did = next_id (st_energy c4)" "locked = locked_for (energy_GetParams c) amount"
    "c' = setDelegation (delegation_of K (block_time c4) did delegator delegatee amount locked duration)
       (snd (nextDelegationID (SetEnergyAccount (de\<lparr>DelegatedInUsable := saturatingAdd (DelegatedInUsable de) amount\<rparr>) c4)))"
    using assms co s2
    by (auto simp: Delegate_def s Let_def locked_for_def [symmetric] nextDelegationID_def next_id_def delegation_of_def
        frame_simps(2) [OF frame_set] frame_simps(2) [OF frame_upd_energy] split: if_splits)
  have "DelegatedOut da \<le> TxEnergyAccrued da" using co(3,6) by (auto simp: word_gt_0 split: if_splits)
  then show thesis using that [OF co(3-5) r(2) s _ _ _ _ _ s2 r(1) r(3)] co r(2) by (auto simp: not_less split: if_splits)
qed


lemma canonical_string: "addr_laws A \<Longrightarrow> a \<noteq> [] \<Longrightarrow> canonical A (acc_string A a)"
  by (auto simp: canonical_def addr_laws_def)

context energy_hook
begin

lemma Delegate_effect:
  assumes laws: "sdk_laws K" and inv: "energy_inv K c" and i: "next_id (st_energy c) \<noteq> max_u64"
    and addrs: "delegator \<noteq> []" "delegatee \<noteq> []" "delegator \<noteq> pool K"
    and del: "Delegate K (H K) c delegator delegatee amount duration = Inr (did, locked, c')"
  shows "recs_ok (codec K) (st_energy c')" "ids_kept (st_energy c) (st_energy c')" "accounts_ok (st_energy c')"
    "in_sum (st_energy c') k = in_sum (st_energy c) k + (if k = acc_string (codec K) delegatee then uint amount else 0)"
    "out_sum (st_energy c') k = out_sum (st_energy c) k + (if k = acc_string (codec K) delegator then uint amount else 0)"
    "lock_sum (st_energy c') k = lock_sum (st_energy c) k + (if k = acc_string (codec K) delegator then locked else 0)"
    "lock_total (st_energy c') = lock_total (st_energy c) + locked"
    "in_usable (st_energy c') k = (if k = acc_string (codec K) delegatee
       then saturatingAdd (in_usable (st_energy c) k) amount else in_usable (st_energy c) k)"
    "uint (lent_out (st_energy c') k) =
       uint (lent_out (st_energy c) k) + (if k = acc_string (codec K) delegator then uint amount else 0)"
    "locked_of (st_energy c') k = locked_of (st_energy c) k + (if k = acc_string (codec K) delegator then locked else 0)"
    "0 \<le> locked" "pool_balance K c + locked \<le> pool_balance K c'"
    "e_pending (st_energy c') = e_pending (st_energy c)" "block_time c' = block_time c"
proof -
  obtain da c1 coins c3 de c4 where d: "amount \<noteq> 0" "Settle K c delegator = (da, c1)"
    "DelegatedOut da \<le> TxEnergyAccrued da" "amount \<le> TxEnergyAccrued da - DelegatedOut da"
    "new_coins (base_denom K) locked = Inr coins"
    "send_to_module K (H K) (SetEnergyAccount (da\<lparr>DelegatedOut := DelegatedOut da + amount,
       LockedAtos := LockedAtos da + locked\<rparr>) c1) delegator LockedEnergyPoolName coins = Inr c3"
    "Settle K c3 delegatee = (de, c4)" "did = next_id (st_energy c4)"
    "c' = setDelegation (delegation_of K (block_time c4) did delegator delegatee amount locked duration)
       (snd (nextDelegationID (SetEnergyAccount (de\<lparr>DelegatedInUsable := saturatingAdd (DelegatedInUsable de) amount\<rparr>) c4)))"
    by (rule Delegate_InrE [OF del])
  let ?da = "da\<lparr>DelegatedOut := DelegatedOut da + amount, LockedAtos := LockedAtos da + locked\<rparr>"
  let ?de = "de\<lparr>DelegatedInUsable := saturatingAdd (DelegatedInUsable de) amount\<rparr>"
  let ?c2 = "SetEnergyAccount ?da c1" and ?c5 = "SetEnergyAccount ?de c4"
  let ?r = "delegation_of K (block_time c4) did delegator delegatee amount locked duration"
  let ?kd = "acc_string (codec K) delegator" and ?ke = "acc_string (codec K) delegatee"
  note b = sdk_lawsD [OF laws]
  note w2 = settle_write [OF energy_invD(1) [OF inv] d(2), of ?da, simplified]
  have locked: "0 \<le> locked" "AmountOf coins (base_denom K) = locked"
    using new_coins_Inr [OF d(5)] by auto
  note s3 = send_books [OF laws w2(3) send_to_module_InrD [OF b(1) d(6)]]
  have ok3: "accounts_ok (st_energy c3)" using s3(1) w2(3) by (simp add: same_books_def)
  note w5 = settle_write [OF ok3 d(7), of ?de, simplified]
  have c5: "counters (st_energy ?c5) = (counters (st_energy ?c2))(?ke := (DelegatedOut de, DelegatedInUsable ?de, LockedAtos de))"
    "counters (st_energy ?c2) ?ke = (DelegatedOut de, DelegatedInUsable de, LockedAtos de)"
    using w5(1,2) s3(1) by (simp_all add: same_books_def)
  have rec: "same_records (st_energy c) (st_energy ?c5)"
    using w2 w5 s3(1) by (simp add: same_records_def same_books_def)
  have id5: "next_id (st_energy ?c5) = next_id (st_energy c)" using rec by (simp add: same_records_def next_id_def)
  have did: "did = next_id (st_energy ?c5)" using d(8) Settle_books [OF ok3, of K delegatee] d(7)
    by (simp add: next_id_def same_books_def)
  have ok5: "recs_ok (codec K) (st_energy ?c5)" using same_recordsD(1) [OF rec] energy_invD(2) [OF inv] by simp
  note n = new_record [OF ok5, of ?r, unfolded d(9) [symmetric]]
  show "ids_kept (st_energy c) (st_energy c')"
    using ids_kept_trans [OF ids_kept_same n(2)] rec i id5 did locked canonical_string [OF b(2)] addrs
    by (simp add: same_records_def delegation_of_def)
  have acc: "e_accounts (st_energy c') = e_accounts (st_energy ?c5)" by (simp add: d(9) nextDelegationID_def Let_def)
  then have cnt: "counters (st_energy c') = counters (st_energy ?c5)" by (simp add: counters_def fun_eq_iff)
  show "accounts_ok (st_energy c')" using w5(3) acc by (simp add: accounts_ok_def)
  show "recs_ok (codec K) (st_energy c')"
    "in_sum (st_energy c') k = in_sum (st_energy c) k + (if k = ?ke then uint amount else 0)"
    "out_sum (st_energy c') k = out_sum (st_energy c) k + (if k = ?kd then uint amount else 0)"
    "lock_sum (st_energy c') k = lock_sum (st_energy c) k + (if k = ?kd then locked else 0)"
    "lock_total (st_energy c') = lock_total (st_energy c) + locked"
    using n i id5 did locked canonical_string [OF b(2)] addrs same_recordsD [OF rec]
    by (simp_all add: delegation_of_def)
  show "in_usable (st_energy c') k = (if k = ?ke then saturatingAdd (in_usable (st_energy c) k) amount else in_usable (st_energy c) k)"
    "locked_of (st_energy c') k = locked_of (st_energy c) k + (if k = ?kd then locked else 0)"
    using c5 w2(1,2) by (auto simp: in_usable_def locked_of_def cnt split: if_splits)
  have "lent_out (st_energy c') k = lent_out (st_energy c) k + (if k = ?kd then amount else 0)"
    using c5 w2(1,2) by (auto simp: lent_out_def cnt split: if_splits)
  moreover have "uint (lent_out (st_energy c) ?kd + amount) = uint (lent_out (st_energy c) ?kd) + uint amount"
    using d(3,4) w2(2) uint_minus_u64 [OF d(3)] uint_u64_less [of "TxEnergyAccrued da"]
    by (intro uint_plus_u64) (simp add: lent_out_def word_le_def)
  ultimately show "uint (lent_out (st_energy c') k) = uint (lent_out (st_energy c) k) + (if k = ?kd then uint amount else 0)"
    by simp
  have fr: "frame c3 c'" unfolding d(9) using w5(4)
    by (intro frame_trans [OF w5(4)] frame_trans [OF _ setDelegation_simps(9)]) (simp add: nextDelegationID_def Let_def)
  show "0 \<le> locked" by (rule locked(1))
  show "pool_balance K c + locked \<le> pool_balance K c'"
    using s3(3) addrs(3) locked pool_balance_frame [OF w2(4), of K] pool_balance_frame [OF fr, of K] by simp
  show "e_pending (st_energy c') = e_pending (st_energy c)"
    using w2(10) w5(10) s3(1) by (simp add: d(9) nextDelegationID_def Let_def same_books_def)
  show "block_time c' = block_time c" using frame_simps(2) [OF fr] s3(2) frame_simps(2) [OF w2(4)] by simp
qed

lemma Delegate_kept:
  assumes laws: "sdk_laws K" and inv: "energy_inv K c" and "next_id (st_energy c) \<noteq> max_u64"
    and "delegator \<noteq> []" "delegatee \<noteq> []" "delegator \<noteq> pool K"
    and "Delegate K (H K) c delegator delegatee amount duration = Inr (did, locked, c')"
  shows "kept K c c'"
proof -
  note e = Delegate_effect [OF assms]
  have bk: "backed (st_energy c)" by (rule energy_invD(3) [OF inv])
  have "backed (st_energy c')"
    using bk e(11) unfolding backed_def e(4-6,8-10) by (auto simp: uint_saturatingAdd intro: min.coboundedI1)
  then show ?thesis using e(1-3,7,12) energy_invD(4) [OF inv] by (simp add: kept_def energy_inv_def)
qed

end

section \<open>Releasing\<close>

lemma sums_nonneg:
  assumes "recs_ok A s"
  shows "0 \<le> in_sum s k" "0 \<le> out_sum s k" "0 \<le> lock_sum s k"
proof -
  have "record_ok A (next_id s) e" if "e \<in> set (e_delegations s)" for e
    using assms that by (simp add: recs_ok_def)
  then show "0 \<le> in_sum s k" "0 \<le> out_sum s k" "0 \<le> lock_sum s k"
    unfolding in_sum_def out_sum_def lock_sum_def kv.total_def
    by (auto intro!: sum_list_nonneg simp: record_ok_def word_le_def)
qed

text \<open>Only the counters of one account change, downwards.\<close>

lemma kept_counters:
  assumes inv: "energy_inv K c" and "frame c c'" and acc: "accounts_ok (st_energy c')"
    and rec: "same_records (st_energy c) (st_energy c')"
    and cnt: "\<And>k. in_usable (st_energy c') k \<le> in_usable (st_energy c) k"
      "\<And>k. lent_out (st_energy c') k \<le> lent_out (st_energy c) k"
      "\<And>k. 0 \<le> locked_of (st_energy c') k \<and> locked_of (st_energy c') k \<le> locked_of (st_energy c) k"
  shows "kept K c c'"
proof -
  have "backed (st_energy c')"
    using energy_invD(3) [OF inv] cnt unfolding backed_def same_recordsD [OF rec] word_le_def by (meson order_trans)
  then have "energy_inv K c'"
    using acc energy_invD(2,4) [OF inv] same_recordsD [OF rec] pool_balance_frame [OF assms(2)]
    by (simp add: energy_inv_def)
  then show ?thesis using ids_kept_same [of "st_energy c'" "st_energy c"] rec by (simp add: kept_def same_records_def)
qed

lemma release_delegator_simps:
  "Address (release_delegator d a) = Address a"
  "DelegatedInUsable (release_delegator d a) = DelegatedInUsable a"
  "DelegatedOut (release_delegator d a) = (if DelegatedOut a \<ge> d_Amount d then DelegatedOut a - d_Amount d else 0)"
  "LockedAtos (release_delegator d a) = (if LockedAtos a \<ge> d_LockedAtos d then LockedAtos a - d_LockedAtos d else 0)"
  by (simp_all add: release_delegator_def Let_def)

text \<open>The first half: the delegator's counters, before the refund.\<close>

lemma release_first:
  assumes inv: "energy_inv K c" and g: "GetDelegation c i = Some d"
    and p: "acc_from_bech32 (codec K) (d_Delegator d) = Some delegator"
    and s: "Settle K c delegator = (da, c1)"
  defines "c2 \<equiv> SetEnergyAccount (release_delegator d da) c1"
  shows "kept K c c2" "frame c c2" "same_records (st_energy c) (st_energy c2)" "accounts_ok (st_energy c2)"
    "e_pending (st_energy c2) = e_pending (st_energy c)"
    "in_usable (st_energy c2) k = in_usable (st_energy c) k"
    "uint (lent_out (st_energy c2) k) = (if k = d_Delegator d then max 0 (uint (lent_out (st_energy c) k) - uint (d_Amount d))
       else uint (lent_out (st_energy c) k))"
    "locked_of (st_energy c2) k = (if k = d_Delegator d then max 0 (locked_of (st_energy c) k - d_LockedAtos d)
       else locked_of (st_energy c) k)"
proof -
  have g': "kv_get (e_delegations (st_energy c)) i = Some d" using g by (simp add: GetDelegation_def)
  note r = recs_okD [OF energy_invD(2) [OF inv] g']
  have k: "acc_string (codec K) delegator = d_Delegator d" using r(5) p by (auto simp: canonical_def)
  note w = settle_write [OF energy_invD(1) [OF inv] s release_delegator_simps(1) [of d da], folded c2_def,
      unfolded release_delegator_simps k]
  show u: "in_usable (st_energy c2) k = in_usable (st_energy c) k"
    and o: "uint (lent_out (st_energy c2) k) = (if k = d_Delegator d then max 0 (uint (lent_out (st_energy c) k) - uint (d_Amount d))
       else uint (lent_out (st_energy c) k))"
    and l: "locked_of (st_energy c2) k = (if k = d_Delegator d then max 0 (locked_of (st_energy c) k - d_LockedAtos d)
       else locked_of (st_energy c) k)" for k
    using w(1,2) by (auto simp: in_usable_def lent_out_def locked_of_def uint_minus_u64 word_le_def max_def)
  show rec: "same_records (st_energy c) (st_energy c2)" using w by (simp add: same_records_def)
  show "frame c c2" "accounts_ok (st_energy c2)" "e_pending (st_energy c2) = e_pending (st_energy c)" using w by simp_all
  have lk: "0 \<le> locked_of (st_energy c) k" for k using energy_invD(3) [OF inv] by (simp add: backed_def)
  show "kept K c c2"
    by (rule kept_counters [OF inv w(4) w(3) rec])
      (use u o l lk r(4) uint_ge_0 [of "d_Amount d"] in \<open>auto simp: word_le_def max_def\<close>)
qed


text \<open>The second half, after the refund: the delegatee's counter and the record.\<close>

definition take_back :: "energy_delegation \<Rightarrow> energy_account \<Rightarrow> energy_account" where
  "take_back d a = a\<lparr>DelegatedInUsable :=
     (if DelegatedInUsable a \<ge> (if d_Amount d > d_Used d then d_Amount d - d_Used d else 0)
      then DelegatedInUsable a - (if d_Amount d > d_Used d then d_Amount d - d_Used d else 0) else 0)\<rparr>"

lemma take_back_simps [simp]:
  "Address (take_back d a) = Address a" "DelegatedOut (take_back d a) = DelegatedOut a"
  "LockedAtos (take_back d a) = LockedAtos a"
  by (simp_all add: take_back_def)

lemma take_back_in:
  assumes "d_Used d \<le> d_Amount d"
  shows "uint (DelegatedInUsable (take_back d a)) =
    max 0 (uint (DelegatedInUsable a) - (uint (d_Amount d) - uint (d_Used d)))"
proof -
  have "(if d_Amount d > d_Used d then d_Amount d - d_Used d else 0) = d_Amount d - d_Used d"
    using assms by (cases "d_Used d = d_Amount d") auto
  then show ?thesis using uint_minus_u64 [OF assms]
    by (auto simp: take_back_def uint_minus_u64 word_le_def max_def)
qed

lemma release_second:
  assumes inv: "energy_inv K c" and g: "GetDelegation c i = Some d"
    and c3: "same_records (st_energy c) (st_energy c3)" "accounts_ok (st_energy c3)"
      "pool_balance K c - d_LockedAtos d \<le> pool_balance K c3"
      "\<And>k. in_usable (st_energy c3) k = in_usable (st_energy c) k"
      "\<And>k. uint (lent_out (st_energy c3) k) = (if k = d_Delegator d then max 0 (uint (lent_out (st_energy c) k) - uint (d_Amount d))
         else uint (lent_out (st_energy c) k))"
      "\<And>k. locked_of (st_energy c3) k = (if k = d_Delegator d then max 0 (locked_of (st_energy c) k - d_LockedAtos d)
         else locked_of (st_energy c) k)"
    and s4: "Settle K c3 delegatee = (de, c4)" "acc_string (codec K) delegatee = d_Delegatee d"
  shows "kept K c (removeDelegation d (SetEnergyAccount (take_back d de) c4))"
proof -
  let ?c5 = "SetEnergyAccount (take_back d de) c4" and ?c' = "removeDelegation d (SetEnergyAccount (take_back d de) c4)"
  have g': "kv_get (e_delegations (st_energy c)) i = Some d" using g by (simp add: GetDelegation_def)
  note r = recs_okD [OF energy_invD(2) [OF inv] g']
  note w = settle_write [OF c3(2) s4(1) take_back_simps(1) [of d], unfolded s4(2)]
  have rec: "same_records (st_energy c) (st_energy ?c5)" using w c3(1) by (simp add: same_records_def)
  have ok5: "recs_ok (codec K) (st_energy ?c5)" using same_recordsD(1) [OF rec] energy_invD(2) [OF inv] by simp
  have "GetDelegation ?c5 i = Some d" using g' rec by (simp add: GetDelegation_def same_records_def)
  note o = old_record [OF ok5 this, unfolded same_recordsD [OF rec]]
  have cnt: "counters (st_energy ?c') = counters (st_energy ?c5)" by (simp add: counters_def fun_eq_iff)
  have in': "uint (in_usable (st_energy ?c') k) = (if k = d_Delegatee d
      then max 0 (uint (in_usable (st_energy c) k) - (uint (d_Amount d) - uint (d_Used d))) else uint (in_usable (st_energy c) k))"
    and out': "lent_out (st_energy ?c') k = lent_out (st_energy c3) k"
    and lk': "locked_of (st_energy ?c') k = locked_of (st_energy c3) k" for k
    using w(1,2) c3(4) [of k] take_back_in [OF r(3), of de]
    by (auto simp: in_usable_def lent_out_def locked_of_def cnt)
  have bk: "uint (in_usable (st_energy c) k) \<le> in_sum (st_energy c) k" "uint (lent_out (st_energy c) k) \<le> out_sum (st_energy c) k"
    "0 \<le> locked_of (st_energy c) k" "locked_of (st_energy c) k \<le> lock_sum (st_energy c) k" for k
    using energy_invD(3) [OF inv] by (simp_all add: backed_def)
  note nn = sums_nonneg [OF o(1), unfolded o(3-5)]
  have "backed (st_energy ?c')"
    unfolding backed_def
  proof (intro conjI allI)
    fix k
    show "uint (in_usable (st_energy ?c') k) \<le> in_sum (st_energy ?c') k"
      using bk(1) [of k] nn(1) [of k] unfolding in' o(3) by (auto split: if_splits)
    show "uint (lent_out (st_energy ?c') k) \<le> out_sum (st_energy ?c') k"
      using bk(2) [of k] nn(2) [of k] unfolding out' c3(5) o(4) by (auto split: if_splits)
    show "0 \<le> locked_of (st_energy ?c') k" "locked_of (st_energy ?c') k \<le> lock_sum (st_energy ?c') k"
      using bk(3,4) [of k] nn(3) [of k] unfolding lk' c3(6) o(5) by (auto split: if_splits)
  qed
  moreover have "pool_balance K ?c' = pool_balance K c3"
    by (rule pool_balance_frame, rule frame_trans [OF w(4)]) simp
  ultimately have "energy_inv K ?c'"
    using o(1,6) c3(3) energy_invD(4) [OF inv] w(3) by (simp add: energy_inv_def accounts_ok_def)
  then show ?thesis using ids_kept_trans [OF ids_kept_same o(2)] rec by (simp add: kept_def same_records_def)
qed

context energy_hook
begin

lemma release_kept:
  assumes laws: "sdk_laws K" and inv: "energy_inv K c" and g: "GetDelegation c i = Some d"
    and rel: "releaseDelegation K (H K) c d = (e, c')"
  shows "kept K c c' \<and> set (e_pending (st_energy c')) = set (e_pending (st_energy c)) \<and> block_time c' = block_time c"
proof -
  have g': "kv_get (e_delegations (st_energy c)) i = Some d" using g by (simp add: GetDelegation_def)
  note r = recs_okD [OF energy_invD(2) [OF inv] g'] and b = sdk_lawsD(1) [OF laws]
  obtain delegator delegatee where p: "acc_from_bech32 (codec K) (d_Delegator d) = Some delegator"
      "acc_from_bech32 (codec K) (d_Delegatee d) = Some delegatee" "acc_string (codec K) delegatee = d_Delegatee d"
    using r(5,6) by (auto simp: canonical_def)
  obtain da c1 where s: "Settle K c delegator = (da, c1)" by fastforce
  let ?c2 = "SetEnergyAccount (release_delegator d da) c1"
  note f = release_first [OF inv g p(1) s]
  define paid where "paid = (if d_LockedAtos d > 0
      then bindR (new_coins (base_denom K) (d_LockedAtos d)) (\<lambda>coins. send_from_module K (H K) ?c2 LockedEnergyPoolName delegator coins)
      else Inr ?c2)"
  show ?thesis
  proof (cases paid)
    case (Inl e')
    then have "c' = ?c2" using rel p s unfolding releaseDelegation_def Let_def paid_def by simp
    then show ?thesis using f frame_simps(2) [OF f(2)] by simp
  next
    case (Inr c3)
    have c3: "same_books (st_energy ?c2) (st_energy c3) \<and> block_time c3 = block_time ?c2 \<and>
      pool_balance K ?c2 - d_LockedAtos d \<le> pool_balance K c3"
    proof (cases "d_LockedAtos d > 0")
      case True
      then obtain coins where co: "new_coins (base_denom K) (d_LockedAtos d) = Inr coins"
          "send_from_module K (H K) ?c2 LockedEnergyPoolName delegator coins = Inr c3"
        using Inr by (auto simp: paid_def)
      have "AmountOf coins (base_denom K) = d_LockedAtos d" using new_coins_AmountOf [OF co(1), of "base_denom K"] by simp
      then show ?thesis using send_books [OF laws f(4) send_from_module_InrD [OF b co(2)]] True by (auto split: if_splits)
    qed (use Inr r(4) in \<open>auto simp: paid_def\<close>)
    obtain de c4 where s4: "Settle K c3 delegatee = (de, c4)" by fastforce
    have c': "c' = removeDelegation d (SetEnergyAccount (take_back d de) c4)"
      using rel p s s4 Inr unfolding releaseDelegation_def Let_def paid_def take_back_def by simp
    have cnt: "counters (st_energy c3) = counters (st_energy ?c2)" and acc: "accounts_ok (st_energy c3)"
      and rec: "same_records (st_energy c) (st_energy c3)"
      using c3 f(3,4) by (simp_all add: same_books_def same_records_def)
    have "kept K c c'"
      unfolding c' by (rule release_second [OF inv g rec acc _ _ _ _ s4 p(3)])
        (use c3 f(6-8) pool_balance_frame [OF f(2), of K] in \<open>simp_all add: in_usable_def lent_out_def locked_of_def cnt\<close>)
    moreover have "e_pending (st_energy c') = e_pending (st_energy c)" "block_time c' = block_time c"
      using settle_write(10) [OF acc s4 take_back_simps(1) [of d]] c3 f(5) frame_simps(2) [OF f(2)]
        frame_simps(2) [OF frame_trans [OF settle_write(4) [OF acc s4 take_back_simps(1) [of d]] removeDelegation_simps(9)]]
      by (simp_all add: c' same_books_def)
    ultimately show ?thesis by simp
  qed
qed

end

context energy_hook
begin

lemma sweep_kept:
  assumes "sdk_laws K" "energy_inv K c"
  shows "kept K c (sweep_loop K (H K) ids c) \<and>
    set (e_pending (st_energy (sweep_loop K (H K) ids c))) = set (e_pending (st_energy c)) \<and>
    block_time (sweep_loop K (H K) ids c) = block_time c"
  using assms(2)
proof (induction ids arbitrary: c)
  case Nil
  then show ?case by (simp add: kept_def)
next
  case (Cons i ids)
  show ?case
  proof (cases "GetDelegation c i")
    case None
    then show ?thesis using Cons by simp
  next
    case (Some d)
    obtain e c1 where r: "releaseDelegation K (H K) c d = (e, c1)" by fastforce
    note k = release_kept [OF assms(1) Cons.prems Some r]
    then have "energy_inv K c1" by (simp add: kept_def)
    from Cons.IH [OF this] show ?thesis using k Some r kept_trans [of K c c1] by auto
  qed
qed

lemma Undelegate_kept:
  assumes "sdk_laws K" "energy_inv K c" "Undelegate K (H K) c delegator i = Inr c'"
  shows "kept K c c' \<and> set (e_pending (st_energy c')) = set (e_pending (st_energy c)) \<and> block_time c' = block_time c"
proof -
  obtain d where d: "GetDelegation c i = Some d" "releaseDelegation K (H K) c d = (None, c')"
    using assms(3) by (auto simp: Undelegate_def split: option.splits if_splits prod.splits)
  show ?thesis by (rule release_kept [OF assms(1,2) d])
qed

lemma EndBlocker_kept:
  assumes "sdk_laws K" "energy_inv K c" "markers_in (codec K) (st_energy c) R" "issued_ok (st_energy c) R"
  shows "kept K c (energy_EndBlocker K (H K) c) \<and>
    set (e_pending (st_energy (energy_EndBlocker K (H K) c))) \<subseteq> set (e_pending (st_energy c))"
proof (cases "EnergyEnabled (energy_GetParams c)")
  case True
  let ?c1 = "SweepExpiredDelegations K (H K) c"
  have k: "kept K c ?c1" "set (e_pending (st_energy ?c1)) = set (e_pending (st_energy c))"
    using sweep_kept [OF assms(1,2)] by (simp_all add: SweepExpiredDelegations_def)
  have i: "energy_inv K ?c1" "ids_kept (st_energy c) (st_energy ?c1)" using k(1) by (simp_all add: kept_def)
  have "markers_in (codec K) (st_energy ?c1) R" "issued_ok (st_energy ?c1) R"
    using assms(3,4) k(2) issued_kept [OF i(2)] by (simp_all add: markers_in_def)
  from refundFailed_kept [OF i(1) this] show ?thesis
    using True k kept_trans [OF k(1)] by (simp add: energy_EndBlocker_def)
next
  case False
  then show ?thesis using assms(2) by (simp add: energy_EndBlocker_def kept_def)
qed

lemma send_kept:
  assumes "sdk_laws K" "energy_inv K c" "send_coins K (H K) c f t cs = Inr c'" "f \<noteq> pool K"
    "0 \<le> AmountOf cs (base_denom K)"
  shows "kept K c c' \<and> e_pending (st_energy c') = e_pending (st_energy c)"
proof -
  note s = send_books [OF assms(1) energy_invD(1) [OF assms(2)] assms(3)]
  have "pool_balance K c \<le> pool_balance K c'" using s(3) assms(4,5) by (auto split: if_splits)
  then show ?thesis using kept_books [OF assms(2) s(1)] s(1) by (simp add: same_books_def)
qed

end

section \<open>The transaction pipeline\<close>

text \<open>A fee grant is spent outside the module; it moves no coin and touches neither staking nor accounts.\<close>

definition grant_law :: "'x sdk \<Rightarrow> 'x ante_env \<Rightarrow> bool" where
  "grant_law K E \<longleftrightarrow> (\<forall>c g p cs c'. use_granted_fees E c g p cs = Inr c' \<longrightarrow>
     (\<exists>y. c' = c\<lparr>ext := y\<rparr> \<and> same_rest K (ext c) y \<and> (\<forall>d. bank_supply K y d = bank_supply K (ext c) d) \<and>
        (\<forall>a d. bank_balance K y a d = bank_balance K (ext c) a d)))"

lemma grant_kept:
  assumes "grant_law K E" "energy_inv K c" "use_granted_fees E c g p cs = Inr c'"
  shows "kept K c c'" "e_pending (st_energy c') = e_pending (st_energy c)"
proof -
  obtain y where y: "c' = c\<lparr>ext := y\<rparr>" "bank_balance K y a d = bank_balance K (ext c) a d" for a d
    using assms(1,3) unfolding grant_law_def by metis
  then show "kept K c c'" by (intro kept_books [OF assms(2)]) (simp_all add: pool_balance_def)
  show "e_pending (st_energy c') = e_pending (st_energy c)" by (simp add: y(1))
qed

lemma computeShortfallFee_coins:
  "computeShortfallFee K c g fee limit = Inr cs \<Longrightarrow> cs = [] \<or> (\<exists>a. 0 < a \<and> cs = [(base_denom K, a)])"
  by (auto simp: computeShortfallFee_def new_coins_def Let_def split: if_splits)

context energy_hook
begin

lemma charge_kept:
  assumes laws: "sdk_laws K" "grant_law K E" and inv: "energy_inv K c" and who: "who \<noteq> pool K"
    and fee: "computeShortfallFee K c g fee limit = Inr cs"
    and grant: "c3 = c \<or> use_granted_fees E c granter payer cs = Inr c3"
    and send: "send_to_module K (H K) c3 who FeeCollectorName cs = Inr c'"
  shows "kept K c c' \<and> e_pending (st_energy c') = e_pending (st_energy c)"
proof -
  have c3: "kept K c c3" "e_pending (st_energy c3) = e_pending (st_energy c)"
    using grant inv grant_kept [OF laws(2) inv] by (auto simp: kept_def)
  then have "energy_inv K c3" by (simp add: kept_def)
  moreover have "0 \<le> AmountOf cs (base_denom K)" using computeShortfallFee_coins [OF fee] by auto
  ultimately have "kept K c3 c' \<and> e_pending (st_energy c') = e_pending (st_energy c3)"
    by (intro send_kept [OF laws(1) _ send_to_module_InrD [OF sdk_lawsD(1) [OF laws(1)] send] who])
  then show ?thesis using c3 kept_trans by auto
qed

lemma AnteHandle_kept:
  assumes laws: "sdk_laws K" "grant_law K E" and inv: "energy_inv K c"
    and ante: "energy_AnteHandle K (H K) E c tx simulate = Inr (out, c')" and signer: "a_signer out \<noteq> pool K"
  shows "kept K c c' \<and> res_ok (st_energy c') (acc_string (codec K) (a_signer out)) (a_reserved out) \<and> a_signer out \<noteq> [] \<and>
    (\<forall>e \<in> set (e_pending (st_energy c')). e \<in> set (e_pending (st_energy c)) \<or>
       pr_Signer (snd e) = acc_string (codec K) (a_signer out) \<and> pr_ConsumeResult (snd e) = a_reserved out)"
proof -
  define who where "who = (if tx_fee_granter tx \<noteq> [] then tx_fee_granter tx else tx_fee_payer tx)"
  define probe where "probe = (if simulate \<and> tx_gas tx = 0 then 1 else tx_gas tx)"
  obtain res c1 where co: "Consume K c who probe (isContractDeployMsg (tx_msg_urls tx)) (tx_msg_urls tx) = Inr (res, c1)"
      "kept K c c1" "e_pending (st_energy c1) = e_pending (st_energy c)" "res_ok (st_energy c1) (acc_string (codec K) who) res"
    using Consume_kept [OF inv] by metis
  have inv1: "energy_inv K c1" using co(2) by (simp add: kept_def)
  define c2 where "c2 = (if \<not> Free res \<and> \<not> simulate
      then SetPendingReservation K c1 (txHashFromCtx E c1) who (tx_gas tx) res else c1)"
  have c2: "kept K c1 c2" "\<forall>e \<in> set (e_pending (st_energy c2)). e \<in> set (e_pending (st_energy c)) \<or>
       pr_Signer (snd e) = acc_string (codec K) who \<and> pr_ConsumeResult (snd e) = res"
    using SetPendingReservation_kept [OF inv1, of "txHashFromCtx E c1" who "tx_gas tx" res] inv1 co(3)
    by (auto simp: c2_def kept_def)
  have out: "a_signer out = who" "a_reserved out = res" "who \<noteq> []"
    using ante co(1) unfolding energy_AnteHandle_def Let_def who_def [symmetric] probe_def [symmetric]
    by (auto split: if_splits sum.splits prod.splits)
  have inv2: "energy_inv K c2" using c2(1) by (simp add: kept_def)
  have self: "kept K c2 c2" using inv2 by (simp add: kept_def)
  have charge: "kept K c2 c'" "e_pending (st_energy c') = e_pending (st_energy c2)"
    if "send_to_module K (H K) c3 who FeeCollectorName cs = Inr c'"
      "computeShortfallFee K c2 (ShortfallGas res) (tx_fee tx) (tx_gas tx) = Inr cs"
      "c3 = c2 \<or> use_granted_fees E c2 (tx_fee_granter tx) (tx_fee_payer tx) cs = Inr c3" for c3 cs
    using charge_kept [OF laws inv2 signer [unfolded out(1)] that(2,3,1)] by simp_all
  have k2: "kept K c2 c'" "e_pending (st_energy c') = e_pending (st_energy c2)"
    using ante self unfolding energy_AnteHandle_def Let_def who_def [symmetric] probe_def [symmetric] co(1)
      bindR_simps(2) prod.case c2_def [symmetric]
    by (auto split: if_splits sum.splits) (blast intro: charge)+
  have "ids_kept (st_energy c1) (st_energy c')" using c2(1) k2 by (auto simp: kept_def intro: ids_kept_trans)
  then show ?thesis using out co(2,4) c2 k2 kept_trans [OF kept_trans [OF co(2) c2(1)]] res_ok_kept by auto
qed

end

end
