(* ===== verification/EnergySafe.thy ===== *)
theory EnergySafe
  imports EnergyInv
begin

text \<open>
  The safe states of the energy module, and that every message, block hook and decorator keeps a state
  safe, for every send restriction that satisfies \<open>energy_hook\<close>.  A reservation that was issued may be
  refunded at any later point, so safety speaks about the set of reservations issued so far.
\<close>

lemma PostHandle_kept:
  assumes inv: "energy_inv K c"
    and res: "\<And>out. stash = Some out \<Longrightarrow> res_ok (st_energy c) (acc_string (codec K) (a_signer out)) (a_reserved out)"
  shows "kept K c (energy_PostHandle K E c stash used limit)"
    "set (e_pending (st_energy (energy_PostHandle K E c stash used limit))) \<subseteq> set (e_pending (st_energy c))"
proof -
  have "\<exists>c1. energy_PostHandle K E c stash used limit = DeletePendingReservation c1 (txHashFromCtx E c) \<and>
      (c1 = c \<or> (\<exists>out amount. stash = Some out \<and> c1 = RefundEnergy K c (a_signer out) amount (a_reserved out)))"
    unfolding energy_PostHandle_def Let_def
    by (intro exI conjI, rule refl) (auto split: option.splits if_splits)
  then obtain c1 where c1: "energy_PostHandle K E c stash used limit = DeletePendingReservation c1 (txHashFromCtx E c)"
      "c1 = c \<or> (\<exists>out amount. stash = Some out \<and> c1 = RefundEnergy K c (a_signer out) amount (a_reserved out))"
    by blast
  have k: "kept K c c1" "e_pending (st_energy c1) = e_pending (st_energy c)"
    using c1(2) RefundEnergy_kept [OF inv res] inv by (auto simp: kept_def)
  then have "energy_inv K c1" by (simp add: kept_def)
  note d = DeletePendingReservation_kept [OF this, of "txHashFromCtx E c"]
  show "kept K c (energy_PostHandle K E c stash used limit)"
    "set (e_pending (st_energy (energy_PostHandle K E c stash used limit))) \<subseteq> set (e_pending (st_energy c))"
    using kept_trans [OF k(1) d(1)] d(3) k(2) by (simp_all add: c1(1))
qed

section \<open>Safe states\<close>

definition empty_energy :: energy_store where
  "empty_energy = \<lparr> e_params = None, e_accounts = [], e_delegations = [], e_by_expiry = [], e_by_delegator = [],
     e_by_delegatee = [], e_next_id = None, e_pending = [] \<rparr>"

definition energy_safe :: "'x sdk \<Rightarrow> 'x ctx \<Rightarrow> (string \<times> consume_result) set \<Rightarrow> bool" where
  "energy_safe K c R \<longleftrightarrow> energy_inv K c \<and> markers_in (codec K) (st_energy c) R \<and> issued_ok (st_energy c) R"

lemma energy_safe_kept:
  assumes "energy_safe K c R" "kept K c c'" "set (e_pending (st_energy c')) \<subseteq> set (e_pending (st_energy c))"
  shows "energy_safe K c' R"
  using assms issued_kept by (fastforce simp: energy_safe_def kept_def markers_in_def)

lemma energy_safeD: "energy_safe K c R \<Longrightarrow> energy_inv K c"
  by (simp add: energy_safe_def)

lemma energy_safe_refresh:
  assumes "energy_safe K c R" "same_books (st_energy c) (st_energy c')" "frame c c'"
  shows "energy_safe K c' R"
  using energy_safe_kept [OF assms(1) kept_refresh] assms by (simp add: energy_safe_def same_books_def)

lemma energy_safe_params:
  assumes "energy_safe K c R"
  shows "energy_safe K (upd_energy (\<lambda>s. s\<lparr>e_params := f s\<rparr>) c) R"
proof (rule energy_safe_kept [OF assms kept_counters])
  show "energy_inv K c" using assms by (simp add: energy_safe_def)
qed (use assms in \<open>simp_all add: energy_safe_def energy_inv_def backed_def accounts_ok_def same_records_def
  in_usable_def lent_out_def locked_of_def counters_def\<close>)

lemma fold_snapshot:
  "accounts_ok (st_energy c) \<Longrightarrow> same_books (st_energy c) (st_energy (fold (refresh_snapshot K) as c))"
  "frame c (fold (refresh_snapshot K) as c)"
proof -
  have "fold (refresh_snapshot K) as c = fold op_Snapshot (map (Pair K) as) c"
    by (simp add: fold_map op_Snapshot_def comp_def)
  then show "accounts_ok (st_energy c) \<Longrightarrow> same_books (st_energy c) (st_energy (fold (refresh_snapshot K) as c))"
    "frame c (fold (refresh_snapshot K) as c)"
    by (simp_all add: snapshot.fold_books snapshot.fold_frame)
qed

lemma hooks_safe:
  assumes "energy_safe K c R"
  shows "energy_safe K (hooks_refresh K c a) R"
proof -
  have "accounts_ok (st_energy c)" using assms by (simp add: energy_safe_def energy_inv_def)
  then show ?thesis
    unfolding hooks_refresh_def using assms energy_safe_refresh [OF assms ApplyStakedChange_books] by simp
qed

context energy_hook
begin

lemma ante_safe:
  assumes laws: "sdk_laws K" "grant_law K E" and safe: "energy_safe K c R"
    and ante: "energy_AnteHandle K (H K) E c tx simulate = Inr (out, c')" "a_signer out \<noteq> pool K"
  shows "energy_safe K c' (insert (acc_string (codec K) (a_signer out), a_reserved out) R)"
proof -
  have i: "energy_inv K c" "markers_in (codec K) (st_energy c) R" "issued_ok (st_energy c) R"
    using safe by (simp_all add: energy_safe_def)
  note k = AnteHandle_kept [OF laws i(1) ante]
  have "canonical (codec K) (acc_string (codec K) (a_signer out))"
    using canonical_string [OF sdk_lawsD(2) [OF laws(1)]] k by blast
  then show ?thesis using k i issued_kept [OF _ i(3)]
    by (fastforce simp: energy_safe_def kept_def markers_in_def issued_ok_def)
qed

lemma delegate_safe:
  assumes laws: "sdk_laws K" and safe: "energy_safe K c R" and del: "DelegateEnergy K (H K) c msg = Inr (did, locked, c')"
    "next_id (st_energy c) \<noteq> max_u64" "acc_from_bech32 (codec K) (md_Delegator msg) \<noteq> Some (pool K)"
  shows "energy_safe K c' R"
proof -
  obtain delegator delegatee duration where d: "acc_from_bech32 (codec K) (md_Delegator msg) = Some delegator"
      "acc_from_bech32 (codec K) (md_Delegatee msg) = Some delegatee"
      "Delegate K (H K) c delegator delegatee (md_Amount msg) duration = Inr (did, locked, c')"
    using del(1) by (auto simp: DelegateEnergy_def Let_def split: option.splits if_splits)
  have "delegator \<noteq> []" "delegatee \<noteq> []" "delegator \<noteq> pool K"
    using d(1,2) del(3) sdk_lawsD(2) [OF laws] by (auto simp: addr_laws_def)
  then show ?thesis
    using Delegate_kept [OF laws energy_safeD [OF safe] del(2) _ _ _ d(3)]
      Delegate_effect(13) [OF laws energy_safeD [OF safe] del(2) _ _ _ d(3)] energy_safe_kept [OF safe] by simp
qed

lemma undelegate_safe:
  assumes laws: "sdk_laws K" and safe: "energy_safe K c R" and un: "UndelegateEnergy K (H K) c who did = Inr c'"
  shows "energy_safe K c' R"
proof -
  obtain delegator where "Undelegate K (H K) c delegator did = Inr c'"
    using un by (auto simp: UndelegateEnergy_def split: option.splits)
  from Undelegate_kept [OF laws energy_safeD [OF safe] this] show ?thesis
    using energy_safe_kept [OF safe] by simp
qed

lemma energy_end_safe:
  assumes laws: "sdk_laws K" and safe: "energy_safe K c R"
  shows "energy_safe K (energy_EndBlocker K (H K) c) R"
proof -
  have "markers_in (codec K) (st_energy c) R" "issued_ok (st_energy c) R"
    using safe by (simp_all add: energy_safe_def)
  from EndBlocker_kept [OF laws energy_safeD [OF safe] this] show ?thesis
    using energy_safe_kept [OF safe] by simp
qed

end

lemma post_safe:
  assumes safe: "energy_safe K c R"
    and issued: "\<And>out. stash = Some out \<Longrightarrow> (acc_string (codec K) (a_signer out), a_reserved out) \<in> R"
  shows "energy_safe K (energy_PostHandle K E c stash used limit) R"
proof -
  have "res_ok (st_energy c) (acc_string (codec K) (a_signer out)) (a_reserved out)" if "stash = Some out" for out
    using safe issued [OF that] by (auto simp: energy_safe_def issued_ok_def)
  from PostHandle_kept [OF energy_safeD [OF safe] this] show ?thesis by (rule energy_safe_kept [OF safe])
qed

lemma energy_params_safe:
  assumes "energy_safe K c R" "energy_UpdateParams K authority c signer p = Inr c'"
  shows "energy_safe K c' R" "frame c c'"
  using assms by (auto simp: energy_UpdateParams_def energy_SetParams_def energy_safe_params split: if_splits)

lemma migrate_safe:
  assumes "energy_safe K c R" "RefreshAllSnapshots K c = (n, c')"
  shows "energy_safe K c' R" "frame c c'"
proof -
  have "accounts_ok (st_energy c)" using assms(1) by (simp add: energy_safe_def energy_inv_def)
  then show "energy_safe K c' R" "frame c c'" using assms(2) energy_safe_refresh [OF assms(1)] fold_snapshot [of c K]
    by (auto simp: RefreshAllSnapshots_def Let_def)
qed

end
