(* ===== verification/AtoxBook.thy ===== *)
theory AtoxBook
  imports AtoxTypes Complex_Main
begin

text \<open>
  The conversion of ATOX into ATOS as an abstract book, and its solvency.  The book has one operation
  per thing the module does to the accumulator (settle, transfer, issue, release, pay, burn), and
  \<open>book_sound\<close> is the invariant that every one of them keeps; \<open>book_solvent\<close> is what it promises.
  \<open>AtoxRefine.thy\<close> proves that the keeper implements these operations.
\<close>

section \<open>The abstract book\<close>

text \<open>
  What the conversion is about, without the bank and the store: the accumulator, and per address the
  ATOX balance, the index of the last settlement and the booked claim.
\<close>

record book =
  bk_state :: global_state
  bk_index :: "addr \<Rightarrow> int"
  bk_pending :: "addr \<Rightarrow> int"
  bk_balance :: "addr \<Rightarrow> int"
  bk_supply :: int
  bk_module :: "addr \<Rightarrow> bool"
  bk_pool :: int

definition owed_floor :: "int \<Rightarrow> int \<Rightarrow> int \<Rightarrow> int" where
  "owed_floor bal ai gi =
     (if bal \<le> 0 \<or> gi \<le> ai \<or> decP \<le> ai then 0 else min (bal * (gi - ai) div (decP - ai)) bal)"

definition settle_spec :: "addr \<Rightarrow> int \<Rightarrow> book \<Rightarrow> book" where
  "settle_spec a bal s =
     (if bk_module s a then s
      else let n = owed_floor bal (bk_index s a) (GlobalIndex (bk_state s)) in
        s\<lparr>bk_state := (bk_state s)\<lparr>TotalBurned := TotalBurned (bk_state s) + n,
                                   TotalPending := TotalPending (bk_state s) + n\<rparr>,
          bk_index := (bk_index s)(a := GlobalIndex (bk_state s)),
          bk_pending := (bk_pending s)(a := bk_pending s a + n),
          bk_balance := (bk_balance s)(a := bk_balance s a - n),
          bk_supply := bk_supply s - n\<rparr>)"

definition move_spec :: "addr \<Rightarrow> addr \<Rightarrow> int \<Rightarrow> book \<Rightarrow> book" where
  "move_spec f t m s =
     s\<lparr>bk_balance := (\<lambda>b. bk_balance s b - (if b = f then m else 0) + (if b = t then m else 0))\<rparr>"

definition send_spec :: "addr \<Rightarrow> addr \<Rightarrow> int \<Rightarrow> book \<Rightarrow> book" where
  "send_spec f t m s =
     (if m \<le> 0 \<or> f = t then s
      else let s1 = settle_spec f (bk_balance s f) s in
        move_spec f t m (settle_spec t (bk_balance s1 t) s1))"

definition issue_spec :: "addr \<Rightarrow> int \<Rightarrow> book \<Rightarrow> book" where
  "issue_spec t m s = s\<lparr>bk_balance := (bk_balance s)(t := bk_balance s t + m), bk_supply := bk_supply s + m\<rparr>"

definition release_spec :: "int \<Rightarrow> int \<Rightarrow> int \<Rightarrow> book \<Rightarrow> book" where
  "release_spec amount delta r s =
     s\<lparr>bk_state := (bk_state s)\<lparr>GlobalIndex := GlobalIndex (bk_state s) + delta, IndexRemainder := r,
                                TotalReleasedToPool := TotalReleasedToPool (bk_state s) + amount\<rparr>,
       bk_pool := bk_pool s + amount\<rparr>"

definition pay_spec :: "addr \<Rightarrow> book \<Rightarrow> book" where
  "pay_spec a s =
     s\<lparr>bk_state := (bk_state s)\<lparr>TotalPending := TotalPending (bk_state s) - bk_pending s a,
                                TotalPaidOut := TotalPaidOut (bk_state s) + bk_pending s a\<rparr>,
       bk_pending := (bk_pending s)(a := 0),
       bk_pool := bk_pool s - bk_pending s a\<rparr>"

definition burn_spec :: "addr \<Rightarrow> int \<Rightarrow> book \<Rightarrow> book" where
  "burn_spec a m s = s\<lparr>bk_balance := (bk_balance s)(a := bk_balance s a - m), bk_supply := bk_supply s - m\<rparr>"

section \<open>Solvency of the book\<close>

text \<open>The exact value, as a real number, of what an account has accrued and not settled.\<close>

definition reached :: "book \<Rightarrow> int" where
  "reached s = min (GlobalIndex (bk_state s)) decP"

definition accrued :: "book \<Rightarrow> addr \<Rightarrow> real" where
  "accrued s a =
     (if decP \<le> bk_index s a then 0
      else real_of_int (bk_balance s a) * (reached s - bk_index s a) / (decP - bk_index s a))"

text \<open>
  The invariant.  The two bounds that carry it: what was burned for claims and what all holders have
  accrued together stay below the share of the cap the index has reached, and what was burned and all
  balances together stay below the cap.
\<close>

definition ledger_sound :: "int \<Rightarrow> book \<Rightarrow> bool" where
  "ledger_sound C s \<longleftrightarrow>
     0 < C \<and> 0 \<le> GlobalIndex (bk_state s) \<and> 0 \<le> IndexRemainder (bk_state s) \<and>
     GlobalIndex (bk_state s) * C + IndexRemainder (bk_state s) = TotalReleasedToPool (bk_state s) * decP \<and>
     TotalPending (bk_state s) + TotalPaidOut (bk_state s) = TotalBurned (bk_state s) \<and>
     TotalReleasedToPool (bk_state s) \<le> bk_pool s + TotalPaidOut (bk_state s) \<and>
     bk_supply s + TotalBurned (bk_state s) \<le> C"

definition accounts_sound :: "book \<Rightarrow> bool" where
  "accounts_sound s \<longleftrightarrow>
     (\<forall>a. 0 \<le> bk_index s a \<and> bk_index s a \<le> GlobalIndex (bk_state s)) \<and>
     (\<forall>a. 0 \<le> bk_balance s a) \<and> (\<forall>a. 0 \<le> bk_pending s a) \<and>
     (\<forall>A. finite A \<longrightarrow> sum (bk_pending s) A \<le> TotalPending (bk_state s)) \<and>
     (\<forall>A. finite A \<longrightarrow> sum (bk_balance s) A \<le> bk_supply s)"

definition share_sound :: "int \<Rightarrow> book \<Rightarrow> bool" where
  "share_sound C s \<longleftrightarrow>
     (\<forall>A. finite A \<longrightarrow> (\<forall>a \<in> A. \<not> bk_module s a) \<longrightarrow>
        TotalBurned (bk_state s) + sum (accrued s) A \<le> real_of_int (reached s) * C / decP)"

definition book_sound :: "int \<Rightarrow> book \<Rightarrow> bool" where
  "book_sound C s \<longleftrightarrow> ledger_sound C s \<and> accounts_sound s \<and> share_sound C s"

lemma real_decP [simp]: "0 < real_of_int decP"
  by simp

lemma owed_floor_nonneg: "0 \<le> owed_floor bal ai gi" and owed_floor_le: "0 \<le> bal \<Longrightarrow> owed_floor bal ai gi \<le> bal"
  by (auto simp: owed_floor_def pos_imp_zdiv_nonneg_iff)

lemma ComputeOwed_owed_floor:
  assumes "dec_laws M" "0 \<le> ai"
  shows "ComputeOwed M bal ai gi = (owed_floor bal ai gi, owed_floor bal ai gi)"
proof (cases "0 < bal \<and> ai < gi \<and> ai < decP")
  case True
  then show ?thesis using ComputeOwed_floor [OF assms(1), of bal ai gi] assms(2) by (simp add: owed_floor_def)
next
  case False
  then show ?thesis by (auto simp: ComputeOwed_def owed_floor_def)
qed

text \<open>The floor never exceeds the exact share.\<close>

lemma owed_le_accrued:
  assumes "accounts_sound s"
  shows "real_of_int (owed_floor (bk_balance s a) (bk_index s a) (GlobalIndex (bk_state s))) \<le> accrued s a"
proof -
  let ?b = "bk_balance s a" and ?x = "bk_index s a" and ?g = "GlobalIndex (bk_state s)"
  have h: "0 \<le> ?b" "0 \<le> ?x" "?x \<le> ?g" using assms by (simp_all add: accounts_sound_def)
  show ?thesis
  proof (cases "0 < ?b \<and> ?x < ?g \<and> ?x < decP")
    case False
    have "0 \<le> accrued s a" using h by (auto simp: accrued_def reached_def min_def)
    then show ?thesis using False by (auto simp: owed_floor_def)
  next
    case True
    then have o: "owed_floor ?b ?x ?g = min (?b * (?g - ?x) div (decP - ?x)) ?b" by (simp add: owed_floor_def)
    show ?thesis
    proof (cases "?g \<le> decP")
      case True
      have "real_of_int (owed_floor ?b ?x ?g) \<le> real_of_int (?b * (?g - ?x) div (decP - ?x))" by (simp add: o)
      also have "\<dots> \<le> real_of_int (?b * (?g - ?x)) / (decP - ?x)" by (rule real_of_int_div4)
      finally show ?thesis using True \<open>0 < ?b \<and> ?x < ?g \<and> ?x < decP\<close> by (simp add: accrued_def reached_def)
    next
      case False
      have "real_of_int (owed_floor ?b ?x ?g) \<le> ?b" by (simp add: o)
      also have "\<dots> = accrued s a"
        using False \<open>0 < ?b \<and> ?x < ?g \<and> ?x < decP\<close> by (simp add: accrued_def reached_def)
      finally show ?thesis .
    qed
  qed
qed

subsection \<open>Every operation of the book keeps it sound\<close>

lemma sum_fun_upd:
  "finite A \<Longrightarrow> sum (f(a := v)) A = sum f A + (if a \<in> A then v - f a else (0 :: 'b :: ab_group_add))"
  by (induction A rule: finite_induct) auto

lemma accrued_nonneg: "accounts_sound s \<Longrightarrow> 0 \<le> accrued s a"
  by (auto simp: accrued_def accounts_sound_def reached_def min_def)

lemma accrued_idle: "bk_index s a = GlobalIndex (bk_state s) \<Longrightarrow> accrued s a = 0"
  by (simp add: accrued_def reached_def)

text \<open>The share bound with fewer claims, per account.\<close>

lemma share_sound_mono:
  assumes "share_sound C s" "reached s' = reached s" "TotalBurned (bk_state s') = TotalBurned (bk_state s)"
    "\<And>a. \<not> bk_module s' a \<Longrightarrow> \<not> bk_module s a \<and> accrued s' a \<le> accrued s a"
  shows "share_sound C s'"
  unfolding share_sound_def
proof (intro allI impI)
  fix A :: "addr set"
  assume A: "finite A" "\<forall>a\<in>A. \<not> bk_module s' a"
  then have "sum (accrued s') A \<le> sum (accrued s) A" using assms(4) by (intro sum_mono) blast
  moreover have "TotalBurned (bk_state s) + sum (accrued s) A \<le> real_of_int (reached s) * C / decP"
    using assms(1,4) A by (auto simp: share_sound_def)
  ultimately show "TotalBurned (bk_state s') + sum (accrued s') A \<le> real_of_int (reached s') * C / decP"
    by (simp add: assms(2,3))
qed

lemma bk_sum_insert:
  assumes "accounts_sound s" "finite A"
  shows "sum (bk_balance s) A + (if a \<in> A then 0 else bk_balance s a) \<le> bk_supply s"
proof -
  have "sum (bk_balance s) (insert a A) \<le> bk_supply s" using assms by (simp add: accounts_sound_def)
  then show ?thesis using assms(2) by (cases "a \<in> A") (simp_all add: insert_absorb)
qed

lemma settle_spec_sound:
  assumes "book_sound C s"
  shows "book_sound C (settle_spec a (bk_balance s a) s)"
proof (cases "bk_module s a")
  case True
  then show ?thesis using assms by (simp add: settle_spec_def)
next
  case False
  note l = assms [unfolded book_sound_def, THEN conjunct1]
    and ac = assms [unfolded book_sound_def, THEN conjunct2, THEN conjunct1]
    and sh = assms [unfolded book_sound_def, THEN conjunct2, THEN conjunct2]
  define n where "n = owed_floor (bk_balance s a) (bk_index s a) (GlobalIndex (bk_state s))"
  let ?s = "settle_spec a (bk_balance s a) s"
  have s': "?s = s\<lparr>bk_state := (bk_state s)\<lparr>TotalBurned := TotalBurned (bk_state s) + n,
                                   TotalPending := TotalPending (bk_state s) + n\<rparr>,
          bk_index := (bk_index s)(a := GlobalIndex (bk_state s)),
          bk_pending := (bk_pending s)(a := bk_pending s a + n),
          bk_balance := (bk_balance s)(a := bk_balance s a - n),
          bk_supply := bk_supply s - n\<rparr>"
    using False by (simp add: settle_spec_def n_def Let_def)
  have bal: "0 \<le> bk_balance s a" using ac by (simp add: accounts_sound_def)
  have n: "0 \<le> n" "n \<le> bk_balance s a" "real_of_int n \<le> accrued s a"
    unfolding n_def using owed_floor_nonneg owed_floor_le [OF bal] owed_le_accrued [OF ac] by blast+
  have r: "reached ?s = reached s" by (simp add: s' reached_def)
  have pend': "bk_pending ?s = (bk_pending s)(a := bk_pending s a + n)"
    and bal': "bk_balance ?s = (bk_balance s)(a := bk_balance s a - n)" by (simp_all add: s')
  have "ledger_sound C ?s" using l by (simp add: s' ledger_sound_def)
  moreover have "accounts_sound ?s"
  proof -
    have p: "sum (bk_pending s) A \<le> TotalPending (bk_state s)" if "finite A" for A
      using ac that by (simp add: accounts_sound_def)
    have "sum (bk_pending ?s) A \<le> TotalPending (bk_state ?s)" if "finite A" for A
      using p [OF that] n(1) unfolding pend' sum_fun_upd [OF that] by (simp add: s')
    moreover have "sum (bk_balance ?s) A \<le> bk_supply ?s" if "finite A" for A
      using bk_sum_insert [OF ac that, of a] n(2) unfolding bal' sum_fun_upd [OF that]
      by (cases "a \<in> A") (simp_all add: s')
    ultimately show ?thesis using ac l n(1,2) by (auto simp: accounts_sound_def s' ledger_sound_def)
  qed
  moreover have "share_sound C ?s"
    unfolding share_sound_def
  proof (intro allI impI)
    fix A :: "addr set"
    assume A: "finite A" "\<forall>a\<in>A. \<not> bk_module ?s a"
    have acc: "accrued ?s = (accrued s)(a := 0)"
      by (rule ext) (auto simp: accrued_def r, auto simp: s' reached_def)
    have "TotalBurned (bk_state s) + sum (accrued s) (insert a A) \<le> real_of_int (reached s) * C / decP"
      using sh A False by (auto simp: share_sound_def s')
    moreover have "sum (accrued s) (insert a A) = sum (accrued ?s) A + accrued s a"
      unfolding acc sum_fun_upd [OF A(1)] using A(1) by (cases "a \<in> A") (simp_all add: insert_absorb)
    ultimately show "TotalBurned (bk_state ?s) + sum (accrued ?s) A \<le> real_of_int (reached ?s) * C / decP"
      using n(3) r by (simp add: s')
  qed
  ultimately show ?thesis by (simp add: book_sound_def)
qed

lemma settle_spec_idle: "\<not> bk_module s a \<Longrightarrow> bk_index (settle_spec a b s) a = GlobalIndex (bk_state (settle_spec a b s))"
  by (simp add: settle_spec_def Let_def)

lemma settle_spec_keeps:
  "bk_module (settle_spec a b s) = bk_module s" "GlobalIndex (bk_state (settle_spec a b s)) = GlobalIndex (bk_state s)"
  "IndexRemainder (bk_state (settle_spec a b s)) = IndexRemainder (bk_state s)"
  "x \<noteq> a \<Longrightarrow> bk_index (settle_spec a b s) x = bk_index s x" "x \<noteq> a \<Longrightarrow> bk_balance (settle_spec a b s) x = bk_balance s x"
  "bk_supply (settle_spec a b s) + TotalBurned (bk_state (settle_spec a b s)) = bk_supply s + TotalBurned (bk_state s)"
  "bk_pool (settle_spec a b s) = bk_pool s"
  by (simp_all add: settle_spec_def Let_def)

text \<open>An address is idle when a change of its balance changes no claim.\<close>

definition idle :: "book \<Rightarrow> addr \<Rightarrow> bool" where
  "idle s a \<longleftrightarrow> bk_module s a \<or> bk_index s a = GlobalIndex (bk_state s)"

lemma settle_spec_makes_idle: "idle (settle_spec a b s) a" "idle s x \<Longrightarrow> idle (settle_spec a b s) x"
  by (auto simp: idle_def settle_spec_def Let_def)

lemma accrued_le:
  assumes "accounts_sound s" "reached s' = reached s" "bk_index s' a = bk_index s a" "bk_balance s' a \<le> bk_balance s a"
  shows "accrued s' a \<le> accrued s a"
proof (cases "decP \<le> bk_index s a")
  case False
  have "bk_index s a \<le> reached s" using assms(1) False by (simp add: accounts_sound_def reached_def)
  then have "real_of_int (bk_balance s' a) * (reached s - bk_index s a) \<le> real_of_int (bk_balance s a) * (reached s - bk_index s a)"
    using assms(4) by (intro mult_right_mono) simp_all
  then show ?thesis using False by (simp add: accrued_def assms(2,3) divide_right_mono)
qed (simp add: accrued_def assms(3))

lemma move_spec_sound:
  assumes "book_sound C s" "idle s t" "0 \<le> m" "m \<le> bk_balance s f"
  shows "book_sound C (move_spec f t m s)"
proof -
  note l = assms(1) [unfolded book_sound_def, THEN conjunct1]
    and ac = assms(1) [unfolded book_sound_def, THEN conjunct2, THEN conjunct1]
    and sh = assms(1) [unfolded book_sound_def, THEN conjunct2, THEN conjunct2]
  let ?s = "move_spec f t m s"
  have keep: "bk_state ?s = bk_state s" "bk_index ?s = bk_index s" "bk_module ?s = bk_module s"
    "bk_pending ?s = bk_pending s" "bk_supply ?s = bk_supply s" "bk_pool ?s = bk_pool s" "reached ?s = reached s"
    by (simp_all add: move_spec_def reached_def)
  have bal: "bk_balance ?s b = bk_balance s b - (if b = f then m else 0) + (if b = t then m else 0)" for b
    by (simp add: move_spec_def)
  have "sum (bk_balance ?s) A \<le> bk_supply s" if "finite A" for A
  proof -
    have "sum (bk_balance ?s) A = sum (bk_balance s) A - (if f \<in> A then m else 0) + (if t \<in> A then m else 0)"
      using that by (simp add: bal sum.distrib sum_subtractf sum.delta)
    then show ?thesis using bk_sum_insert [OF ac that, of f] assms(3,4) by (auto split: if_splits)
  qed
  then have "accounts_sound ?s" using ac assms(3,4) by (auto simp: accounts_sound_def keep bal)
  moreover have "ledger_sound C ?s" using l by (simp add: ledger_sound_def keep)
  moreover have "share_sound C ?s"
  proof (rule share_sound_mono [OF sh keep(7)])
    fix a assume "\<not> bk_module ?s a"
    moreover have "accrued ?s a \<le> accrued s a"
    proof (cases "a = t")
      case True
      then have "bk_index s a = GlobalIndex (bk_state s)" using assms(2) \<open>\<not> bk_module ?s a\<close> by (simp add: idle_def keep)
      then show ?thesis by (simp add: accrued_idle keep)
    next
      case False
      then show ?thesis using assms(3) by (intro accrued_le [OF ac keep(7)]) (simp_all add: keep bal)
    qed
    ultimately show "\<not> bk_module s a \<and> accrued ?s a \<le> accrued s a" by (simp add: keep)
  qed (simp add: keep)
  ultimately show ?thesis by (simp add: book_sound_def)
qed

lemma book_soundD:
  assumes "book_sound C s"
  shows "ledger_sound C s" "accounts_sound s" "share_sound C s"
  using assms by (simp_all add: book_sound_def)

lemma send_spec_sound:
  assumes "book_sound C s" "m \<le> bk_balance (send_spec f t m s) f + m"
  shows "book_sound C (send_spec f t m s)"
proof (cases "m \<le> 0 \<or> f = t")
  case False
  define s1 where "s1 = settle_spec f (bk_balance s f) s"
  define s2 where "s2 = settle_spec t (bk_balance s1 t) s1"
  have s: "send_spec f t m s = move_spec f t m s2" using False by (simp add: send_spec_def s1_def s2_def Let_def)
  have "book_sound C s2" unfolding s2_def s1_def by (intro settle_spec_sound assms(1))
  moreover have "m \<le> bk_balance s2 f" using assms(2) False by (simp add: s move_spec_def)
  moreover have "idle s2 t" unfolding s2_def by (rule settle_spec_makes_idle)
  ultimately show ?thesis unfolding s using False by (intro move_spec_sound) auto
qed (use assms in \<open>auto simp: send_spec_def\<close>)

lemma issue_spec_sound:
  assumes "book_sound C s" "idle s t" "0 \<le> m" "bk_supply s + TotalBurned (bk_state s) + m \<le> C"
  shows "book_sound C (issue_spec t m s)"
proof -
  note so = book_soundD [OF assms(1)]
  let ?s = "issue_spec t m s"
  have keep: "bk_state ?s = bk_state s" "bk_index ?s = bk_index s" "bk_module ?s = bk_module s"
    "bk_pending ?s = bk_pending s" "bk_supply ?s = bk_supply s + m" "bk_pool ?s = bk_pool s" "reached ?s = reached s"
    "bk_balance ?s = (bk_balance s)(t := bk_balance s t + m)"
    by (simp_all add: issue_spec_def reached_def)
  have "sum (bk_balance ?s) A \<le> bk_supply ?s" if "finite A" for A
  proof -
    have "sum (bk_balance s) A \<le> bk_supply s" using so(2) that by (simp add: accounts_sound_def)
    then show ?thesis using assms(3) unfolding keep sum_fun_upd [OF that] by simp
  qed
  then have "accounts_sound ?s" using so(2) assms(3) by (simp add: accounts_sound_def keep)
  moreover have "ledger_sound C ?s" using so(1) assms(4) by (simp add: ledger_sound_def keep)
  moreover have "share_sound C ?s"
  proof (rule share_sound_mono [OF so(3) keep(7)])
    fix a assume "\<not> bk_module ?s a"
    moreover have "accrued ?s a \<le> accrued s a" if "a = t"
      using that assms(2) \<open>\<not> bk_module ?s a\<close> by (simp add: accrued_idle idle_def keep)
    moreover have "accrued ?s a \<le> accrued s a" if "a \<noteq> t"
      using that by (intro accrued_le [OF so(2) keep(7)]) (simp_all add: keep)
    ultimately show "\<not> bk_module s a \<and> accrued ?s a \<le> accrued s a" by (auto simp: keep)
  qed (simp add: keep)
  ultimately show ?thesis by (simp add: book_sound_def)
qed

lemma burn_spec_sound:
  assumes "book_sound C s" "0 \<le> m" "m \<le> bk_balance s a"
  shows "book_sound C (burn_spec a m s)"
proof -
  note so = book_soundD [OF assms(1)]
  let ?s = "burn_spec a m s"
  have keep: "bk_state ?s = bk_state s" "bk_index ?s = bk_index s" "bk_module ?s = bk_module s"
    "bk_pending ?s = bk_pending s" "bk_supply ?s = bk_supply s - m" "bk_pool ?s = bk_pool s" "reached ?s = reached s"
    "bk_balance ?s = (bk_balance s)(a := bk_balance s a - m)"
    by (simp_all add: burn_spec_def reached_def)
  have "sum (bk_balance ?s) A \<le> bk_supply ?s" if "finite A" for A
    using bk_sum_insert [OF so(2) that, of a] assms(2,3) unfolding keep sum_fun_upd [OF that]
    by (cases "a \<in> A") simp_all
  then have "accounts_sound ?s" using so(2) assms(2,3) by (simp add: accounts_sound_def keep)
  moreover have "ledger_sound C ?s" using so(1) assms(2) by (simp add: ledger_sound_def keep)
  moreover have "share_sound C ?s"
  proof (rule share_sound_mono [OF so(3) keep(7)])
    fix b assume "\<not> bk_module ?s b"
    then show "\<not> bk_module s b \<and> accrued ?s b \<le> accrued s b"
      using assms(2) accrued_le [OF so(2) keep(7), of b] by (simp add: keep)
  qed (simp add: keep)
  ultimately show ?thesis by (simp add: book_sound_def)
qed

text \<open>
  The index moves: the accrued claims move on the line from their value now to all the balances, which
  they reach at index 1.0, and so does the bound.
\<close>

lemma accrued_interpolates:
  assumes "accounts_sound s" "GlobalIndex (bk_state s) < decP" "bk_index s' a = bk_index s a"
    "bk_balance s' a = bk_balance s a"
  defines "l \<equiv> real_of_int (reached s' - reached s) / (decP - reached s)"
  shows "accrued s' a = (1 - l) * accrued s a + l * bk_balance s a"
proof -
  let ?x = "bk_index s a" and ?g = "reached s"
  have g: "?g < decP" "?g = GlobalIndex (bk_state s)" "?x \<le> ?g" using assms(1,2) by (simp_all add: reached_def accounts_sound_def)
  define u w where "u = real_of_int (reached s' - ?x) / (decP - ?x)" and "w = real_of_int (?g - ?x) / (decP - ?x)"
  have nz: "real_of_int (decP - ?x) \<noteq> 0" "real_of_int (decP - ?g) \<noteq> 0" using g by simp_all
  have "l * real_of_int (decP - ?g) = real_of_int (reached s' - ?g)" using nz by (simp add: l_def)
  then have "real_of_int (reached s' - ?x) = (1 - l) * real_of_int (?g - ?x) + l * real_of_int (decP - ?x)"
    by (simp add: algebra_simps)
  then have u: "u = (1 - l) * w + l" using nz unfolding u_def w_def by (simp add: add_divide_distrib)
  have "accrued s' a = bk_balance s a * u" "accrued s a = bk_balance s a * w"
    using g by (simp_all add: accrued_def assms(3,4) u_def w_def)
  then show ?thesis unfolding u by (simp add: algebra_simps)
qed

lemma release_spec_sound:
  assumes "book_sound C s" "delta * C + r = amount * decP + IndexRemainder (bk_state s)" "0 \<le> r" "0 \<le> delta"
  shows "book_sound C (release_spec amount delta r s)"
proof -
  note so = book_soundD [OF assms(1)]
  let ?s = "release_spec amount delta r s"
  have keep: "bk_index ?s = bk_index s" "bk_module ?s = bk_module s" "bk_pending ?s = bk_pending s"
    "bk_supply ?s = bk_supply s" "bk_balance ?s = bk_balance s" "TotalBurned (bk_state ?s) = TotalBurned (bk_state s)"
    "GlobalIndex (bk_state ?s) = GlobalIndex (bk_state s) + delta"
    by (simp_all add: release_spec_def)
  have "ledger_sound C ?s"
    using so(1) assms(2-4) by (simp add: ledger_sound_def release_spec_def algebra_simps)
  moreover have "accounts_sound ?s"
    using so(2) assms(4) by (auto simp: accounts_sound_def keep release_spec_def intro: order_trans)
  moreover have "share_sound C ?s"
  proof (cases "GlobalIndex (bk_state s) < decP")
    case False
    have r: "reached ?s = reached s" using False assms(4) by (simp add: reached_def keep)
    show ?thesis by (rule share_sound_mono [OF so(3) r]) (use r in \<open>simp_all add: keep accrued_def\<close>)
  next
    case True
    define l where "l = real_of_int (reached ?s - reached s) / (decP - reached s)"
    have g: "reached s < decP" "reached s \<le> reached ?s" "reached ?s \<le> decP"
      using True assms(4) by (simp_all add: reached_def keep)
    have l: "0 \<le> l" "l \<le> 1" using g by (simp_all add: l_def)
    show ?thesis
      unfolding share_sound_def
    proof (intro allI impI)
      fix A :: "addr set"
      assume A: "finite A" "\<forall>a\<in>A. \<not> bk_module ?s a"
      let ?B = "real_of_int (TotalBurned (bk_state s))"
      have "sum (accrued ?s) A = (1 - l) * sum (accrued s) A + l * real_of_int (sum (bk_balance s) A)"
        using accrued_interpolates [OF so(2) True, of ?s]
        by (simp add: keep l_def sum.distrib sum_distrib_left)
      then have eq: "?B + sum (accrued ?s) A =
          (1 - l) * (?B + sum (accrued s) A) + l * (?B + real_of_int (sum (bk_balance s) A))"
        by (simp add: algebra_simps)
      have "?B + sum (accrued s) A \<le> real_of_int (reached s) * C / decP"
        using so(3) A by (simp add: share_sound_def keep)
      then have 1: "(1 - l) * (?B + sum (accrued s) A) \<le> (1 - l) * (real_of_int (reached s) * C / decP)"
        using l by (intro mult_left_mono) simp_all
      have "sum (bk_balance s) A \<le> bk_supply s" using so(2) A(1) by (simp add: accounts_sound_def)
      then have "?B + real_of_int (sum (bk_balance s) A) \<le> C" using so(1) unfolding ledger_sound_def by linarith
      then have 2: "l * (?B + real_of_int (sum (bk_balance s) A)) \<le> l * C" using l by (intro mult_left_mono) simp_all
      have "l * real_of_int (decP - reached s) = real_of_int (reached ?s - reached s)" using g by (simp add: l_def)
      then have "(1 - l) * real_of_int (reached s) + l * decP = reached ?s" by (simp add: algebra_simps)
      then have "((1 - l) * real_of_int (reached s) + l * decP) * C / decP = real_of_int (reached ?s) * C / decP"
        by simp
      then have "(1 - l) * (real_of_int (reached s) * C / decP) + l * C = real_of_int (reached ?s) * C / decP"
        by (simp add: add_divide_distrib distrib_right)
      then show "TotalBurned (bk_state ?s) + sum (accrued ?s) A \<le> real_of_int (reached ?s) * C / decP"
        using eq 1 2 by (simp add: keep)
    qed
  qed
  ultimately show ?thesis by (simp add: book_sound_def)
qed

lemma pay_spec_sound:
  assumes "book_sound C s"
  shows "book_sound C (pay_spec a s)"
proof -
  note so = book_soundD [OF assms]
  let ?s = "pay_spec a s"
  have p: "0 \<le> bk_pending s a" using so(2) by (simp add: accounts_sound_def)
  have "sum (bk_pending ?s) A \<le> TotalPending (bk_state ?s)" if "finite A" for A
  proof -
    have "sum (bk_pending s) (insert a A) \<le> TotalPending (bk_state s)" using so(2) that by (simp add: accounts_sound_def)
    moreover have "bk_pending ?s = (bk_pending s)(a := 0)" by (simp add: pay_spec_def)
    ultimately show ?thesis using that
      by (cases "a \<in> A") (simp_all only: sum_fun_upd insert_absorb, simp_all add: pay_spec_def)
  qed
  then have "accounts_sound ?s" using so(2) p by (simp add: accounts_sound_def pay_spec_def)
  moreover have "ledger_sound C ?s" using so(1) by (simp add: ledger_sound_def pay_spec_def)
  moreover have "share_sound C ?s"
    by (rule share_sound_mono [OF so(3)]) (simp_all add: pay_spec_def reached_def accrued_def)
  ultimately show ?thesis by (simp add: book_sound_def)
qed

text \<open>What the rest of the chain may do: recognise more module accounts, add to the pool, count burned fees.\<close>

lemma book_sound_outside:
  assumes "book_sound C s" "bk_pool s \<le> p" "\<And>a. bk_module s a \<Longrightarrow> m a"
  shows "book_sound C (s\<lparr>bk_state := (bk_state s)\<lparr>TotalFeeBurned := f\<rparr>, bk_pool := p, bk_module := m\<rparr>)"
proof -
  note so = book_soundD [OF assms(1)]
  let ?s = "s\<lparr>bk_state := (bk_state s)\<lparr>TotalFeeBurned := f\<rparr>, bk_pool := p, bk_module := m\<rparr>"
  have "share_sound C ?s"
    by (rule share_sound_mono [OF so(3)]) (use assms(3) in \<open>auto simp: reached_def accrued_def\<close>)
  then show ?thesis using so(1,2) assms(2) by (simp add: book_sound_def ledger_sound_def accounts_sound_def)
qed

section \<open>What a sound book gives\<close>

lemma book_solvent:
  assumes "book_sound C s"
  shows "TotalPending (bk_state s) + TotalPaidOut (bk_state s) \<le> TotalReleasedToPool (bk_state s)"
    "TotalPending (bk_state s) \<le> bk_pool s"
    "bk_pending s a \<le> TotalPending (bk_state s)"
    "bk_supply s + TotalBurned (bk_state s) \<le> C"
proof -
  note so = book_soundD [OF assms]
  note l = so(1) [unfolded ledger_sound_def]
  have "real_of_int (TotalBurned (bk_state s)) \<le> real_of_int (reached s) * C / decP"
    using so(3) unfolding share_sound_def by (metis finite.emptyI empty_iff sum.empty add.right_neutral)
  then have "real_of_int (TotalBurned (bk_state s)) * decP \<le> real_of_int (reached s) * C" by (simp add: field_simps)
  then have "TotalBurned (bk_state s) * decP \<le> reached s * C" by (metis of_int_le_iff of_int_mult)
  also have "\<dots> \<le> GlobalIndex (bk_state s) * C" using l by (intro mult_right_mono) (auto simp: reached_def)
  also have "\<dots> \<le> TotalReleasedToPool (bk_state s) * decP" using l by linarith
  finally have "TotalBurned (bk_state s) \<le> TotalReleasedToPool (bk_state s)" by simp
  then show 1: "TotalPending (bk_state s) + TotalPaidOut (bk_state s) \<le> TotalReleasedToPool (bk_state s)" using l by simp
  then show "TotalPending (bk_state s) \<le> bk_pool s" using l by linarith
  have "sum (bk_pending s) {a} \<le> TotalPending (bk_state s)" using so(2) unfolding accounts_sound_def by blast
  then show "bk_pending s a \<le> TotalPending (bk_state s)" by simp
  show "bk_supply s + TotalBurned (bk_state s) \<le> C" using l by simp
qed

end
