(* ===== verification/AtoxRefine.thy ===== *)
theory AtoxRefine
  imports AtoxWrapper EnergySafe AtoxBook
begin

text \<open>
  The registered send restriction and the books.  \<open>app_hook\<close> solves the recursion between the bank and the
  restriction, and is the only function that does (\<open>app_hook_unique\<close>).  It changes nothing the energy
  module promises, so it interprets \<open>energy_hook\<close>.  Settlement and transfers of the keeper refine the
  operations of \<open>AtoxBook\<close> on \<open>book_of\<close>, the ATOX book a context holds.
\<close>

section \<open>The nested send\<close>

lemma restriction_frame:
  assumes "energy_SendRestriction K c f t cs = Inr (t', c1)"
  shows "t' = t" "frame c c1" "accounts_ok (st_energy c) \<Longrightarrow> same_books (st_energy c) (st_energy c1)"
proof -
  show "t' = t" using assms by (auto simp: energy_SendRestriction_def Let_def split: if_splits)
  show "frame c c1"
    using assms frame_trans [OF ApplyBalanceChange_books(2) ApplyBalanceChange_books(2)]
    by (auto simp: energy_SendRestriction_def Let_def split: if_splits)
  show "accounts_ok (st_energy c) \<Longrightarrow> same_books (st_energy c) (st_energy c1)"
    using energy_SendRestriction_keeps(2) [OF _ assms] .
qed

lemma restriction_total:
  obtains c1 where "energy_SendRestriction K c f t cs = Inr (t, c1)"
proof (cases "energy_SendRestriction K c f t cs")
  case (Inl e)
  then show ?thesis by (auto simp: energy_SendRestriction_def Let_def split: if_splits)
next
  case (Inr p)
  then show ?thesis using that restriction_frame(1) [of K c f t cs "fst p" "snd p"] by (cases p) simp
qed

lemma app_hook_with_eq:
  "energy_SendRestriction K c f t cs = Inr (t, c1) \<Longrightarrow>
   app_hook_with K Hi c f t cs = atox_SendRestriction K Hi c1 f t cs"
  by (simp add: app_hook_with_def)

text \<open>Two restrictions that agree on every send that carries the guard settle alike.\<close>

definition agree :: "'x hook \<Rightarrow> 'x hook \<Rightarrow> bool" where
  "agree H H' \<longleftrightarrow> (\<forall>c f t cs. fee_in_progress c \<longrightarrow> H c f t cs = H' c f t cs)"

lemma guarded_send_agree:
  assumes "bank_laws K" "agree H H'" "fee_in_progress c"
  shows "send_coins K H c f t cs = send_coins K H' c f t cs"
proof -
  have "send_law K" using assms(1) by (simp add: bank_laws_def)
  then show ?thesis using assms(2,3) by (simp add: send_law_def agree_def)
qed

lemma burnAtoxFor_agree:
  assumes "bank_laws K" "agree H H'"
  shows "burnAtoxFor K H c a n = burnAtoxFor K H' c a n"
proof -
  have "send_coins K H (c\<lparr>fee_in_progress := True\<rparr>) f t cs = send_coins K H' (c\<lparr>fee_in_progress := True\<rparr>) f t cs" for f t cs
    by (rule guarded_send_agree [OF assms]) simp
  then show ?thesis unfolding burnAtoxFor_def send_to_module_eq [OF assms(1)] by (simp only:)
qed

lemma SettleAccountWithBalance_agree:
  assumes "bank_laws K" "agree H H'"
  shows "SettleAccountWithBalance K H c a b = SettleAccountWithBalance K H' c a b"
  unfolding SettleAccountWithBalance_def burnAtoxFor_agree [OF assms] ..

lemma app_hook_with_agree:
  assumes "bank_laws K" "agree H H'"
  shows "app_hook_with K H = app_hook_with K H'"
  unfolding app_hook_with_def atox_SendRestriction_def SettleAccountWithBalance_agree [OF assms] ..

lemma guarded_no_settle:
  assumes "fee_in_progress c"
  shows "app_hook_with K H c f t cs = app_hook_with K H' c f t cs"
proof -
  obtain c1 where r: "energy_SendRestriction K c f t cs = Inr (t, c1)" using restriction_total .
  have "fee_in_progress c1" using restriction_frame(2) [OF r] assms by (simp add: frame_simps)
  then show ?thesis by (simp add: app_hook_with_eq [OF r] atox_SendRestriction_def Let_def)
qed

lemma agree_app_hook_with: "agree (app_hook_with K H) (app_hook_with K H')"
  by (simp add: agree_def guarded_no_settle)

lemma app_hook_unfold:
  assumes "bank_laws K"
  shows "app_hook_with K (app_hook K) = app_hook K"
  unfolding app_hook_def by (rule app_hook_with_agree [OF assms agree_app_hook_with])

lemma app_hook_unique:
  assumes "bank_laws K" "H = app_hook_with K H"
  shows "H = app_hook K"
proof -
  have "agree H (app_hook_with K no_hook)" using agree_app_hook_with [of K H no_hook] assms(2) by simp
  from app_hook_with_agree [OF assms(1) this] show ?thesis using assms(2) by (simp add: app_hook_def)
qed

lemma app_hook_eq:
  assumes "bank_laws K" "energy_SendRestriction K c f t cs = Inr (t, c1)"
  shows "app_hook K c f t cs = atox_SendRestriction K (app_hook K) c1 f t cs"
  using app_hook_with_eq [OF assms(2)] app_hook_unfold [OF assms(1)] by metis

section \<open>What settlement leaves alone\<close>

text \<open>Only the energy store, by a refresh, and the balances differ.\<close>

definition quiet :: "'x sdk \<Rightarrow> 'x ctx \<Rightarrow> 'x ctx \<Rightarrow> bool" where
  "quiet K c c' \<longleftrightarrow> c' = c\<lparr>st_energy := st_energy c', ext := ext c'\<rparr> \<and> same_rest K (ext c) (ext c') \<and>
     (accounts_ok (st_energy c) \<longrightarrow> same_books (st_energy c) (st_energy c'))"

lemma quiet_refl [simp]: "quiet K c c"
  by (simp add: quiet_def)

lemma quiet_trans: "quiet K c d \<Longrightarrow> quiet K d e \<Longrightarrow> quiet K c e"
  by (cases c; cases d; cases e) (auto simp: quiet_def same_books_def intro: same_rest_trans)

lemma quiet_frame:
  assumes "frame c c'" "accounts_ok (st_energy c) \<Longrightarrow> same_books (st_energy c) (st_energy c')"
  shows "quiet K c c'"
  using assms by (cases c; cases c'; simp add: frame_def quiet_def)

lemma quiet_ext: "same_rest K (ext c) x \<Longrightarrow> quiet K c (c\<lparr>ext := x\<rparr>)"
  by (simp add: quiet_def)

lemma quiet_simps:
  assumes "quiet K c c'"
  shows "st_atox c' = st_atox c" "st_oracle c' = st_oracle c" "st_tokenomics c' = st_tokenomics c"
    "st_bridge c' = st_bridge c" "block_time c' = block_time c" "block_height c' = block_height c"
    "tx_bytes c' = tx_bytes c" "fee_in_progress c' = fee_in_progress c"
    "is_module_account K (ext c') = is_module_account K (ext c)"
    "channel_escrows K (ext c') = channel_escrows K (ext c)"
    "accounts_ok (st_energy c) \<Longrightarrow> same_books (st_energy c) (st_energy c')"
  using assms by (cases c; cases c'; auto simp: quiet_def same_rest_def)+

lemma quiet_flag: "quiet K (c\<lparr>fee_in_progress := b\<rparr>) c' \<Longrightarrow> quiet K c (c'\<lparr>fee_in_progress := fee_in_progress c\<rparr>)"
  by (cases c; cases c') (simp add: quiet_def)

lemma guarded_send:
  assumes "bank_laws K" "fee_in_progress c" "send_coins K (app_hook K) c f t cs = Inr c'"
  shows "quiet K c c'" "bank_supply K (ext c') d = bank_supply K (ext c) d"
    "balance K c' b d = balance K c b d - (if b = f then AmountOf cs d else 0) + (if b = t then AmountOf cs d else 0)"
    "0 \<le> AmountOf cs d"
proof -
  obtain x1 t' c2 x3 where s: "bank_sub K (ext c) f cs = Inr x1" "app_hook K (c\<lparr>ext := x1\<rparr>) f t cs = Inr (t', c2)"
    "bank_add K (ext c2) t' cs = Inr x3" "c' = c2\<lparr>ext := x3\<rparr>"
    using send_coins_InrE [OF assms(1,3)] by metis
  obtain c1 where r: "energy_SendRestriction K (c\<lparr>ext := x1\<rparr>) f t cs = Inr (t, c1)" using restriction_total .
  note fr = restriction_frame(2,3) [OF r]
  have "fee_in_progress c1" using fr assms(2) by (simp add: frame_simps)
  then have c2: "t' = t" "c2 = c1"
    using s(2) unfolding app_hook_eq [OF assms(1) r] by (auto simp: atox_SendRestriction_def Let_def split: if_splits)
  have x: "ext c2 = x1" using fr c2 by (simp add: frame_simps)
  note sub = bank_sub_law [OF assms(1) s(1)] and add = bank_add_law [OF assms(1) s(3) [unfolded x]]
  have "quiet K c (c\<lparr>ext := x1\<rparr>)" by (rule quiet_ext [OF sub(1)])
  moreover have "quiet K (c\<lparr>ext := x1\<rparr>) c2" unfolding c2 by (rule quiet_frame [OF fr])
  moreover have "quiet K c2 c'" unfolding s(4) by (rule quiet_ext) (simp add: x add(1))
  ultimately show "quiet K c c'" by (blast intro: quiet_trans)
  show "bank_supply K (ext c') d = bank_supply K (ext c) d" by (simp add: s(4) sub(2) add(2))
  show "balance K c' b d = balance K c b d - (if b = f then AmountOf cs d else 0) + (if b = t then AmountOf cs d else 0)"
    by (simp add: s(4) sub(3) add(3) c2(1))
  show "0 \<le> AmountOf cs d" by (rule sub(4))
qed

text \<open>The burn of a settlement, on success and on failure.\<close>

lemma burnAtoxFor_cases:
  assumes "bank_laws K" "0 < n" "burnAtoxFor K (app_hook K) c a n = (r, c')"
  obtains (untouched) e where "r = Inl e" "c' = c"
  | (pulled) e where "r = Inl e" "module_registered K AtoxModuleName" "quiet K c c'"
      "\<And>d. bank_supply K (ext c') d = bank_supply K (ext c) d"
      "\<And>b d. balance K c' b d = balance K c b d - (if b = a \<and> d = AtoxBaseDenom then n else 0) +
         (if b = module_address K AtoxModuleName \<and> d = AtoxBaseDenom then n else 0)"
  | (burned) "r = Inr ()" "module_registered K AtoxModuleName" "quiet K c c'"
      "\<And>d. bank_supply K (ext c') d = bank_supply K (ext c) d - (if d = AtoxBaseDenom then n else 0)"
      "\<And>b d. balance K c' b d = balance K c b d - (if b = a \<and> d = AtoxBaseDenom then n else 0)"
proof (cases "send_to_module K (app_hook K) (c\<lparr>fee_in_progress := True\<rparr>) a AtoxModuleName [(AtoxBaseDenom, n)]")
  case (Inl e)
  then show ?thesis using assms(2,3) untouched [of e] by (simp add: burnAtoxFor_def new_coins_def)
next
  case (Inr c1)
  let ?c1 = "c1\<lparr>fee_in_progress := fee_in_progress c\<rparr>" and ?cs = "[(AtoxBaseDenom, n)]"
  note s = guarded_send [OF assms(1) _ send_to_module_InrD [OF assms(1) Inr], simplified]
  have reg: "module_registered K AtoxModuleName" using Inr by (simp add: send_to_module_eq [OF assms(1)] split: if_splits)
  have q: "quiet K c ?c1" by (rule quiet_flag [OF s(1)])
  have b1: "balance K ?c1 b d = balance K c b d - (if b = a \<and> d = AtoxBaseDenom then n else 0) +
      (if b = module_address K AtoxModuleName \<and> d = AtoxBaseDenom then n else 0)" for b d
    using s(3) [of b d] by auto
  have out: "(r, c') = (case burn_coins K ?c1 AtoxModuleName ?cs of Inl e \<Rightarrow> (Inl e, ?c1) | Inr c2 \<Rightarrow> (Inr (), c2))"
    using assms(2,3) Inr by (simp add: burnAtoxFor_def new_coins_def Let_def)
  show ?thesis
  proof (cases "burn_coins K ?c1 AtoxModuleName ?cs")
    case (Inl e)
    then show ?thesis using out pulled [of e, OF _ reg] q b1 s(2) by simp
  next
    case (Inr c2)
    obtain y where y: "c2 = ?c1\<lparr>ext := y\<rparr>" "same_rest K (ext ?c1) y"
      "\<And>d. bank_supply K y d = bank_supply K (ext ?c1) d - AmountOf ?cs d"
      "\<And>b d. bank_balance K y b d = bank_balance K (ext ?c1) b d -
         (if b = module_address K AtoxModuleName then AmountOf ?cs d else 0)"
      using burn_coins_InrE [OF assms(1) Inr] by metis
    have "quiet K c c2" unfolding y(1) by (rule quiet_trans [OF q]) (rule quiet_ext [OF y(2)])
    moreover have "balance K c2 b d = balance K c b d - (if b = a \<and> d = AtoxBaseDenom then n else 0)" for b d
      using b1 [of b d] by (auto simp: y(1,4))
    moreover have "bank_supply K (ext c2) d = bank_supply K (ext c) d - (if d = AtoxBaseDenom then n else 0)" for d
      using s(2) [of d] by (auto simp: y(1,3))
    ultimately show ?thesis using out Inr burned [OF _ reg] by simp
  qed
qed

section \<open>The book of a state\<close>

definition book_of :: "'x sdk \<Rightarrow> 'x ctx \<Rightarrow> book" where
  "book_of K c =
     \<lparr> bk_state = GetGlobalState c, bk_index = (\<lambda>a. Index (GetAtoxAccount K c a)),
       bk_pending = (\<lambda>a. Pending (GetAtoxAccount K c a)), bk_balance = AtoxBalance K c,
       bk_supply = AtoxSupply K c, bk_module = isModuleAccount K c, bk_pool = ExchangePoolBalance K c \<rparr>"

lemma book_of_simps [simp]:
  "bk_state (book_of K c) = GetGlobalState c" "bk_index (book_of K c) a = Index (GetAtoxAccount K c a)"
  "bk_pending (book_of K c) a = Pending (GetAtoxAccount K c a)" "bk_balance (book_of K c) = AtoxBalance K c"
  "bk_supply (book_of K c) = AtoxSupply K c" "bk_module (book_of K c) = isModuleAccount K c"
  "bk_pool (book_of K c) = ExchangePoolBalance K c"
  by (simp_all add: book_of_def)

text \<open>A settlement record is stored under its own address.\<close>

definition atox_records :: "'x ctx \<Rightarrow> bool" where
  "atox_records c \<longleftrightarrow> (\<forall>k r. kv_get (x_accounts (st_atox c)) k = Some r \<longrightarrow> ax_Address r = k)"

lemma atox_store_simps [simp]:
  "GetGlobalState (SetGlobalState gs c) = gs" "GetGlobalState (SetAtoxAccount r c) = GetGlobalState c"
  "getAtoxAccount K (SetGlobalState gs c) a = getAtoxAccount K c a"
  "GetAtoxAccount K (SetGlobalState gs c) a = GetAtoxAccount K c a"
  "ext (SetGlobalState gs c) = ext c" "ext (SetAtoxAccount r c) = ext c"
  "AtoxBalance K (SetGlobalState gs c) = AtoxBalance K c" "AtoxBalance K (SetAtoxAccount r c) = AtoxBalance K c"
  "AtoxSupply K (SetGlobalState gs c) = AtoxSupply K c" "AtoxSupply K (SetAtoxAccount r c) = AtoxSupply K c"
  "isModuleAccount K (SetGlobalState gs c) = isModuleAccount K c" "isModuleAccount K (SetAtoxAccount r c) = isModuleAccount K c"
  "ExchangePoolBalance K (SetGlobalState gs c) = ExchangePoolBalance K c"
  "ExchangePoolBalance K (SetAtoxAccount r c) = ExchangePoolBalance K c"
  "atox_records (SetGlobalState gs c) = atox_records c"
  by (simp_all add: GetGlobalState_def SetGlobalState_def SetAtoxAccount_def upd_atox_def getAtoxAccount_def
      GetAtoxAccount_def AtoxBalance_def AtoxSupply_def isModuleAccount_def ExchangePoolBalance_def atox_records_def fun_eq_iff)

lemma atox_records_set [simp]: "atox_records c \<Longrightarrow> atox_records (SetAtoxAccount r c)"
  by (simp add: atox_records_def SetAtoxAccount_def upd_atox_def kv_get_set)

lemma ax_Address_Get: "atox_records c \<Longrightarrow> ax_Address (GetAtoxAccount K c a) = acc_string (codec K) a"
  by (auto simp: atox_records_def GetAtoxAccount_def getAtoxAccount_def NewAtoxAccount_def split: option.splits)

lemma GetAtoxAccount_set:
  assumes "inj (acc_string (codec K))" "ax_Address r = acc_string (codec K) a"
  shows "GetAtoxAccount K (SetAtoxAccount r c) b = (if b = a then r else GetAtoxAccount K c b)"
  using assms by (auto simp: GetAtoxAccount_def getAtoxAccount_def SetAtoxAccount_def upd_atox_def kv_get_set inj_eq
      split: option.splits)

text \<open>What a settlement touches: the accumulator and the records, the energy snapshots, ATOX balances.\<close>

definition touch :: "'x sdk \<Rightarrow> 'x ctx \<Rightarrow> 'x ctx \<Rightarrow> bool" where
  "touch K c c' \<longleftrightarrow> c' = c\<lparr>st_energy := st_energy c', st_atox := st_atox c', ext := ext c'\<rparr> \<and>
     same_rest K (ext c) (ext c') \<and> (accounts_ok (st_energy c) \<longrightarrow> same_books (st_energy c) (st_energy c')) \<and>
     x_params (st_atox c') = x_params (st_atox c) \<and> x_cursor (st_atox c') = x_cursor (st_atox c) \<and>
     x_swept (st_atox c') = x_swept (st_atox c) \<and>
     (\<forall>b d. d \<noteq> AtoxBaseDenom \<longrightarrow> balance K c' b d = balance K c b d) \<and>
     (\<forall>d. d \<noteq> AtoxBaseDenom \<longrightarrow> bank_supply K (ext c') d = bank_supply K (ext c) d)"

lemma touch_refl [simp]: "touch K c c"
  by (simp add: touch_def)

lemma touch_trans: "touch K c d \<Longrightarrow> touch K d e \<Longrightarrow> touch K c e"
  by (cases c; cases d; cases e) (auto simp: touch_def same_books_def intro: same_rest_trans)

lemma touch_quiet:
  assumes "quiet K c c'" "\<And>b d. d \<noteq> AtoxBaseDenom \<Longrightarrow> balance K c' b d = balance K c b d"
    "\<And>d. d \<noteq> AtoxBaseDenom \<Longrightarrow> bank_supply K (ext c') d = bank_supply K (ext c) d"
  shows "touch K c c'"
  using assms by (cases c; cases c'; auto simp: quiet_def touch_def)

lemma touch_SetAtoxAccount [simp]: "touch K c (SetAtoxAccount r c)"
  and touch_SetGlobalState [simp]: "touch K c (SetGlobalState gs c)"
  by (simp_all add: touch_def SetAtoxAccount_def SetGlobalState_def upd_atox_def)

lemma touch_simps:
  assumes "touch K c c'"
  shows "st_oracle c' = st_oracle c" "st_tokenomics c' = st_tokenomics c" "st_bridge c' = st_bridge c"
    "block_time c' = block_time c" "block_height c' = block_height c" "tx_bytes c' = tx_bytes c"
    "fee_in_progress c' = fee_in_progress c" "isModuleAccount K c' = isModuleAccount K c"
    "atox_GetParams c' = atox_GetParams c"
    "d \<noteq> AtoxBaseDenom \<Longrightarrow> balance K c' b d = balance K c b d"
  using assms by (cases c; cases c'; auto simp: touch_def same_rest_def isModuleAccount_def fun_eq_iff atox_GetParams_def)+

lemma book_of_quiet:
  assumes "quiet K c c'"
  shows "book_of K c' = (book_of K c)\<lparr>bk_balance := AtoxBalance K c', bk_supply := AtoxSupply K c',
    bk_pool := ExchangePoolBalance K c'\<rparr>" "atox_records c' = atox_records c"
    "getAtoxAccount K c' = getAtoxAccount K c" "GetGlobalState c' = GetGlobalState c"
  using quiet_simps [OF assms]
  by (simp_all add: book_of_def GetGlobalState_def GetAtoxAccount_def getAtoxAccount_def isModuleAccount_def
      atox_records_def fun_eq_iff)

section \<open>Settlement implements the book\<close>

lemma settle_burn_cases:
  assumes "bank_laws K" "base_denom K \<noteq> AtoxBaseDenom" "0 < n" "burnAtoxFor K (app_hook K) c a n = (r, c')"
  shows "touch K c c'" "quiet K c c'"
    "r = Inr () \<Longrightarrow> book_of K c' = burn_spec a n (book_of K c)"
    "r = Inl e \<Longrightarrow> c' = c \<or>
       (module_registered K AtoxModuleName \<and> book_of K c' = move_spec a (module_address K AtoxModuleName) n (book_of K c))"
proof -
  show "quiet K c c'"
    by (rule burnAtoxFor_cases [OF assms(1,3,4)]) simp_all
  have "balance K c' b d = balance K c b d" if "d \<noteq> AtoxBaseDenom" for b d
    by (rule burnAtoxFor_cases [OF assms(1,3,4)]) (use that in simp_all)
  moreover have "bank_supply K (ext c') d = bank_supply K (ext c) d" if "d \<noteq> AtoxBaseDenom" for d
    by (rule burnAtoxFor_cases [OF assms(1,3,4)]) (use that in simp_all)
  ultimately show "touch K c c'" by (intro touch_quiet [OF \<open>quiet K c c'\<close>])
  have pool: "ExchangePoolBalance K c' = ExchangePoolBalance K c"
    using \<open>touch K c c'\<close> assms(2) by (simp add: ExchangePoolBalance_def touch_simps)
  show "book_of K c' = burn_spec a n (book_of K c)" if r: "r = Inr ()"
  proof (rule burnAtoxFor_cases [OF assms(1,3,4)])
    assume b: "\<And>b d. balance K c' b d = balance K c b d - (if b = a \<and> d = AtoxBaseDenom then n else 0)"
      "\<And>d. bank_supply K (ext c') d = bank_supply K (ext c) d - (if d = AtoxBaseDenom then n else 0)"
    show ?thesis unfolding book_of_quiet(1) [OF \<open>quiet K c c'\<close>]
      by (simp add: burn_spec_def pool AtoxBalance_def AtoxSupply_def b fun_eq_iff book_of_def)
  qed (use r in simp_all)
  show "c' = c \<or> (module_registered K AtoxModuleName \<and>
      book_of K c' = move_spec a (module_address K AtoxModuleName) n (book_of K c))" if r: "r = Inl e"
  proof (rule burnAtoxFor_cases [OF assms(1,3,4)])
    assume b: "\<And>b d. balance K c' b d = balance K c b d - (if b = a \<and> d = AtoxBaseDenom then n else 0) +
         (if b = module_address K AtoxModuleName \<and> d = AtoxBaseDenom then n else 0)"
      "\<And>d. bank_supply K (ext c') d = bank_supply K (ext c) d" "module_registered K AtoxModuleName"
    have "book_of K c' = move_spec a (module_address K AtoxModuleName) n (book_of K c)"
      unfolding book_of_quiet(1) [OF \<open>quiet K c c'\<close>]
      by (simp add: move_spec_def pool AtoxBalance_def AtoxSupply_def b(1,2) fun_eq_iff book_of_def)
    then show ?thesis using b(3) by simp
  qed (use r in simp_all)
qed

lemma settle_refines:
  assumes "sdk_laws K" "atox_records c"
    "0 \<le> Index (GetAtoxAccount K c a)" "Index (GetAtoxAccount K c a) \<le> GlobalIndex (GetGlobalState c)"
    "SettleAccountWithBalance K (app_hook K) c a bal = (Inr r, c')"
  shows "book_of K c' = settle_spec a bal (book_of K c)" "touch K c c'" "atox_records c'"
proof -
  let ?gs = "GetGlobalState c" and ?acct = "GetAtoxAccount K c a"
  let ?n = "owed_floor bal (Index ?acct) (GlobalIndex ?gs)"
  obtain found where g: "getAtoxAccount K c a = (?acct, found)" by (cases "getAtoxAccount K c a") (simp add: GetAtoxAccount_def)
  note inj = sdk_lawsD(5) [OF assms(1)]
  have ow: "ComputeOwed (dmath K) bal (Index ?acct) (GlobalIndex ?gs) = (?n, ?n)"
    by (rule ComputeOwed_owed_floor [OF sdk_lawsD(3) [OF assms(1)] assms(3)])
  have n0: "0 \<le> ?n" by (rule owed_floor_nonneg)
  have addr: "ax_Address ?acct = acc_string (codec K) a" by (rule ax_Address_Get [OF assms(2)])
  have idx: "book_of K (SetAtoxAccount (?acct\<lparr>Index := GlobalIndex ?gs\<rparr>) c) =
      (book_of K c)\<lparr>bk_index := (bk_index (book_of K c))(a := GlobalIndex ?gs)\<rparr>"
    by (auto simp: book_of_def GetAtoxAccount_set [OF inj] addr fun_eq_iff)
  consider (module) "isModuleAccount K c a" "c' = c"
    | (none) "\<not> isModuleAccount K c a" "?n = 0" "c' = SetAtoxAccount (?acct\<lparr>Index := GlobalIndex ?gs\<rparr>) c"
    | (same) "\<not> isModuleAccount K c a" "?n = 0" "c' = c" "Index ?acct = GlobalIndex ?gs"
    | (owed) c1 where "\<not> isModuleAccount K c a" "0 < ?n" "burnAtoxFor K (app_hook K) c a ?n = (Inr (), c1)"
        "c' = SetGlobalState (?gs\<lparr>TotalBurned := TotalBurned ?gs + ?n, TotalPending := TotalPending ?gs + ?n\<rparr>)
               (SetAtoxAccount (?acct\<lparr>Pending := Pending ?acct + ?n, Index := GlobalIndex ?gs\<rparr>) c1)"
  proof (cases "isModuleAccount K c a")
    case True
    then show ?thesis using that(1) assms(5) by (simp add: SettleAccountWithBalance_def)
  next
    case nm: False
    show ?thesis
    proof (cases "0 < ?n")
      case False
      have "SettleAccountWithBalance K (app_hook K) c a bal =
          (if \<not> found \<or> Index ?acct \<noteq> GlobalIndex ?gs then (Inr 0, SetAtoxAccount (?acct\<lparr>Index := GlobalIndex ?gs\<rparr>) c)
           else (Inr 0, c))"
        using nm False assms(4) by (simp add: SettleAccountWithBalance_def g ow Let_def)
      then show ?thesis using nm n0 False assms(5) that(2,3) by (cases "\<not> found \<or> Index ?acct \<noteq> GlobalIndex ?gs") simp_all
    next
      case True
      obtain r1 c1 where b: "burnAtoxFor K (app_hook K) c a ?n = (r1, c1)" by (cases "burnAtoxFor K (app_hook K) c a ?n")
      have "SettleAccountWithBalance K (app_hook K) c a bal =
          (case r1 of Inl e \<Rightarrow> (Inl e, c1) | Inr _ \<Rightarrow> (Inr ?n,
             SetGlobalState (?gs\<lparr>TotalBurned := TotalBurned ?gs + ?n, TotalPending := TotalPending ?gs + ?n\<rparr>)
               (SetAtoxAccount (?acct\<lparr>Pending := Pending ?acct + ?n, Index := GlobalIndex ?gs\<rparr>) c1)))"
        using nm True assms(4) b by (cases r1) (simp_all add: SettleAccountWithBalance_def g ow Let_def)
      then show ?thesis using True nm assms(5) b that(4) by (cases r1) simp_all
    qed
  qed
  then have "book_of K c' = settle_spec a bal (book_of K c) \<and> touch K c c' \<and> atox_records c'"
  proof cases
    case module
    then show ?thesis using assms(2) by (simp add: settle_spec_def)
  next
    case none
    then show ?thesis using assms(2) idx by (simp add: settle_spec_def Let_def book_of_def fun_upd_idem)
  next
    case same
    then show ?thesis using assms(2) by (simp add: settle_spec_def Let_def book_of_def fun_upd_idem)
  next
    case owed
    note b = settle_burn_cases [OF sdk_lawsD(1) [OF assms(1)] sdk_lawsD(7) [OF assms(1)] owed(2,3)]
    note q = book_of_quiet [OF b(2)]
    have "touch K c c'" unfolding owed(4) by (rule touch_trans [OF b(1)]) (rule touch_trans [OF touch_SetAtoxAccount touch_SetGlobalState])
    moreover have "atox_records c'" unfolding owed(4) using assms(2) q(2) by simp
    moreover have "book_of K c' = settle_spec a bal (book_of K c)"
    proof -
      have "book_of K c' = (book_of K c1)\<lparr>bk_state := ?gs\<lparr>TotalBurned := TotalBurned ?gs + ?n, TotalPending := TotalPending ?gs + ?n\<rparr>,
          bk_index := (bk_index (book_of K c1))(a := GlobalIndex ?gs),
          bk_pending := (bk_pending (book_of K c1))(a := Pending ?acct + ?n)\<rparr>"
        unfolding owed(4) by (auto simp: book_of_def GetAtoxAccount_set [OF inj] addr fun_eq_iff)
      then show ?thesis unfolding b(3) [OF refl] using owed(1)
        by (simp add: settle_spec_def Let_def burn_spec_def book_of_def fun_eq_iff)
    qed
    ultimately show ?thesis by simp
  qed
  then show "book_of K c' = settle_spec a bal (book_of K c)" "touch K c c'" "atox_records c'" by simp_all
qed

lemma settle_fails:
  assumes "sdk_laws K" "atox_records c"
    "0 \<le> Index (GetAtoxAccount K c a)" "SettleAccountWithBalance K (app_hook K) c a bal = (Inl e, c')"
  obtains "c' = c"
  | n where "0 < n" "module_registered K AtoxModuleName" "touch K c c'" "atox_records c'"
      "book_of K c' = move_spec a (module_address K AtoxModuleName) n (book_of K c)"
proof -
  let ?gs = "GetGlobalState c" and ?acct = "GetAtoxAccount K c a"
  let ?n = "owed_floor bal (Index ?acct) (GlobalIndex ?gs)"
  obtain found where g: "getAtoxAccount K c a = (?acct, found)" by (cases "getAtoxAccount K c a") (simp add: GetAtoxAccount_def)
  have ow: "ComputeOwed (dmath K) bal (Index ?acct) (GlobalIndex ?gs) = (?n, ?n)"
    by (rule ComputeOwed_owed_floor [OF sdk_lawsD(3) [OF assms(1)] assms(3)])
  have n: "0 < ?n" and b: "burnAtoxFor K (app_hook K) c a ?n = (Inl e, c')"
    using assms(4) by (auto simp: SettleAccountWithBalance_def g ow Let_def split: if_splits sum.splits prod.splits)
  note s = settle_burn_cases [OF sdk_lawsD(1) [OF assms(1)] sdk_lawsD(7) [OF assms(1)] n b]
  show ?thesis using s(4) [OF refl] that(1) that(2) [OF n _ s(1)] book_of_quiet(2) [OF s(2)] assms(2) by blast
qed

lemma settle_shift:
  "settle_spec a b (s\<lparr>bk_balance := (\<lambda>x. bk_balance s x + d x), bk_pool := p\<rparr>) =
   (settle_spec a b s)\<lparr>bk_balance := (\<lambda>x. bk_balance (settle_spec a b s) x + d x), bk_pool := p\<rparr>"
  by (simp add: settle_spec_def Let_def fun_eq_iff)

text \<open>
  A transfer through the registered restriction: the sender is debited, both parties settle on their
  balances before the transfer, and the receiver is credited.
\<close>

definition sent :: "'x sdk \<Rightarrow> addr \<Rightarrow> addr \<Rightarrow> coins \<Rightarrow> 'x ctx \<Rightarrow> 'x ctx \<Rightarrow> bool" where
  "sent K f t cs c c' \<longleftrightarrow> c' = c\<lparr>st_energy := st_energy c', st_atox := st_atox c', ext := ext c'\<rparr> \<and>
     same_rest K (ext c) (ext c') \<and> (accounts_ok (st_energy c) \<longrightarrow> same_books (st_energy c) (st_energy c')) \<and>
     x_params (st_atox c') = x_params (st_atox c) \<and> x_cursor (st_atox c') = x_cursor (st_atox c) \<and>
     x_swept (st_atox c') = x_swept (st_atox c) \<and> (\<forall>d. 0 \<le> AmountOf cs d) \<and>
     (\<forall>b d. d \<noteq> AtoxBaseDenom \<longrightarrow> balance K c' b d =
        balance K c b d - (if b = f then AmountOf cs d else 0) + (if b = t then AmountOf cs d else 0)) \<and>
     (\<forall>d. d \<noteq> AtoxBaseDenom \<longrightarrow> bank_supply K (ext c') d = bank_supply K (ext c) d)"

lemma sent_simps:
  assumes "sent K f t cs c c'"
  shows "st_oracle c' = st_oracle c" "st_tokenomics c' = st_tokenomics c" "st_bridge c' = st_bridge c"
    "block_time c' = block_time c" "block_height c' = block_height c" "tx_bytes c' = tx_bytes c"
    "fee_in_progress c' = fee_in_progress c" "isModuleAccount K c' = isModuleAccount K c"
    "atox_GetParams c' = atox_GetParams c" "0 \<le> AmountOf cs d"
    "d \<noteq> AtoxBaseDenom \<Longrightarrow> balance K c' b d =
       balance K c b d - (if b = f then AmountOf cs d else 0) + (if b = t then AmountOf cs d else 0)"
    "accounts_ok (st_energy c) \<Longrightarrow> same_books (st_energy c) (st_energy c')"
  using assms by (cases c; cases c'; auto simp: sent_def same_rest_def isModuleAccount_def fun_eq_iff atox_GetParams_def)+

lemma app_hook_settles:
  assumes "sdk_laws K" "\<not> fee_in_progress c" "0 < AmountOf cs AtoxBaseDenom" "f \<noteq> t"
    "atox_records c"
    "\<And>a. 0 \<le> Index (GetAtoxAccount K c a) \<and> Index (GetAtoxAccount K c a) \<le> GlobalIndex (GetGlobalState c)"
    "atox_SendRestriction K (app_hook K) c f t cs = Inr (t', c')"
  shows "t' = t" "touch K c c'" "atox_records c'"
    "book_of K c' = settle_spec t (AtoxBalance K c t) (settle_spec f (AtoxBalance K c f + AmountOf cs AtoxBaseDenom) (book_of K c))"
proof -
  let ?m = "AmountOf cs AtoxBaseDenom"
  obtain r1 c1 r2 where st: "SettleAccountWithBalance K (app_hook K) c f (AtoxBalance K c f + ?m) = (Inr r1, c1)"
    "SettleAccountWithBalance K (app_hook K) c1 t (AtoxBalance K c t) = (Inr r2, c')" and t: "t' = t"
    using assms(2,3,4,7) by (auto simp: atox_SendRestriction_def Let_def split: sum.splits prod.splits)
  note s1 = settle_refines [OF assms(1) assms(5) _ _ st(1)]
  have b1: "book_of K c1 = settle_spec f (AtoxBalance K c f + ?m) (book_of K c)" "touch K c c1" "atox_records c1"
    using s1 assms(6) by blast+
  have "Index (GetAtoxAccount K c1 t) = bk_index (book_of K c1) t" "GlobalIndex (GetGlobalState c1) = GlobalIndex (bk_state (book_of K c1))"
    by simp_all
  then have "0 \<le> Index (GetAtoxAccount K c1 t)" "Index (GetAtoxAccount K c1 t) \<le> GlobalIndex (GetGlobalState c1)"
    using assms(4,6) unfolding b1 by (simp_all add: settle_spec_keeps)
  note s2 = settle_refines [OF assms(1) b1(3) this st(2)]
  show "t' = t" "touch K c c'" "atox_records c'" using t s2 touch_trans [OF b1(2) s2(2)] by simp_all
  show "book_of K c' = settle_spec t (AtoxBalance K c t) (settle_spec f (AtoxBalance K c f + ?m) (book_of K c))"
    using s2(1) b1(1) by simp
qed

lemma send_refines:
  assumes laws: "sdk_laws K" and flag: "\<not> fee_in_progress c" and rec: "atox_records c"
    and ac: "accounts_sound (book_of K c)" and send: "send_coins K (app_hook K) c f t cs = Inr c'"
  shows "book_of K c' = (send_spec f t (AmountOf cs AtoxBaseDenom) (book_of K c))\<lparr>bk_pool := ExchangePoolBalance K c'\<rparr>"
    "atox_records c'" "sent K f t cs c c'"
proof -
  let ?m = "AmountOf cs AtoxBaseDenom"
  note bl = sdk_lawsD(1) [OF laws]
  obtain x1 t' c2 x3 where s: "bank_sub K (ext c) f cs = Inr x1" "app_hook K (c\<lparr>ext := x1\<rparr>) f t cs = Inr (t', c2)"
    "bank_add K (ext c2) t' cs = Inr x3" "c' = c2\<lparr>ext := x3\<rparr>"
    using send_coins_InrE [OF bl send] by metis
  obtain c1 where r: "energy_SendRestriction K (c\<lparr>ext := x1\<rparr>) f t cs = Inr (t, c1)" using restriction_total .
  note fr = restriction_frame(2,3) [OF r]
  note sub = bank_sub_law [OF bl s(1)] and add = bank_add_law [OF bl s(3)]
  have q: "quiet K c c1"
    using quiet_trans [OF quiet_ext [OF sub(1)] quiet_frame [OF fr]] .
  have x: "ext c1 = x1" using fr by (simp add: frame_simps)
  have a: "atox_SendRestriction K (app_hook K) c1 f t cs = Inr (t', c2)" using s(2) by (simp add: app_hook_eq [OF bl r])
  let ?d = "\<lambda>b. - (if b = f then ?m else 0)"
  have bk1: "book_of K c1 = (book_of K c)\<lparr>bk_balance := (\<lambda>b. bk_balance (book_of K c) b + ?d b), bk_pool := ExchangePoolBalance K c1\<rparr>"
    unfolding book_of_quiet(1) [OF q] by (simp add: AtoxBalance_def AtoxSupply_def x sub(2,3) fun_eq_iff book_of_def)
  have ix: "0 \<le> Index (GetAtoxAccount K c1 b) \<and> Index (GetAtoxAccount K c1 b) \<le> GlobalIndex (GetGlobalState c1)" for b
    using ac book_of_quiet(3,4) [OF q] by (simp add: accounts_sound_def GetAtoxAccount_def)
  have rec1: "atox_records c1" using book_of_quiet(2) [OF q] rec by simp
  have flag1: "\<not> fee_in_progress c1" using quiet_simps [OF q] flag by simp
  have m0: "0 \<le> ?m" by (rule sub(4))
  have res: "t' = t \<and> touch K c1 c2 \<and> atox_records c2 \<and>
      book_of K c2 = (if ?m \<le> 0 \<or> f = t then book_of K c1 else
        settle_spec t (AtoxBalance K c1 t) (settle_spec f (AtoxBalance K c1 f + ?m) (book_of K c1)))"
  proof (cases "?m \<le> 0 \<or> f = t")
    case True
    then have "t' = t" "c2 = c1" using a by (auto simp: atox_SendRestriction_def Let_def split: if_splits)
    then show ?thesis using rec1 True by simp
  next
    case False
    then show ?thesis using app_hook_settles [OF laws flag1 _ _ rec1 ix a] by simp
  qed
  have t': "t' = t" and tc: "touch K c1 c2" using res by simp_all
  have b': "balance K c' b d = balance K c2 b d + (if b = t then AmountOf cs d else 0)" for b d
    by (simp add: s(4) add(3) t')
  have q': "quiet K c2 c'" unfolding s(4) by (rule quiet_ext [OF add(1)])
  show "atox_records c'" using res book_of_quiet(2) [OF q'] by simp
  show "sent K f t cs c c'"
    unfolding sent_def
  proof (intro conjI allI impI)
    show "c' = c\<lparr>st_energy := st_energy c', st_atox := st_atox c', ext := ext c'\<rparr>"
      using q tc by (cases c; cases c1; cases c2; simp add: s(4) quiet_def touch_def)
    show "same_rest K (ext c) (ext c')"
      using q tc q' by (meson quiet_def touch_def same_rest_trans)
    show "same_books (st_energy c) (st_energy c')" if "accounts_ok (st_energy c)"
      using q tc q' that by (auto simp: quiet_def touch_def same_books_def)
    show "x_params (st_atox c') = x_params (st_atox c)" "x_cursor (st_atox c') = x_cursor (st_atox c)"
      "x_swept (st_atox c') = x_swept (st_atox c)"
      using quiet_simps(1) [OF q] quiet_simps(1) [OF q'] tc by (simp_all add: touch_def)
    show "0 \<le> AmountOf cs d" for d by (rule sub(4))
    show "balance K c' b d = balance K c b d - (if b = f then AmountOf cs d else 0) + (if b = t then AmountOf cs d else 0)"
      if "d \<noteq> AtoxBaseDenom" for b d
      using touch_simps(10) [OF tc that, of b] by (simp add: b' x sub(3))
    show "bank_supply K (ext c') d = bank_supply K (ext c) d" if "d \<noteq> AtoxBaseDenom" for d
      using tc that by (simp add: touch_def s(4) add(2) x sub(2))
  qed
  have sup: "AtoxSupply K c' = AtoxSupply K c2" by (simp add: AtoxSupply_def s(4) add(2))
  have bal': "AtoxBalance K c' = (\<lambda>b. AtoxBalance K c2 b + (if b = t then ?m else 0))" by (simp add: AtoxBalance_def b' fun_eq_iff)
  have bk': "book_of K c' = (book_of K c2)\<lparr>bk_balance := (\<lambda>b. bk_balance (book_of K c2) b + (if b = t then ?m else 0)),
      bk_pool := ExchangePoolBalance K c'\<rparr>"
    unfolding book_of_quiet(1) [OF q'] sup bal' by (simp add: book_of_def)
  have f1: "AtoxBalance K c1 f + ?m = AtoxBalance K c f" and t1: "f \<noteq> t \<Longrightarrow> AtoxBalance K c1 t = AtoxBalance K c t"
    by (simp_all add: AtoxBalance_def x sub(3))
  show "book_of K c' = (send_spec f t ?m (book_of K c))\<lparr>bk_pool := ExchangePoolBalance K c'\<rparr>"
  proof (cases "?m \<le> 0 \<or> f = t")
    case True
    then have e: "(\<lambda>b. AtoxBalance K c b - (if b = f then ?m else 0) + (if b = t then ?m else 0)) = AtoxBalance K c"
      using m0 by (auto simp: fun_eq_iff)
    have "book_of K c2 = book_of K c1" using res True by simp
    then show ?thesis using True unfolding bk' bk1 by (simp add: send_spec_def e)
  next
    case False
    let ?s1 = "settle_spec f (AtoxBalance K c f) (book_of K c)"
    have "book_of K c2 = settle_spec t (AtoxBalance K c t) (settle_spec f (AtoxBalance K c f) (book_of K c1))"
      using res False f1 t1 by simp
    also have "\<dots> = (settle_spec t (AtoxBalance K c t) ?s1)\<lparr>bk_balance :=
        (\<lambda>x. bk_balance (settle_spec t (AtoxBalance K c t) ?s1) x + ?d x), bk_pool := ExchangePoolBalance K c1\<rparr>"
      unfolding bk1 settle_shift by (rule refl)
    finally have c2: "book_of K c2 = \<dots>" .
    moreover have "bk_balance ?s1 t = AtoxBalance K c t" using False settle_spec_keeps(5) [of t f] by auto
    ultimately show ?thesis using False unfolding bk' c2
      by (simp add: send_spec_def Let_def move_spec_def fun_eq_iff)
  qed
qed

section \<open>The registered restriction keeps the energy books\<close>

lemma settle_touch:
  assumes "bank_laws K" "base_denom K \<noteq> AtoxBaseDenom" "SettleAccountWithBalance K (app_hook K) c a b = (r, c')"
  shows "touch K c c'"
proof -
  let ?gs = "GetGlobalState c"
  obtain acct found where g: "getAtoxAccount K c a = (acct, found)" by fastforce
  obtain owed burn where o: "ComputeOwed (dmath K) b (Index acct) (GlobalIndex ?gs) = (owed, burn)" by fastforce
  have "c' = c \<or> (\<exists>x. c' = SetAtoxAccount x c) \<or>
      (\<exists>c1. (c1 = c \<or> (0 < burn \<and> (\<exists>r1. burnAtoxFor K (app_hook K) c a burn = (r1, c1)))) \<and>
         (c' = c1 \<or> (\<exists>gs x. c' = SetGlobalState gs (SetAtoxAccount x c1))))"
    using assms(3) unfolding SettleAccountWithBalance_def g o Let_def prod.case
    by (auto split: if_splits sum.splits prod.splits)
  moreover have "touch K c c1" if "0 < burn" "burnAtoxFor K (app_hook K) c a burn = (r1, c1)" for r1 c1
    by (rule settle_burn_cases(1) [OF assms(1,2) that])
  ultimately show ?thesis
    using touch_SetAtoxAccount [of K] touch_trans [OF touch_SetAtoxAccount touch_SetGlobalState, of K] touch_trans [of K c]
    by (auto simp del: touch_SetAtoxAccount touch_SetGlobalState)
qed

lemma app_hook_touch:
  assumes "bank_laws K" "base_denom K \<noteq> AtoxBaseDenom" "app_hook K c f t cs = Inr (t', c')"
  shows "t' = t" "touch K c c'"
proof -
  obtain c1 where r: "energy_SendRestriction K c f t cs = Inr (t, c1)" using restriction_total .
  note fr = restriction_frame(2,3) [OF r]
  have t1: "touch K c c1" by (rule touch_quiet [OF quiet_frame [OF fr]]) (use fr in \<open>simp_all add: frame_simps\<close>)
  have "t' = t \<and> touch K c1 c'"
    using assms(3) settle_touch [OF assms(1,2)] touch_trans [of K]
    unfolding app_hook_eq [OF assms(1) r] atox_SendRestriction_def Let_def
    by (auto split: if_splits sum.splits prod.splits) metis
  then show "t' = t" "touch K c c'" using touch_trans [OF t1] by simp_all
qed

interpretation app: energy_hook app_hook
proof
  fix K :: "'x sdk" and c f t cs t' c'
  assume a: "sdk_laws K" "accounts_ok (st_energy c)" "app_hook K c f t cs = Inr (t', c')"
  note h = app_hook_touch [OF sdk_lawsD(1,7) [OF a(1)] a(3)]
  have "pool_balance K c' = pool_balance K c"
    using touch_simps(10) [OF h(2) sdk_lawsD(7) [OF a(1)]] by (simp add: pool_balance_def)
  then show "t' = t \<and> same_books (st_energy c) (st_energy c') \<and> pool_balance K c \<le> pool_balance K c' \<and>
      block_time c' = block_time c"
    using h a(2) touch_simps(4) [OF h(2)] by (simp add: touch_def)
qed

end
