(* ===== verification/AtoxSafe.thy ===== *)
theory AtoxSafe
  imports AtoxRefine
begin

text \<open>
  The keeper's operations keep the ATOX books sound: settlement on success and on failure, transfers,
  releases into the exchange pool, issuance, the transfer fee, payouts and the sweep at the end of the
  block.  \<open>payout_cases\<close> shows that in a safe state the insolvency branches of a payout are never taken.
\<close>

section \<open>Safe states\<close>

definition atox_safe :: "'x sdk \<Rightarrow> 'x ctx \<Rightarrow> bool" where
  "atox_safe K c \<longleftrightarrow> \<not> fee_in_progress c \<and> atox_records c \<and> book_sound (AtoxSupplyCap c) (book_of K c)"

lemma atox_safeD:
  assumes "atox_safe K c"
  shows "\<not> fee_in_progress c" "atox_records c" "book_sound (AtoxSupplyCap c) (book_of K c)" "accounts_sound (book_of K c)"
    "0 \<le> Index (GetAtoxAccount K c a)" "Index (GetAtoxAccount K c a) \<le> GlobalIndex (GetGlobalState c)"
    "0 \<le> Pending (GetAtoxAccount K c a)"
  using assms by (auto simp: atox_safe_def book_sound_def accounts_sound_def)

lemma touch_safe:
  assumes "atox_safe K c" "touch K c c'" "atox_records c'" "book_sound (AtoxSupplyCap c) (book_of K c')"
  shows "atox_safe K c'"
  using assms touch_simps [OF assms(2)] by (simp add: atox_safe_def AtoxSupplyCap_def)

lemma move_safe:
  assumes "book_sound C s" "idle s t" "0 \<le> m" "0 \<le> bk_balance (move_spec f t m s) f"
  shows "book_sound C (move_spec f t m s)"
proof (cases "f = t")
  case True
  then have "move_spec f t m s = s" by (simp add: move_spec_def)
  then show ?thesis using assms(1) by simp
next
  case False
  then show ?thesis using assms move_spec_sound by (simp add: move_spec_def)
qed

text \<open>Settlement keeps the books sound whether it succeeds or fails.\<close>

lemma settle_safe:
  assumes laws: "sdk_laws K" and safe: "atox_safe K c"
    and s: "SettleAccountWithBalance K (app_hook K) c a (AtoxBalance K c a) = (r, c')"
  shows "atox_safe K c'" "touch K c c'"
proof -
  note d = atox_safeD [OF safe]
  have "atox_safe K c' \<and> touch K c c'"
  proof (cases r)
    case (Inr v)
    note ref = settle_refines [OF laws d(2) d(5) d(6) s [unfolded Inr]]
    have "book_sound (AtoxSupplyCap c) (book_of K c')"
      unfolding ref(1) using settle_spec_sound [OF d(3), of a] by simp
    then show ?thesis using touch_safe [OF safe ref(2,3)] ref(2) by simp
  next
    case (Inl e)
    show ?thesis
    proof (rule settle_fails [OF laws d(2) d(5) s [unfolded Inl]])
      assume "c' = c"
      then show ?thesis using safe by simp
    next
      fix n
      assume n: "0 < n" "module_registered K AtoxModuleName" "touch K c c'" "atox_records c'"
        "book_of K c' = move_spec a (module_address K AtoxModuleName) n (book_of K c)"
      have "0 \<le> AtoxBalance K c' a" using bank_balance_nonneg [OF sdk_lawsD(1) [OF laws]] by (simp add: AtoxBalance_def)
      then have "0 \<le> bk_balance (move_spec a (module_address K AtoxModuleName) n (book_of K c)) a"
        unfolding n(5) [symmetric] by simp
      moreover have "idle (book_of K c) (module_address K AtoxModuleName)"
        using sdk_lawsD(6) [OF laws n(2)] by (simp add: idle_def isModuleAccount_def)
      ultimately have "book_sound (AtoxSupplyCap c) (book_of K c')"
        unfolding n(5) using n(1) by (intro move_safe [OF d(3)]) simp_all
      then show ?thesis using touch_safe [OF safe n(3,4)] n(3) by simp
    qed
  qed
  then show "atox_safe K c'" "touch K c c'" by simp_all
qed

lemma sound_pool:
  assumes "book_sound C s" "bk_pool s \<le> p"
  shows "book_sound C (s\<lparr>bk_pool := p\<rparr>)"
  using book_sound_outside [OF assms, of "bk_module s" "TotalFeeBurned (bk_state s)"] by simp

lemma sent_pool:
  assumes "sdk_laws K" "sent K f t cs c c'" "f \<noteq> ExchangePoolAddress K"
  shows "ExchangePoolBalance K c \<le> ExchangePoolBalance K c'"
  using sent_simps(10,11) [OF assms(2)] sdk_lawsD(7) [OF assms(1)] assms(3) by (simp add: ExchangePoolBalance_def)

lemma send_safe:
  assumes laws: "sdk_laws K" and safe: "atox_safe K c"
    and send: "send_coins K (app_hook K) c f t cs = Inr c'" and f: "f \<noteq> ExchangePoolAddress K"
  shows "atox_safe K c'"
proof -
  note d = atox_safeD [OF safe]
  let ?m = "AmountOf cs AtoxBaseDenom" and ?s = "book_of K c"
  note ref = send_refines [OF laws d(1,2,4) send]
  have b: "bk_balance (send_spec f t ?m ?s) = AtoxBalance K c'"
    using arg_cong [OF ref(1), of bk_balance] by simp
  have "0 \<le> AtoxBalance K c' f" using bank_balance_nonneg [OF sdk_lawsD(1) [OF laws]] by (simp add: AtoxBalance_def)
  then have "book_sound (AtoxSupplyCap c) (send_spec f t ?m ?s)" by (intro send_spec_sound [OF d(3)]) (simp add: b)
  moreover have "bk_pool (send_spec f t ?m ?s) = ExchangePoolBalance K c"
    by (simp add: send_spec_def Let_def move_spec_def settle_spec_keeps)
  ultimately have "book_sound (AtoxSupplyCap c) (book_of K c')"
    unfolding ref(1) using sent_pool [OF laws ref(3) f] by (intro sound_pool) simp_all
  then show ?thesis using d ref(2) sent_simps [OF ref(3)] by (simp add: atox_safe_def AtoxSupplyCap_def)
qed

section \<open>Releases, issuance and burns\<close>

lemma ExchangePool_ne [simp]: "sdk_laws K \<Longrightarrow> m \<noteq> ExchangePoolName \<Longrightarrow> module_address K m \<noteq> ExchangePoolAddress K"
  by (simp add: ExchangePoolAddress_def inj_eq [OF sdk_lawsD(4)])

lemma AtoxModule_ne [simp]: "AtoxModuleName \<noteq> ExchangePoolName"
  by (simp add: AtoxModuleName_def ExchangePoolName_def)

lemma ext_safe:
  assumes "atox_safe K c" "same_rest K (ext c) y" "book_sound (AtoxSupplyCap c) (book_of K (c\<lparr>ext := y\<rparr>))"
  shows "atox_safe K (c\<lparr>ext := y\<rparr>)"
  using assms by (simp add: atox_safe_def atox_records_def AtoxSupplyCap_def atox_GetParams_def)

lemma book_of_global: "book_of K (SetGlobalState gs c) = (book_of K c)\<lparr>bk_state := gs\<rparr>"
  by (simp add: book_of_def)

lemma safe_global: "atox_records c \<Longrightarrow> \<not> fee_in_progress c \<Longrightarrow>
    book_sound (AtoxSupplyCap c) ((book_of K c)\<lparr>bk_state := gs\<rparr>) \<Longrightarrow> atox_safe K (SetGlobalState gs c)"
  by (simp add: atox_safe_def book_of_global, simp add: SetGlobalState_def upd_atox_def AtoxSupplyCap_def atox_GetParams_def)

text \<open>A transfer of ATOS changes nothing in the book but the pool.\<close>

lemma base_send_book:
  assumes laws: "sdk_laws K" and safe: "atox_safe K c"
    and send: "send_coins K (app_hook K) c f t [(base_denom K, n)] = Inr c'"
  shows "book_of K c' = (book_of K c)\<lparr>bk_pool := ExchangePoolBalance K c'\<rparr>" "atox_records c'"
    "sent K f t [(base_denom K, n)] c c'" "AtoxSupplyCap c' = AtoxSupplyCap c" "\<not> fee_in_progress c'"
    "ExchangePoolBalance K c' = ExchangePoolBalance K c - (if f = ExchangePoolAddress K then n else 0) +
       (if t = ExchangePoolAddress K then n else 0)"
proof -
  note d = atox_safeD [OF safe] and ne = sdk_lawsD(7) [OF laws]
  note ref = send_refines [OF laws d(1,2,4) send]
  show "book_of K c' = (book_of K c)\<lparr>bk_pool := ExchangePoolBalance K c'\<rparr>"
    using ref(1) ne by (simp add: send_spec_def)
  show "atox_records c'" "sent K f t [(base_denom K, n)] c c'" by (fact ref)+
  show "AtoxSupplyCap c' = AtoxSupplyCap c" "\<not> fee_in_progress c'"
    using sent_simps(7,9) [OF ref(3)] d(1) by (simp_all add: AtoxSupplyCap_def)
  show "ExchangePoolBalance K c' = ExchangePoolBalance K c - (if f = ExchangePoolAddress K then n else 0) +
       (if t = ExchangePoolAddress K then n else 0)"
    using sent_simps(11) [OF ref(3), of "base_denom K" "ExchangePoolAddress K"] ne by (auto simp: ExchangePoolBalance_def)
qed

lemma release_refines:
  assumes laws: "sdk_laws K" and safe: "atox_safe K c"
    and rel: "AddToExchangePool K (app_hook K) c m amount = Inr c'" and m: "m \<noteq> ExchangePoolName"
  obtains delta r where "ComputeIndexDelta amount (IndexRemainder (GetGlobalState c)) (AtoxSupplyCap c) = Inr (delta, r)"
    "book_of K c' = release_spec amount delta r (book_of K c)" "atox_safe K c'"
proof -
  note d = atox_safeD [OF safe]
  let ?gs = "GetGlobalState c"
  obtain delta r cs c1 where s: "0 < amount" "ComputeIndexDelta amount (IndexRemainder ?gs) (AtoxSupplyCap c) = Inr (delta, r)"
    "new_coins (base_denom K) amount = Inr cs" "send_between_modules K (app_hook K) c m ExchangePoolName cs = Inr c1"
    "c' = SetGlobalState (?gs\<lparr>GlobalIndex := GlobalIndex ?gs + delta, IndexRemainder := r,
        TotalReleasedToPool := TotalReleasedToPool ?gs + amount\<rparr>) c1"
    using rel by (auto simp: AddToExchangePool_def AtoxSupplyCap_def Let_def split: if_splits)
  have cs: "cs = [(base_denom K, amount)]" using new_coins_Inr [OF s(3)] s(1) by simp
  have send: "send_coins K (app_hook K) c (module_address K m) (ExchangePoolAddress K) [(base_denom K, amount)] = Inr c1"
    using send_between_modules_InrD [OF sdk_lawsD(1) [OF laws] s(4)] by (simp add: cs ExchangePoolAddress_def)
  note b = base_send_book [OF laws safe send]
  have pool: "ExchangePoolBalance K c1 = ExchangePoolBalance K c + amount"
    using b(6) ExchangePool_ne [OF laws m] by simp
  have bk: "(book_of K c1)\<lparr>bk_state := ?gs\<lparr>GlobalIndex := GlobalIndex ?gs + delta, IndexRemainder := r,
        TotalReleasedToPool := TotalReleasedToPool ?gs + amount\<rparr>\<rparr> = release_spec amount delta r (book_of K c)"
    unfolding b(1) pool by (simp add: release_spec_def)
  note e = ComputeIndexDelta_exact [OF s(2)]
  have "book_sound (AtoxSupplyCap c) (release_spec amount delta r (book_of K c))"
    by (rule release_spec_sound [OF d(3)]) (use e in \<open>simp_all add: IndexPrecision_def decP_def\<close>)
  then have "atox_safe K c'" unfolding s(5) by (intro safe_global b(2,5)) (simp add: b(4) bk)
  then show ?thesis using that [OF s(2)] bk by (simp add: s(5) book_of_global)
qed

lemma mint_safe:
  assumes laws: "sdk_laws K" and safe: "atox_safe K c"
    and mint: "mint_coins K c m [(AtoxBaseDenom, n)] = Inr c'" "module_registered K m"
    and cap: "MintedAgainstCap K c + n \<le> AtoxSupplyCap c"
  shows "atox_safe K c'" "book_of K c' = issue_spec (module_address K m) n (book_of K c)"
    "AtoxSupplyCap c' = AtoxSupplyCap c"
proof -
  note d = atox_safeD [OF safe] and ne = sdk_lawsD(7) [OF laws]
  obtain y where y: "c' = c\<lparr>ext := y\<rparr>" "same_rest K (ext c) y" "\<And>d. 0 \<le> AmountOf [(AtoxBaseDenom, n)] d"
    "\<And>d. bank_supply K y d = bank_supply K (ext c) d + AmountOf [(AtoxBaseDenom, n)] d"
    "\<And>b d. bank_balance K y b d = bank_balance K (ext c) b d +
        (if b = module_address K m then AmountOf [(AtoxBaseDenom, n)] d else 0)"
    using mint_coins_InrE [OF sdk_lawsD(1) [OF laws] mint(1)] by metis
  have n: "0 \<le> n" using y(3) [of AtoxBaseDenom] by simp
  note q = book_of_quiet(1) [OF quiet_ext [OF y(2)]]
  show bk: "book_of K c' = issue_spec (module_address K m) n (book_of K c)"
    unfolding y(1) q using ne
    by (simp add: issue_spec_def AtoxBalance_def AtoxSupply_def ExchangePoolBalance_def y(4,5) fun_eq_iff book_of_def)
  have "idle (book_of K c) (module_address K m)"
    using sdk_lawsD(6) [OF laws mint(2)] by (simp add: idle_def isModuleAccount_def)
  then have "book_sound (AtoxSupplyCap c) (book_of K c')"
    unfolding bk using cap n by (intro issue_spec_sound [OF d(3)]) (simp_all add: MintedAgainstCap_def)
  then show "atox_safe K c'" unfolding y(1) by (rule ext_safe [OF safe y(2)])
  show "AtoxSupplyCap c' = AtoxSupplyCap c" by (simp add: y(1) AtoxSupplyCap_def atox_GetParams_def)
qed

lemma burn_safe:
  assumes laws: "sdk_laws K" and safe: "atox_safe K c"
    and burn: "burn_coins K c m [(AtoxBaseDenom, n)] = Inr c'"
  shows "atox_safe K c'" "book_of K c' = burn_spec (module_address K m) n (book_of K c)" "0 \<le> n"
    "\<And>b d. d \<noteq> AtoxBaseDenom \<Longrightarrow> balance K c' b d = balance K c b d"
proof -
  note d = atox_safeD [OF safe] and ne = sdk_lawsD(7) [OF laws] and bl = sdk_lawsD(1) [OF laws]
  obtain y where y: "c' = c\<lparr>ext := y\<rparr>" "same_rest K (ext c) y" "\<And>d. 0 \<le> AmountOf [(AtoxBaseDenom, n)] d"
    "\<And>d. bank_supply K y d = bank_supply K (ext c) d - AmountOf [(AtoxBaseDenom, n)] d"
    "\<And>b d. bank_balance K y b d = bank_balance K (ext c) b d -
        (if b = module_address K m then AmountOf [(AtoxBaseDenom, n)] d else 0)"
    using burn_coins_InrE [OF bl burn] by metis
  show n: "0 \<le> n" using y(3) [of AtoxBaseDenom] by simp
  show "balance K c' b d = balance K c b d" if "d \<noteq> AtoxBaseDenom" for b d using that y(5) by (simp add: y(1))
  note q = book_of_quiet(1) [OF quiet_ext [OF y(2)]]
  show bk: "book_of K c' = burn_spec (module_address K m) n (book_of K c)"
    unfolding y(1) q using ne
    by (simp add: burn_spec_def AtoxBalance_def AtoxSupply_def ExchangePoolBalance_def y(4,5) fun_eq_iff book_of_def)
  have "n \<le> AtoxBalance K c (module_address K m)"
    using bank_balance_nonneg [OF bl, of y "module_address K m" AtoxBaseDenom] y(5) by (simp add: AtoxBalance_def)
  then have "book_sound (AtoxSupplyCap c) (book_of K c')"
    unfolding bk using n by (intro burn_spec_sound [OF d(3)]) simp_all
  then show "atox_safe K c'" unfolding y(1) by (rule ext_safe [OF safe y(2)])
qed

lemma MintAtox_safe:
  assumes laws: "sdk_laws K" and safe: "atox_safe K c" and mint: "MintAtox K (app_hook K) c a n = Inr c'"
  shows "atox_safe K c'"
proof -
  obtain v c1 cs c2 where s: "0 < n" "MintedAgainstCap K c + n \<le> AtoxSupplyCap c"
    "SettleAccountWithBalance K (app_hook K) c a (AtoxBalance K c a) = (Inr v, c1)"
    "new_coins AtoxBaseDenom n = Inr cs" "mint_coins K c1 AtoxModuleName cs = Inr c2"
    "send_from_module K (app_hook K) c2 AtoxModuleName a cs = Inr c'"
    using mint by (auto simp: MintAtox_def AtoxSupplyCap_def Let_def split: if_splits sum.splits prod.splits)
  note d = atox_safeD [OF safe] and bl = sdk_lawsD(1) [OF laws]
  note set = settle_safe [OF laws safe s(3)] and ref = settle_refines [OF laws d(2) d(5) d(6) s(3)]
  have cs: "cs = [(AtoxBaseDenom, n)]" using new_coins_Inr [OF s(4)] s(1) by simp
  have reg: "module_registered K AtoxModuleName" using s(6) by (simp add: send_from_module_eq [OF bl] split: if_splits)
  have "MintedAgainstCap K c1 = MintedAgainstCap K c"
    using settle_spec_keeps(6) [of a "AtoxBalance K c a" "book_of K c", folded ref(1)] by (simp add: MintedAgainstCap_def)
  then have "MintedAgainstCap K c1 + n \<le> AtoxSupplyCap c1"
    using s(2) touch_simps(9) [OF set(2)] by (simp add: AtoxSupplyCap_def)
  note mnt = mint_safe [OF laws set(1) s(5) [unfolded cs] reg this]
  show ?thesis using send_safe [OF laws mnt(1) send_from_module_InrD [OF bl s(6)]] ExchangePool_ne [OF laws AtoxModule_ne] by simp
qed

lemma MintAtoxToModule_safe:
  assumes laws: "sdk_laws K" and safe: "atox_safe K c" and mint: "MintAtoxToModule K (app_hook K) c m n = Inr c'"
  shows "atox_safe K c'"
proof -
  obtain cs c2 where s: "0 < n" "MintedAgainstCap K c + n \<le> AtoxSupplyCap c" "new_coins AtoxBaseDenom n = Inr cs"
    "mint_coins K c AtoxModuleName cs = Inr c2" "send_between_modules K (app_hook K) c2 AtoxModuleName m cs = Inr c'"
    using mint by (auto simp: MintAtoxToModule_def AtoxSupplyCap_def Let_def split: if_splits)
  note bl = sdk_lawsD(1) [OF laws]
  have cs: "cs = [(AtoxBaseDenom, n)]" using new_coins_Inr [OF s(3)] s(1) by simp
  have reg: "module_registered K AtoxModuleName" using s(5) by (simp add: send_between_modules_eq [OF bl] split: if_splits)
  note mnt = mint_safe [OF laws safe s(4) [unfolded cs] reg s(2)]
  show ?thesis using send_safe [OF laws mnt(1) send_between_modules_InrD [OF bl s(5)]] ExchangePool_ne [OF laws AtoxModule_ne] by simp
qed

lemma RecordFeeBurn_safe:
  assumes "atox_safe K c"
  shows "atox_safe K (RecordFeeBurn fee c)"
proof -
  note d = atox_safeD [OF assms]
  show ?thesis unfolding RecordFeeBurn_def Let_def
    using d(1,2) book_sound_outside [OF d(3) order_refl, of "bk_module (book_of K c)" "TotalFeeBurned (GetGlobalState c) + fee"]
    by (intro safe_global) (simp_all add: book_of_def)
qed

text \<open>The fee of a transfer is burned through the module account.\<close>

lemma ChargeInclusiveFee_safe:
  assumes laws: "sdk_laws K" and safe: "atox_safe K c" and f: "f \<noteq> ExchangePoolAddress K"
    and charge: "ChargeInclusiveFee K (app_hook K) c f t amt = Inr c'"
  shows "atox_safe K c'"
proof (cases "send_coins K (app_hook K) c f t amt = Inr c'")
  case True
  then show ?thesis using send_safe [OF laws safe _ f] by blast
next
  case False
  let ?fee = "ComputeTransferFee (AmountOf amt AtoxBaseDenom) (get_TransferFeeBps c)"
  obtain cs c1 c2 where s: "0 < ?fee" "new_coins AtoxBaseDenom ?fee = Inr cs"
    "send_to_module K (app_hook K) c f AtoxModuleName cs = Inr c1" "burn_coins K c1 AtoxModuleName cs = Inr c2"
    "send_coins K (app_hook K) (RecordFeeBurn ?fee c2) f t (coins_sub amt AtoxBaseDenom ?fee) = Inr c'"
    using charge False by (auto simp: ChargeInclusiveFee_def Let_def split: if_splits)
  have cs: "cs = [(AtoxBaseDenom, ?fee)]" using new_coins_Inr [OF s(2)] s(1) by simp
  note s1 = send_safe [OF laws safe send_to_module_InrD [OF sdk_lawsD(1) [OF laws] s(3)] f]
  note s2 = burn_safe(1) [OF laws s1 s(4) [unfolded cs]]
  show ?thesis by (rule send_safe [OF laws RecordFeeBurn_safe [OF s2] s(5) f])
qed

text \<open>A transfer of ATOS runs no settlement.\<close>

lemma plain_send:
  assumes laws: "sdk_laws K" and send: "send_coins K (app_hook K) c f t cs = Inr c'"
    and cs: "\<not> 0 < AmountOf cs AtoxBaseDenom"
  shows "st_atox c' = st_atox c" "st_tokenomics c' = st_tokenomics c" "st_bridge c' = st_bridge c" "st_oracle c' = st_oracle c"
    "block_time c' = block_time c" "block_height c' = block_height c" "0 \<le> AmountOf cs d"
    "balance K c' b d = balance K c b d - (if b = f then AmountOf cs d else 0) + (if b = t then AmountOf cs d else 0)"
proof -
  note bl = sdk_lawsD(1) [OF laws]
  obtain x1 t' c2 x3 where s: "bank_sub K (ext c) f cs = Inr x1"
    "app_hook K (c\<lparr>ext := x1\<rparr>) f t cs = Inr (t', c2)"
    "bank_add K (ext c2) t' cs = Inr x3" "c' = c2\<lparr>ext := x3\<rparr>"
    using send_coins_InrE [OF bl send] by metis
  obtain c1 where r: "energy_SendRestriction K (c\<lparr>ext := x1\<rparr>) f t cs = Inr (t, c1)" using restriction_total .
  have c2: "c2 = c1" "t' = t" using s(2) cs unfolding app_hook_eq [OF bl r] by (simp_all add: atox_SendRestriction_def)
  note fr = restriction_frame(2) [OF r]
  have x: "ext c2 = x1" using fr c2 by (simp add: frame_simps)
  note sub = bank_sub_law [OF bl s(1)] and add = bank_add_law [OF bl s(3) [unfolded x]]
  show "st_atox c' = st_atox c" "st_tokenomics c' = st_tokenomics c" "st_bridge c' = st_bridge c" "st_oracle c' = st_oracle c"
    "block_time c' = block_time c" "block_height c' = block_height c"
    using fr by (cases c; cases c1; simp add: s(4) c2 frame_def)+
  show "0 \<le> AmountOf cs d" by (rule sub(4))
  show "balance K c' b d = balance K c b d - (if b = f then AmountOf cs d else 0) + (if b = t then AmountOf cs d else 0)"
    using sub(3) [of b d] add(3) [of b d] by (simp add: s(4) c2(2))
qed

lemma base_send:
  assumes "sdk_laws K" "send_coins K (app_hook K) c f t [(base_denom K, n)] = Inr c'"
  shows "st_atox c' = st_atox c" "st_tokenomics c' = st_tokenomics c" "st_bridge c' = st_bridge c" "0 \<le> n"
    "balance K c' b (base_denom K) = balance K c b (base_denom K) - (if b = f then n else 0) + (if b = t then n else 0)"
  using plain_send [OF assms] plain_send(7,8) [OF assms, of "base_denom K"] sdk_lawsD(7) [OF assms(1)] by simp_all

section \<open>Payouts\<close>

text \<open>A transfer of ATOS out of a module account that can pay it goes through.\<close>

lemma module_send_succeeds:
  assumes "sdk_laws K" "0 < n" "n \<le> balance K c (module_address K m) (base_denom K)"
  obtains c' where "send_coins K (app_hook K) c (module_address K m) a [(base_denom K, n)] = Inr c'"
proof -
  note bl = sdk_lawsD(1) [OF assms(1)] and ne = sdk_lawsD(7) [OF assms(1)]
  let ?m = "module_address K m"
  obtain x1 where x1: "bank_sub K (ext c) ?m [(base_denom K, n)] = Inr x1"
    using module_spend [OF assms(1,2)] assms(3) by metis
  obtain c1 where r: "energy_SendRestriction K (c\<lparr>ext := x1\<rparr>) ?m a [(base_denom K, n)] = Inr (a, c1)"
    using restriction_total .
  have h: "app_hook K (c\<lparr>ext := x1\<rparr>) ?m a [(base_denom K, n)] = Inr (a, c1)"
    unfolding app_hook_eq [OF bl r] using ne by (simp add: atox_SendRestriction_def)
  obtain x3 where "bank_add K (ext c1) a [(base_denom K, n)] = Inr x3" using credit_ok [OF assms(1,2)] .
  then have "send_coins K (app_hook K) c ?m a [(base_denom K, n)] = Inr (c1\<lparr>ext := x3\<rparr>)"
    using bl x1 h unfolding bank_laws_def send_law_def by simp
  then show ?thesis using that by blast
qed

lemma pool_send_succeeds:
  assumes "sdk_laws K" "0 < n" "n \<le> ExchangePoolBalance K c"
  obtains c' where "send_coins K (app_hook K) c (ExchangePoolAddress K) a [(base_denom K, n)] = Inr c'"
  using module_send_succeeds [OF assms(1,2), of c ExchangePoolName a] assms(3)
  by (auto simp: ExchangePoolBalance_def ExchangePoolAddress_def)

definition paid_book :: "'x sdk \<Rightarrow> addr \<Rightarrow> 'x ctx \<Rightarrow> 'x ctx \<Rightarrow> bool" where
  "paid_book K a c c' \<longleftrightarrow> book_of K c' = (pay_spec a (book_of K c))\<lparr>bk_pool := ExchangePoolBalance K c'\<rparr> \<and>
     (\<forall>b d. d \<noteq> AtoxBaseDenom \<longrightarrow> balance K c' b d = balance K c b d -
        (if b = ExchangePoolAddress K \<and> d = base_denom K then Pending (GetAtoxAccount K c a) else 0) +
        (if b = a \<and> d = base_denom K then Pending (GetAtoxAccount K c a) else 0))"

text \<open>
  What happens after a successful settlement.  The branches for an insolvent pool and for a total below
  the payout are not among the cases: a safe state does not reach them.
\<close>

lemma payout_cases:
  assumes laws: "sdk_laws K" and safe: "atox_safe K c"
    and pay: "PayoutPending K (app_hook K) c a mn = (r, c')"
  obtains (unsettled) e where "SettleAccount K (app_hook K) c a = (Inl e, c')" "r = Inl e"
  | (below) v where "SettleAccount K (app_hook K) c a = (Inr v, c')" "r = Inr 0"
      "Pending (GetAtoxAccount K c' a) \<le> 0 \<or> Pending (GetAtoxAccount K c' a) < mn"
  | (refused) v e where "SettleAccount K (app_hook K) c a = (Inr v, c')" "r = Inl e"
      "\<not> module_registered K ExchangePoolName \<or> blocked_addr K a"
  | (paid) v c1 where "SettleAccount K (app_hook K) c a = (Inr v, c1)" "r = Inr (Pending (GetAtoxAccount K c1 a))"
      "0 < Pending (GetAtoxAccount K c1 a)" "mn \<le> 0 \<or> mn \<le> Pending (GetAtoxAccount K c1 a)"
      "paid_book K a c1 c'" "atox_safe K c'"
proof (cases "SettleAccount K (app_hook K) c a")
  case (Pair r1 c1)
  note st = this
  show ?thesis
  proof (cases r1)
    case (Inl e)
    then show ?thesis using unsettled [of e] st pay by (simp add: PayoutPending_def)
  next
    case (Inr v)
    have safe1: "atox_safe K c1" using settle_safe(1) [OF laws safe] st by (simp add: SettleAccount_def)
    note d = atox_safeD [OF safe1]
    let ?n = "Pending (GetAtoxAccount K c1 a)" and ?cs = "[(base_denom K, Pending (GetAtoxAccount K c1 a))]"
    let ?acct = "GetAtoxAccount K c1 a"
    have sol: "?n \<le> TotalPending (GetGlobalState c1)" "?n \<le> ExchangePoolBalance K c1"
      using book_solvent(2) [OF d(3)] book_solvent(3) [OF d(3), of a] by simp_all
    consider (small) "?n \<le> 0 \<or> mn > 0 \<and> ?n < mn" | (big) "0 < ?n" "mn \<le> 0 \<or> mn \<le> ?n" by linarith
    then show ?thesis
    proof cases
      case small
      then have "PayoutPending K (app_hook K) c a mn = (Inr 0, c1)" using st Inr by (auto simp: PayoutPending_def Let_def)
      then have "r = Inr 0 \<and> c' = c1" using pay by simp
      then show ?thesis using below [of v] small st Inr by auto
    next
      case big
      have eq: "(r, c') = (case send_from_module K (app_hook K) c1 ExchangePoolName a ?cs of Inl e \<Rightarrow> (Inl e, c1)
          | Inr c2 \<Rightarrow> let c2 = SetAtoxAccount (?acct\<lparr>Pending := 0, TotalClaimed := TotalClaimed ?acct + ?n\<rparr>) c2;
                 gs = GetGlobalState c2 in
             if TotalPending gs < ?n then (Inl (Err ''total_pending is below the payout''), c2)
             else (Inr ?n, SetGlobalState (gs\<lparr>TotalPending := TotalPending gs - ?n, TotalPaidOut := TotalPaidOut gs + ?n\<rparr>) c2))"
        using pay st Inr big sol(2) by (auto simp: PayoutPending_def Let_def new_coins_def)
      show ?thesis
      proof (cases "module_registered K ExchangePoolName \<and> \<not> blocked_addr K a")
        case False
        then obtain e where "send_from_module K (app_hook K) c1 ExchangePoolName a ?cs = Inl e"
          by (cases "module_registered K ExchangePoolName") (simp_all add: send_from_module_eq [OF sdk_lawsD(1) [OF laws]])
        then show ?thesis using eq refused [of v e] False st Inr by auto
      next
        case True
        obtain c2 where send: "send_coins K (app_hook K) c1 (ExchangePoolAddress K) a ?cs = Inr c2"
          using pool_send_succeeds [OF laws big(1) sol(2)] .
        then have sm: "send_from_module K (app_hook K) c1 ExchangePoolName a ?cs = Inr c2"
          using True by (simp add: send_from_module_eq [OF sdk_lawsD(1) [OF laws]] ExchangePoolAddress_def)
        note b = base_send_book [OF laws safe1 send]
        have gs2: "GetGlobalState c2 = GetGlobalState c1" using arg_cong [OF b(1), of bk_state] by simp
        let ?c3 = "SetAtoxAccount (?acct\<lparr>Pending := 0, TotalClaimed := TotalClaimed ?acct + ?n\<rparr>) c2"
        let ?gs = "(GetGlobalState c1)\<lparr>TotalPending := TotalPending (GetGlobalState c1) - ?n,
            TotalPaidOut := TotalPaidOut (GetGlobalState c1) + ?n\<rparr>"
        have out: "r = Inr ?n" "c' = SetGlobalState ?gs ?c3" using eq sm sol(1) by (simp_all add: gs2 Let_def)
        have addr: "ax_Address ?acct = acc_string (codec K) a" by (rule ax_Address_Get [OF d(2)])
        have get: "bk_index (book_of K c2) x = bk_index (book_of K c1) x" "bk_pending (book_of K c2) x = bk_pending (book_of K c1) x" for x
          by (simp_all only: b(1)) simp_all
        have bal: "AtoxBalance K c2 = AtoxBalance K c1" "AtoxSupply K c2 = AtoxSupply K c1"
          "isModuleAccount K c2 = isModuleAccount K c1"
          using arg_cong [OF b(1), of bk_balance] arg_cong [OF b(1), of bk_supply] arg_cong [OF b(1), of bk_module] by simp_all
        have bk: "book_of K c' = (pay_spec a (book_of K c1))\<lparr>bk_pool := ExchangePoolBalance K c'\<rparr>"
          using get bal unfolding out(2)
          by (auto simp: book_of_def pay_spec_def fun_eq_iff GetAtoxAccount_set [OF sdk_lawsD(5) [OF laws]] addr)
        have pool: "bk_pool (pay_spec a (book_of K c1)) \<le> ExchangePoolBalance K c'"
          using b(6) big(1) by (auto simp: pay_spec_def out(2))
        have "book_sound (AtoxSupplyCap c1) (book_of K c')"
          unfolding bk by (rule sound_pool [OF pay_spec_sound [OF d(3)] pool])
        moreover have "AtoxSupplyCap c' = AtoxSupplyCap c2" "fee_in_progress c' = fee_in_progress c2" "ext c' = ext c2"
          by (simp_all add: out(2) SetGlobalState_def SetAtoxAccount_def upd_atox_def AtoxSupplyCap_def atox_GetParams_def)
        moreover have "atox_records c'" using b(2) by (simp add: out(2))
        ultimately have "atox_safe K c'" using b(4,5) by (simp add: atox_safe_def)
        moreover have "paid_book K a c1 c'"
          unfolding paid_book_def using bk sent_simps(11) [OF b(3)] \<open>ext c' = ext c2\<close> by auto
        ultimately show ?thesis using paid [of v c1] st Inr out(1) big by simp
      qed
    qed
  qed
qed

lemma payout_safe:
  assumes "sdk_laws K" "atox_safe K c"
  shows "atox_safe K (snd (PayoutPending K (app_hook K) c a mn))"
proof (cases "PayoutPending K (app_hook K) c a mn")
  case (Pair r c')
  note s = settle_safe(1) [OF assms, of a, folded SettleAccount_def]
  show ?thesis unfolding Pair snd_conv
    by (rule payout_cases [OF assms Pair]) (blast intro: s)+
qed

lemma sweep_safe:
  assumes "sdk_laws K"
  shows "atox_safe K c \<Longrightarrow> atox_safe K (sweep_payouts K (app_hook K) mn keys c)"
  by (induction keys arbitrary: c) (auto split: option.splits intro: payout_safe [OF assms])

lemma same_book:
  assumes "x_accounts (st_atox c') = x_accounts (st_atox c)" "x_global (st_atox c') = x_global (st_atox c)" "ext c' = ext c"
  shows "book_of K c' = book_of K c" "atox_records c' = atox_records c"
  using assms by (simp_all add: book_of_def GetGlobalState_def GetAtoxAccount_def getAtoxAccount_def AtoxBalance_def
      AtoxSupply_def isModuleAccount_def ExchangePoolBalance_def atox_records_def fun_eq_iff)

lemma cursor_safe:
  "atox_safe K (SetScanCursor k c) = atox_safe K c" "atox_safe K (SetSweptIndex x c) = atox_safe K c"
proof -
  have b: "book_of K (SetScanCursor k c) = book_of K c" "atox_records (SetScanCursor k c) = atox_records c"
    "book_of K (SetSweptIndex x c) = book_of K c" "atox_records (SetSweptIndex x c) = atox_records c"
    by (rule same_book; simp add: SetScanCursor_def SetSweptIndex_def upd_atox_def)+
  show "atox_safe K (SetScanCursor k c) = atox_safe K c" "atox_safe K (SetSweptIndex x c) = atox_safe K c"
    by (simp_all add: atox_safe_def b, simp_all add: SetScanCursor_def SetSweptIndex_def upd_atox_def AtoxSupplyCap_def atox_GetParams_def)
qed

lemma end_block_safe:
  assumes "sdk_laws K" "atox_safe K c"
  shows "atox_safe K (atox_EndBlocker K (app_hook K) c)"
  unfolding atox_EndBlocker_def Let_def
  using assms(2) by (auto simp: cursor_safe split: prod.splits intro!: sweep_safe [OF assms(1)])

end
