(* ===== verification/Tokenomics.thy ===== *)
theory Tokenomics
  imports Atox EnergyAnte
begin

text \<open>
  The tokenomics keeper (\<^verbatim>\<open>x/tokenomics/keeper\<close>): the block reward with its halvings, the daily sampling
  of the oracle and the tier streak, the release authorisations, the refill of the migration pool,
  the migration claims with their Merkle proofs, and genesis.

  The dispatcher that sends a release to Ethereum is set by the application after both keepers
  exist, so it is an argument here; \<open>Bridge.thy\<close> provides it.  A release logs a failed dispatch and goes on
  without rolling it back, so the dispatcher returns its state with an error too.  The digest \<^verbatim>\<open>sha256.Sum256\<close> is a parameter,
  and no property depends on how it computes.
\<close>

type_synonym 'x dispatcher = "'x ctx \<Rightarrow> int \<Rightarrow> int \<Rightarrow> string result \<times> 'x ctx"

section \<open>Store (keeper.go)\<close>

definition upd_tok :: "(tokenomics_store \<Rightarrow> tokenomics_store) \<Rightarrow> 'x ctx \<Rightarrow> 'x ctx" where
  "upd_tok f c = c\<lparr>st_tokenomics := f (st_tokenomics c)\<rparr>"

definition tok_GetParams :: "'x ctx \<Rightarrow> tokenomics_params" where
  "tok_GetParams c = (case t_params (st_tokenomics c) of None \<Rightarrow> tokenomics_DefaultParams | Some p \<Rightarrow> p)"

definition tok_SetParams :: "'x sdk \<Rightarrow> tokenomics_params \<Rightarrow> 'x ctx \<Rightarrow> 'x ctx result" where
  "tok_SetParams K p c =
     bindR (tokenomics_Params_Validate (codec K) p) (\<lambda>_. Inr (upd_tok (\<lambda>s. s\<lparr>t_params := Some p\<rparr>) c))"

definition GetReleaseState :: "'x ctx \<Rightarrow> release_state" where
  "GetReleaseState c = (case t_release (st_tokenomics c) of None \<Rightarrow> DefaultReleaseState | Some s \<Rightarrow> s)"

definition SetReleaseState :: "release_state \<Rightarrow> 'x ctx \<Rightarrow> 'x ctx" where
  "SetReleaseState st c = upd_tok (\<lambda>s. s\<lparr>t_release := Some st\<rparr>) c"

definition GetBlockRewardState :: "'x ctx \<Rightarrow> block_reward_state" where
  "GetBlockRewardState c = (case t_reward (st_tokenomics c) of None \<Rightarrow> DefaultBlockRewardState | Some s \<Rightarrow> s)"

definition SetBlockRewardState :: "block_reward_state \<Rightarrow> 'x ctx \<Rightarrow> 'x ctx" where
  "SetBlockRewardState st c = upd_tok (\<lambda>s. s\<lparr>t_reward := Some st\<rparr>) c"

definition GetProjectClaimable :: "'x ctx \<Rightarrow> int" where
  "GetProjectClaimable c = (case t_claimable (st_tokenomics c) of None \<Rightarrow> 0 | Some n \<Rightarrow> n)"

definition SetProjectClaimable :: "int \<Rightarrow> 'x ctx \<Rightarrow> 'x ctx" where
  "SetProjectClaimable n c = upd_tok (\<lambda>s. s\<lparr>t_claimable := Some n\<rparr>) c"

definition HasMigrationClaimed :: "'x ctx \<Rightarrow> string \<Rightarrow> bool" where
  "HasMigrationClaimed c a \<longleftrightarrow> kv_get (t_claimed (st_tokenomics c)) a \<noteq> None"

definition SetMigrationClaimed :: "string \<Rightarrow> 'x ctx \<Rightarrow> 'x ctx" where
  "SetMigrationClaimed a c = upd_tok (\<lambda>s. s\<lparr>t_claimed := kv_set a () (t_claimed s)\<rparr>) c"

definition AllMigrationClaimed :: "'x ctx \<Rightarrow> string list" where
  "AllMigrationClaimed c = map fst (t_claimed (st_tokenomics c))"

definition GetValidatorMinSelfDelegation :: "'x ctx \<Rightarrow> int" where
  "GetValidatorMinSelfDelegation c = ValidatorMinSelfDelegation (tok_GetParams c)"

section \<open>Block rewards (rewards.go)\<close>

fun halve_loop :: "nat \<Rightarrow> int \<Rightarrow> int" where
  "halve_loop 0 reward = reward"
| "halve_loop (Suc n) reward =
     (let reward' = quoT reward 2 in if reward' = 0 then reward' else halve_loop n reward')"

definition GetCurrentBlockReward :: "'x ctx \<Rightarrow> int" where
  "GetCurrentBlockReward c =
     (let params = tok_GetParams c in
      if HalvingIntervalBlocks params \<le> 0 then 0
      else halve_loop (nat (quoT (block_height c) (HalvingIntervalBlocks params))) (InitialBlockReward params))"

definition tok_BeginBlocker :: "'x sdk \<Rightarrow> 'x hook \<Rightarrow> 'x ctx \<Rightarrow> 'x ctx result" where
  "tok_BeginBlocker K H c =
     (let params = tok_GetParams c;
          blockRewardState = GetBlockRewardState c;
          currentReward = GetCurrentBlockReward c in
      if currentReward = 0 then Inr c
      else if \<not> AtoxEnabled c then Inr c
      else
        let minted = MintedAgainstCap K c;
            limitAmt = AtoxSupplyCap c;
            remaining = limitAmt - minted in
        if remaining < currentReward \<and> \<not> remaining > 0 then Inr c
        else
          let currentReward = (if remaining < currentReward then remaining else currentReward) in
          bindR (total_bonded K (ext c)) (\<lambda>totalBonded.
            if totalBonded = 0 then Inr c
            else
              (case MintAtoxToModule K H c FeeCollectorName currentReward of
                 Inl e \<Rightarrow> if e = ErrSupplyCapReached \<or> e = ErrAtoxDisabled then Inr c else Inl e
               | Inr c \<Rightarrow>
                   Inr (SetBlockRewardState
                     (blockRewardState\<lparr>TotalDistributed := TotalDistributed blockRewardState + currentReward,
                        CurrentPeriod := u64_of_i64 (quoT (block_height c) (HalvingIntervalBlocks params))\<rparr>) c))))"

section \<open>Tier releases\<close>

definition AuthorizedReleases :: "'x ctx \<Rightarrow> int \<times> int" where
  "AuthorizedReleases c = (let state = GetReleaseState c in (TotalMinerReleased state, TotalProjectReleased state))"

definition GetCirculatingSupply :: "'x ctx \<Rightarrow> int" where
  "GetCirculatingSupply c =
     (let params = tok_GetParams c; state = GetReleaseState c in
      MigrationPoolTotal params + TotalMinerReleased state + TotalProjectReleased state)"

definition pool_of :: "'x sdk \<Rightarrow> 'x ctx \<Rightarrow> string \<Rightarrow> int" where
  "pool_of K c name = balance K c (module_address K name) (base_denom K)"

definition authorizeMinerRelease :: "'x sdk \<Rightarrow> 'x ctx \<Rightarrow> int \<Rightarrow> int" where
  "authorizeMinerRelease K c target =
     (if \<not> target > 0 then 0
      else let available = pool_of K c MinerPoolName in
        if \<not> available > 0 then 0
        else if target > available then available else target)"

definition TriggerRelease ::
  "'x sdk \<Rightarrow> 'x dispatcher \<Rightarrow> 'x ctx \<Rightarrow> release_state \<Rightarrow> tokenomics_params \<Rightarrow> release_state \<times> 'x ctx" where
  "TriggerRelease K D c state params =
     (let circulating = GetCirculatingSupply c in
      if \<not> circulating > 0 then (state, c)
      else
        let releaseQuota = quoT (circulating * uint (ReleasePercentageBps params)) 10000;
            minerTarget = quoT (releaseQuota * uint (MinerReleaseShareBps params)) 10000;
            projectTarget = releaseQuota - minerTarget;
            actualMinerRelease = authorizeMinerRelease K c minerTarget;
            actualProjectRelease =
              (if actualMinerRelease < minerTarget then projectTarget + (minerTarget - actualMinerRelease)
               else projectTarget);
            projectClaimable = GetProjectClaimable c;
            projectPoolBalance = pool_of K c ProjectPoolName;
            remainingProjectCapacity = projectPoolBalance - projectClaimable;
            remainingProjectCapacity = (if remainingProjectCapacity < 0 then 0 else remainingProjectCapacity);
            actualProjectRelease =
              (if actualProjectRelease > remainingProjectCapacity then remainingProjectCapacity else actualProjectRelease);
            state = state\<lparr>TotalMinerReleased := TotalMinerReleased state + actualMinerRelease,
                          TotalProjectReleased := TotalProjectReleased state + actualProjectRelease\<rparr> in
        (case D c (TotalMinerReleased state) (TotalProjectReleased state) of
           (_, c) \<Rightarrow> (state, c)))"

definition MigrationPoolBalance :: "'x sdk \<Rightarrow> 'x ctx \<Rightarrow> int" where
  "MigrationPoolBalance K c = pool_of K c MigrationPoolName"

definition get_MigrationPoolTotal :: "'x ctx \<Rightarrow> int" where
  "get_MigrationPoolTotal c = MigrationPoolTotal (tok_GetParams c)"

definition RefillMigrationPool :: "'x sdk \<Rightarrow> 'x hook \<Rightarrow> 'x ctx \<Rightarrow> 'x ctx result" where
  "RefillMigrationPool K H c =
     (let params = tok_GetParams c in
      if MigrationRefillThresholdBps params = 0 then Inr c
      else
        let total = MigrationPoolTotal params in
        if \<not> total > 0 then Inr c
        else
          let bal = pool_of K c MigrationPoolName;
              threshold = quoT (total * uint (MigrationRefillThresholdBps params)) tok_BpsDenominator in
          if bal \<ge> threshold then Inr c
          else
            let authorized = GetProjectClaimable c in
            if \<not> authorized > 0 then Inr c
            else
              let want = total - bal;
                  want = (if want > authorized then authorized else want);
                  projectBalance = pool_of K c ProjectPoolName;
                  want = (if want > projectBalance then projectBalance else want) in
              if \<not> want > 0 then Inr c
              else
                bindR (new_coins (base_denom K) want) (\<lambda>coins.
                bindR (send_between_modules K H c ProjectPoolName MigrationPoolName coins) (\<lambda>c.
                Inr (SetProjectClaimable (authorized - want) c))))"

section \<open>Sampling and the streak\<close>

text \<open>The settlement of the previous day, when the day has rolled over.\<close>

definition settle_day ::
  "'x sdk \<Rightarrow> 'x dispatcher \<Rightarrow> tokenomics_params \<Rightarrow> int \<Rightarrow> release_state \<Rightarrow> 'x ctx \<Rightarrow> release_state \<times> 'x ctx" where
  "settle_day K D params today state c =
     (if CurrentSampleDay state \<noteq> 0 \<and> today > CurrentSampleDay state
      then
        let state = (if DayQualified state then state\<lparr>ConsecutiveDays := ConsecutiveDays state + 1\<rparr>
                     else state\<lparr>ConsecutiveDays := 0\<rparr>);
            (state, c) =
              (if ConsecutiveDays state \<ge> ConsecutiveDaysRequired params
               then let (state, c) = TriggerRelease K D c state params in
                    (state\<lparr>ConsecutiveDays := 0, CurrentTier := CurrentTier state + 1\<rparr>, c)
               else (state, c)) in
        (state\<lparr>DayQualified := False, SamplesToday := 0\<rparr>, c)
      else (state, c))"

definition sample_ok :: "dec_math \<Rightarrow> tokenomics_params \<Rightarrow> u32 \<Rightarrow> price_data \<Rightarrow> bool" where
  "sample_ok M params tier priceData =
     (let requiredPrice = dec_mul M (PriceBase params) (dec_power M (TierMultiplier params) (ucast tier));
          requiredVolume = dec_mul M (VolumeBase params) (dec_power M (TierMultiplier params) (ucast tier)) in
      Price priceData \<ge> requiredPrice \<and> Volume24h priceData \<ge> requiredVolume)"

text \<open>The sample of the block, when the day's quota, the spacing and the report allow one.\<close>

definition take_sample :: "'x sdk \<Rightarrow> tokenomics_params \<Rightarrow> int \<Rightarrow> release_state \<Rightarrow> 'x ctx \<Rightarrow> release_state" where
  "take_sample K params now state c =
     (let dailySamples = (if DailySamples params \<le> 0 then DefaultDailySamples else DailySamples params) in
      if uint (SamplesToday state) \<ge> dailySamples then state
      else if LastSampleBlock state > 0 \<and>
              wrap64 (block_height c - LastSampleBlock state) < PriceCheckEpochBlocks params then state
      else
        (case GetCurrentPrice (st_oracle c) of
           Inl _ \<Rightarrow> state
         | Inr priceData \<Rightarrow>
           if Timestamp priceData \<le> LastSampledPriceTime state then state
           else
             let oracleParams = oracle_GetParams (st_oracle c) in
             if Timestamp priceData = 0 \<or>
                (MaxPriceAgeSeconds oracleParams > 0 \<and>
                 u64_of_i64 (wrap64 (now - Timestamp priceData)) > MaxPriceAgeSeconds oracleParams)
             then state
             else
               let sampleOk = sample_ok (dmath K) params (CurrentTier state) priceData;
                   state = state\<lparr>SamplesToday := SamplesToday state + 1,
                                 LastSampledPriceTime := Timestamp priceData,
                                 LastSampleBlock := block_height c,
                                 LastCheckBlock := block_height c,
                                 LastCheckTimeUnix := now\<rparr> in
               if sampleOk then state\<lparr>DayQualified := True\<rparr> else state))"

definition tok_EndBlocker :: "'x sdk \<Rightarrow> 'x hook \<Rightarrow> 'x dispatcher \<Rightarrow> 'x ctx \<Rightarrow> 'x ctx" where
  "tok_EndBlocker K H D c =
     (let params = tok_GetParams c;
          state = GetReleaseState c;
          now = block_time c in
      if now \<le> 0 then c
      else
        let daySeconds = (if DaySeconds params \<le> 0 then DefaultDaySeconds else DaySeconds params);
            today = quoT now daySeconds;
            c = (case RefillMigrationPool K H c of Inl _ \<Rightarrow> c | Inr c \<Rightarrow> c);
            (state, c) = settle_day K D params today state c;
            state = state\<lparr>CurrentSampleDay := today\<rparr> in
        SetReleaseState (take_sample K params now state c) c)"

section \<open>Migration claims (msg\_server.go)\<close>

text \<open>\<^verbatim>\<open>hex.DecodeString\<close>, \<^verbatim>\<open>binary.PutUvarint\<close> and the decimal form of an integer.\<close>

definition hex_digit :: "char \<Rightarrow> nat option" where
  "hex_digit ch =
     (let n = of_char ch in
      if 48 \<le> n \<and> n \<le> 57 then Some (n - 48)
      else if 97 \<le> n \<and> n \<le> 102 then Some (n - 87)
      else if 65 \<le> n \<and> n \<le> 70 then Some (n - 55)
      else None)"

fun hex_decode :: "string \<Rightarrow> string option" where
  "hex_decode [] = Some []"
| "hex_decode [a] = None"
| "hex_decode (a # b # s) =
     (case hex_digit a of
        None \<Rightarrow> None
      | Some x \<Rightarrow>
        (case hex_digit b of
           None \<Rightarrow> None
         | Some y \<Rightarrow> map_option (\<lambda>r. char_of (16 * x + y) # r) (hex_decode s)))"

fun uvarint :: "nat \<Rightarrow> string" where
  "uvarint n = (if n < 128 then [char_of n] else char_of (n mod 128 + 128) # uvarint (n div 128))"

declare uvarint.simps [simp del]

fun show_nat :: "nat \<Rightarrow> string" where
  "show_nat n = (if n < 10 then [char_of (48 + n)] else show_nat (n div 10) @ [char_of (48 + n mod 10)])"

declare show_nat.simps [simp del]

definition show_int :: "int \<Rightarrow> string" where
  "show_int n = (if n < 0 then CHR ''-'' # show_nat (nat (- n)) else show_nat (nat n))"

definition leaf_payload :: "string \<Rightarrow> int \<Rightarrow> string" where
  "leaf_payload claimer amount =
     (let amountBytes = show_int amount in
      uvarint (length claimer) @ claimer @ uvarint (length amountBytes) @ amountBytes)"

definition migrationLeafHash :: "(string \<Rightarrow> string) \<Rightarrow> string \<Rightarrow> int \<Rightarrow> string" where
  "migrationLeafHash sha claimer amount = sha (sha (leaf_payload claimer amount))"

definition hash_pair :: "(string \<Rightarrow> string) \<Rightarrow> string \<Rightarrow> string \<Rightarrow> string" where
  "hash_pair sha current sibling =
     sha (if current \<le> sibling then current @ sibling else sibling @ current)"

fun merkle_loop :: "(string \<Rightarrow> string) \<Rightarrow> string \<Rightarrow> string list \<Rightarrow> string option" where
  "merkle_loop sha current [] = Some current"
| "merkle_loop sha current (sibling # proof) =
     (if length sibling \<noteq> 32 then None else merkle_loop sha (hash_pair sha current sibling) proof)"

definition verifyMerkleClaim ::
  "(string \<Rightarrow> string) \<Rightarrow> string \<Rightarrow> int \<Rightarrow> string list \<Rightarrow> string \<Rightarrow> bool" where
  "verifyMerkleClaim sha claimer amount proof rootHex =
     (case hex_decode rootHex of
        None \<Rightarrow> False
      | Some root \<Rightarrow>
          if root = [] then False
          else merkle_loop sha (migrationLeafHash sha claimer amount) proof = Some root)"

definition ClaimMigrationTokens ::
  "'x sdk \<Rightarrow> 'x hook \<Rightarrow> (string \<Rightarrow> string) \<Rightarrow> 'x ctx \<Rightarrow> msg_claim_migration \<Rightarrow> 'x ctx result" where
  "ClaimMigrationTokens K H sha c msg =
     (if HasMigrationClaimed c (mc_Claimer msg) then Inl ErrAlreadyClaimed
      else
        let params = tok_GetParams c in
        if MigrationMerkleRoot params = [] then Inl ErrInvalidMerkleProof
        else if MigrationClaimEndTimeUnix params > 0 \<and> block_time c > MigrationClaimEndTimeUnix params
        then Inl ErrUnauthorized
        else if \<not> verifyMerkleClaim sha (mc_Claimer msg) (mc_Amount msg) (mc_MerkleProof msg) (MigrationMerkleRoot params)
        then Inl ErrInvalidMerkleProof
        else
          (case acc_from_bech32 (codec K) (mc_Claimer msg) of
             None \<Rightarrow> Inl ErrInvalidAddress
           | Some recipient \<Rightarrow>
             bindR (new_coins (base_denom K) (mc_Amount msg)) (\<lambda>coins.
               if pool_of K c MigrationPoolName < mc_Amount msg then Inl ErrInsufficientClaimable
               else bindR (send_from_module K H c MigrationPoolName recipient coins) (\<lambda>c.
                 Inr (SetMigrationClaimed (mc_Claimer msg) c)))))"

definition tok_UpdateParams :: "'x sdk \<Rightarrow> string \<Rightarrow> 'x ctx \<Rightarrow> string \<Rightarrow> tokenomics_params \<Rightarrow> 'x ctx result" where
  "tok_UpdateParams K authority c msg_authority p =
     (if authority \<noteq> msg_authority then Inl (Err ''unauthorized'')
      else tok_SetParams K p c)"

section \<open>Genesis\<close>

definition TokenomicsModuleName :: string where
  "TokenomicsModuleName = ''tokenomics''"

definition mintToModule :: "'x sdk \<Rightarrow> 'x hook \<Rightarrow> string \<Rightarrow> int \<Rightarrow> 'x ctx \<Rightarrow> 'x ctx result" where
  "mintToModule K H module amount c =
     (if \<not> amount > 0 then Inr c
      else if pool_of K c module > 0 then Inr c
      else
        bindR (new_coins (base_denom K) amount) (\<lambda>coins.
        (case mint_coins K c TokenomicsModuleName coins of
           Inl _ \<Rightarrow> Inl (Panic ''mint'')
         | Inr c \<Rightarrow>
           (case send_between_modules K H c TokenomicsModuleName module coins of
              Inl _ \<Rightarrow> Inl (Panic ''send'')
            | Inr c \<Rightarrow> Inr c))))"

definition tok_InitGenesis :: "'x sdk \<Rightarrow> 'x hook \<Rightarrow> 'x ctx \<Rightarrow> tokenomics_genesis \<Rightarrow> 'x ctx result" where
  "tok_InitGenesis K H c gs =
     (case tok_SetParams K (tg_params gs) c of
        Inl _ \<Rightarrow> Inl (Panic ''invalid params'')
      | Inr c \<Rightarrow>
        let c = SetReleaseState (tg_release gs) c;
            c = SetBlockRewardState (tg_reward gs) c;
            c = (case tg_claimable gs of None \<Rightarrow> c | Some n \<Rightarrow> SetProjectClaimable n c);
            c = fold SetMigrationClaimed (tg_claimed gs) c;
            params = tg_params gs in
        bindR (mintToModule K H MinerPoolName (MinerPoolTotal params) c) (\<lambda>c.
        bindR (mintToModule K H ProjectPoolName (ProjectPoolTotal params) c) (\<lambda>c.
        mintToModule K H MigrationPoolName (MigrationPoolTotal params) c)))"

definition tok_ExportGenesis :: "'x ctx \<Rightarrow> tokenomics_genesis" where
  "tok_ExportGenesis c =
     \<lparr> tg_params = tok_GetParams c, tg_release = GetReleaseState c, tg_reward = GetBlockRewardState c,
       tg_claimable = Some (GetProjectClaimable c), tg_claimed = AllMigrationClaimed c \<rparr>"

section \<open>Queries\<close>

definition query_CirculatingSupply :: "'x ctx \<Rightarrow> int" where
  "query_CirculatingSupply c = GetCirculatingSupply c"

definition query_BlockReward :: "'x ctx \<Rightarrow> int \<times> u64" where
  "query_BlockReward c = (GetCurrentBlockReward c, CurrentPeriod (GetBlockRewardState c))"

end
