(* ===== verification/Bridge.thy ===== *)
theory Bridge
  imports Tokenomics
begin

text \<open>
  The bridge adapter's keeper (\<^verbatim>\<open>x/bridgeadapter/keeper\<close>): the daily counters, the outbound asset bridge,
  the Hyperlane application that routes an inbound message to the asset bridge or to the receipt
  channel, the forward leg of a tier release, the message server, genesis and the queries.

  The Hyperlane core module is outside the sources: \<open>core\<close> holds what the keeper calls of it.  A
  handler that returns an error is rolled back by its caller, so an error carries no state;
  the end block that dispatches a tier release does not roll back, so a dispatch returns its state with an error too.
\<close>

record hyperlane_message =
  hm_Version :: nat
  hm_Nonce :: u32
  hm_Origin :: u32
  hm_Sender :: string
  hm_Destination :: u32
  hm_Recipient :: string
  hm_Body :: string

record 'x core =
  DispatchMessage ::
    "'x ctx \<Rightarrow> string \<Rightarrow> string \<Rightarrow> coins \<Rightarrow> u32 \<Rightarrow> string \<Rightarrow> string \<Rightarrow> addr \<Rightarrow> string result \<times> 'x ctx"
  GetNextSequence :: "'x ctx \<Rightarrow> (string \<times> 'x ctx) result"
  message_id :: "hyperlane_message \<Rightarrow> string"

section \<open>Store (keeper.go, asset\_bridge.go)\<close>

definition upd_bridge :: "(bridge_store \<Rightarrow> bridge_store) \<Rightarrow> 'x ctx \<Rightarrow> 'x ctx" where
  "upd_bridge f c = c\<lparr>st_bridge := f (st_bridge c)\<rparr>"

definition br_GetParams :: "'x ctx \<Rightarrow> bridge_params" where
  "br_GetParams c = (case b_params (st_bridge c) of None \<Rightarrow> bridge_DefaultParams | Some p \<Rightarrow> p)"

definition setParamsUnchecked :: "bridge_params \<Rightarrow> 'x ctx \<Rightarrow> 'x ctx" where
  "setParamsUnchecked p c = upd_bridge (\<lambda>s. s\<lparr>b_params := Some p\<rparr>) c"

definition br_SetParams :: "'x sdk \<Rightarrow> bridge_params \<Rightarrow> 'x ctx \<Rightarrow> 'x ctx result" where
  "br_SetParams K p c = bindR (bridge_Params_Validate (codec K) p) (\<lambda>_. Inr (setParamsUnchecked p c))"

definition GetReceiptState :: "'x ctx \<Rightarrow> receipt_state" where
  "GetReceiptState c = (case b_receipt (st_bridge c) of None \<Rightarrow> DefaultReceiptState | Some s \<Rightarrow> s)"

definition SetReceiptState :: "receipt_state \<Rightarrow> 'x ctx \<Rightarrow> 'x ctx" where
  "SetReceiptState st c = upd_bridge (\<lambda>s. s\<lparr>b_receipt := Some st\<rparr>) c"

definition freshRateLimitState :: "int \<Rightarrow> rate_limit_state" where
  "freshRateLimitState day = \<lparr> rl_Day = day, rl_Used = 0, rl_UsedLarge = 0, rl_UsedInbound = 0 \<rparr>"

definition GetRateLimitState :: "'x ctx \<Rightarrow> rate_limit_state" where
  "GetRateLimitState c =
     (let today = DayOf (block_time c) in
      (case b_rate (st_bridge c) of
         None \<Rightarrow> freshRateLimitState today
       | Some s \<Rightarrow> if rl_Day s \<noteq> today then freshRateLimitState today else s))"

definition setRateLimitState :: "rate_limit_state \<Rightarrow> 'x ctx \<Rightarrow> 'x ctx" where
  "setRateLimitState st c = upd_bridge (\<lambda>s. s\<lparr>b_rate := Some st\<rparr>) c"

definition usageAt :: "'x ctx \<Rightarrow> (string, address_usage) kv \<Rightarrow> string \<Rightarrow> int" where
  "usageAt c m key =
     (case kv_get m key of
        None \<Rightarrow> 0
      | Some u \<Rightarrow> if au_Day u \<noteq> DayOf (block_time c) then 0 else au_Used u)"

definition GetAddressUsage :: "'x ctx \<Rightarrow> string \<Rightarrow> int" where
  "GetAddressUsage c a = usageAt c (b_usage_out (st_bridge c)) a"

definition GetInboundAddressUsage :: "'x ctx \<Rightarrow> string \<Rightarrow> int" where
  "GetInboundAddressUsage c a = usageAt c (b_usage_in (st_bridge c)) a"

definition setAddressUsage :: "string \<Rightarrow> int \<Rightarrow> 'x ctx \<Rightarrow> 'x ctx" where
  "setAddressUsage a used c =
     upd_bridge (\<lambda>s. s\<lparr>b_usage_out :=
       kv_set a \<lparr> au_Day = DayOf (block_time c), au_Used = used \<rparr> (b_usage_out s)\<rparr>) c"

definition setInboundAddressUsage :: "string \<Rightarrow> int \<Rightarrow> 'x ctx \<Rightarrow> 'x ctx" where
  "setInboundAddressUsage a used c =
     upd_bridge (\<lambda>s. s\<lparr>b_usage_in :=
       kv_set a \<lparr> au_Day = DayOf (block_time c), au_Used = used \<rparr> (b_usage_in s)\<rparr>) c"

definition Limits :: "'x sdk \<Rightarrow> 'x ctx \<Rightarrow> limits" where
  "Limits K c = ResolveLimits (br_GetParams c) (MigrationPoolBalance K c) (get_MigrationPoolTotal c)"

section \<open>Outbound (asset\_bridge.go)\<close>

definition ExecuteBridgeOut ::
  "'x sdk \<Rightarrow> 'x hook \<Rightarrow> 'x core \<Rightarrow> 'x ctx \<Rightarrow> addr \<Rightarrow> string \<Rightarrow> int \<Rightarrow> coins \<Rightarrow> (string \<times> int \<times> 'x ctx) result" where
  "ExecuteBridgeOut K H Core c sender recipient amount maxFee =
     (let params = br_GetParams c in
      if \<not> BridgeEnabled params then Inl (BridgeErr ErrBridgeDisabled)
      else if length (MailboxId params) \<noteq> HexAddressLen \<or> length (RemoteBridgeVault params) \<noteq> HexAddressLen
      then Inl (BridgeErr ErrNotConfigured)
      else if length recipient \<noteq> HexAddressLen then Inl (BridgeErr ErrInvalidPayload)
      else
        bindR (AtosToErc20 amount (AtosPerErc20 params)) (\<lambda>erc20Amount.
          let limits = Limits K c;
              rl = GetRateLimitState c;
              addrUsed = GetAddressUsage c (acc_string (codec K) sender) in
          bindR (CheckOutbound limits amount (rl_Used rl) (rl_UsedLarge rl) addrUsed) (\<lambda>_.
          bindR (new_coins (base_denom K) amount) (\<lambda>coins.
          bindR (send_to_module K H c sender MigrationPoolName coins) (\<lambda>c.
          bindR (BuildAssetPayload recipient erc20Amount) (\<lambda>body.
            let state = GetReceiptState c in
            if length (AssetAppId state) \<noteq> HexAddressLen then Inl (BridgeErr ErrAppNotInitialized)
            else
              (case DispatchMessage Core c (MailboxId params) (AssetAppId state) maxFee
                      (EthereumDomain params) (RemoteBridgeVault params) body sender of
                 (Inl err, _) \<Rightarrow> Inl err
               | (Inr msgID, c) \<Rightarrow>
                let rl = rl\<lparr>rl_Used := rl_Used rl + amount\<rparr>;
                    rl = (if \<not> IsSmall limits amount then rl\<lparr>rl_UsedLarge := rl_UsedLarge rl + amount\<rparr> else rl);
                    c = setRateLimitState rl c;
                    c = setAddressUsage (acc_string (codec K) sender) (addrUsed + amount) c;
                    c = SetReceiptState (state\<lparr>TotalBridgedOut := TotalBridgedOut state + amount\<rparr>) c in
                Inr (msgID, erc20Amount, c))))))))"

section \<open>Inbound (asset\_bridge.go, hyperlane\_app.go)\<close>

definition handleAssetTransfer :: "'x sdk \<Rightarrow> 'x hook \<Rightarrow> 'x ctx \<Rightarrow> hyperlane_message \<Rightarrow> 'x ctx result" where
  "handleAssetTransfer K H c message =
     (let params = br_GetParams c in
      if \<not> BridgeEnabled params then Inl (BridgeErr ErrBridgeDisabled)
      else if hm_Origin message \<noteq> EthereumDomain params then Inl (BridgeErr ErrWrongOrigin)
      else if length (RemoteBridgeVault params) \<noteq> HexAddressLen \<or> RemoteBridgeVault params \<noteq> hm_Sender message
      then Inl (BridgeErr ErrWrongSender)
      else
        bindR (ParseAssetPayload (hm_Body message)) (\<lambda>(recipientBz, erc20Amount).
          if \<not> erc20Amount > 0 then Inl ErrInvalidAmount
          else
            bindR (CosmosAddressFromHyperlane recipientBz) (\<lambda>recipient.
            bindR (Erc20ToAtos erc20Amount (AtosPerErc20 params)) (\<lambda>atosAmount.
              if MigrationPoolBalance K c < atosAmount then Inl (BridgeErr ErrPoolInsufficient)
              else
                let rl = GetRateLimitState c;
                    recipientUsed = GetInboundAddressUsage c (acc_string (codec K) recipient) in
                bindR (CheckInbound (Limits K c) atosAmount (rl_UsedInbound rl) recipientUsed) (\<lambda>_.
                bindR (new_coins (base_denom K) atosAmount) (\<lambda>coins.
                bindR (send_from_module K H c MigrationPoolName recipient coins) (\<lambda>c.
                  let state = GetReceiptState c;
                      c = SetReceiptState (state\<lparr>TotalBridgedIn := TotalBridgedIn state + atosAmount\<rparr>) c;
                      c = setInboundAddressUsage (acc_string (codec K) recipient) (recipientUsed + atosAmount) c;
                      rl = GetRateLimitState c in
                  Inr (setRateLimitState (rl\<lparr>rl_UsedInbound := rl_UsedInbound rl + atosAmount\<rparr>) c))))))))"

definition bridge_Exists :: "'x ctx \<Rightarrow> string \<Rightarrow> bool" where
  "bridge_Exists c recipient =
     (let st = GetReceiptState c in
      list_ex (\<lambda>i. length i = HexAddressLen \<and> i = recipient) [AppId st, AssetAppId st])"

definition ReceiverIsmId :: "'x ctx \<Rightarrow> string \<Rightarrow> string result" where
  "ReceiverIsmId c recipient =
     (if \<not> bridge_Exists c recipient then Inl (BridgeErr ErrUnknownRecipient)
      else let ismID = IsmId (br_GetParams c) in
        if length ismID \<noteq> HexAddressLen then Inl (BridgeErr ErrIsmNotConfigured)
        else Inr ismID)"

text \<open>The closure of \<^verbatim>\<open>assertWithinAuthorized\<close>; dividing by a zero peg panics.\<close>

definition toErc20 :: "int \<Rightarrow> u64 \<Rightarrow> int result" where
  "toErc20 atos atosPerErc20 =
     (if \<not> atos > 0 then Inr 0
      else if i64_of_u64 atosPerErc20 = 0 then Inl (Panic ''division by zero'')
      else Inr (quoT atos (i64_of_u64 atosPerErc20)))"

definition assertWithinAuthorized :: "'x ctx \<Rightarrow> int \<Rightarrow> int \<Rightarrow> u64 \<Rightarrow> unit result" where
  "assertWithinAuthorized c targetBridge targetProject atosPerErc20 =
     (let (authMiner, authProject) = AuthorizedReleases c in
      bindR (toErc20 authMiner atosPerErc20) (\<lambda>maxBridge.
      bindR (toErc20 authProject atosPerErc20) (\<lambda>maxProject.
        if targetBridge > maxBridge then Inl (BridgeErr ErrExceedsAuthorized)
        else if targetProject > maxProject then Inl (BridgeErr ErrExceedsAuthorized)
        else Inr ())))"

text \<open>The tier-release path of \<^verbatim>\<open>Handle\<close>.\<close>

definition applyReceipt ::
  "'x sdk \<Rightarrow> 'x hook \<Rightarrow> 'x core \<Rightarrow> 'x ctx \<Rightarrow> hyperlane_message \<Rightarrow> 'x ctx result" where
  "applyReceipt K H Core c message =
     (let params = br_GetParams c in
      if \<not> br_Enabled params then Inl (BridgeErr ErrDisabled)
      else if hm_Origin message \<noteq> EthereumDomain params then Inl (BridgeErr ErrWrongOrigin)
      else if \<not> VaultMatches params (hm_Sender message) then Inl (BridgeErr ErrWrongSender)
      else
        bindR (ParseReceipt (hm_Body message)) (\<lambda>(targetBridge, targetProject).
          let state = GetReceiptState c in
          if targetBridge < AppliedToBridge state \<or> targetProject < AppliedToProject state
          then Inl (BridgeErr ErrTargetWentBackward)
          else
            let deltaBridge = targetBridge - AppliedToBridge state;
                deltaProject = targetProject - AppliedToProject state in
            if deltaBridge = 0 \<and> deltaProject = 0
            then Inr (SetReceiptState (state\<lparr>LastMessageId := message_id Core message\<rparr>) c)
            else
              bindR (Erc20ToAtos deltaBridge (AtosPerErc20 params)) (\<lambda>atosToPool.
              bindR (Erc20ToAtos deltaProject (AtosPerErc20 params)) (\<lambda>atosToProject.
              bindR (assertWithinAuthorized c targetBridge targetProject (AtosPerErc20 params)) (\<lambda>_.
              bindR (if atosToPool > 0 then AddToExchangePool K H c MinerPoolName atosToPool else Inr c) (\<lambda>c.
                let c = (if atosToProject > 0
                         then SetProjectClaimable (GetProjectClaimable c + atosToProject) c else c) in
                Inr (SetReceiptState (state\<lparr>AppliedToBridge := targetBridge, AppliedToProject := targetProject,
                                            LastMessageId := message_id Core message\<rparr>) c)))))))"

definition bridge_Handle ::
  "'x sdk \<Rightarrow> 'x hook \<Rightarrow> 'x core \<Rightarrow> 'x ctx \<Rightarrow> string \<Rightarrow> hyperlane_message \<Rightarrow> 'x ctx result" where
  "bridge_Handle K H Core c mailboxId message =
     (let cfg = MailboxId (br_GetParams c) in
      if length cfg \<noteq> HexAddressLen \<or> cfg \<noteq> mailboxId then Inl (BridgeErr ErrWrongMailbox)
      else
        let st = GetReceiptState c in
        if length (AssetAppId st) = HexAddressLen \<and> AssetAppId st = hm_Recipient message
        then handleAssetTransfer K H c message
        else if length (AppId st) = HexAddressLen \<and> AppId st = hm_Recipient message
        then applyReceipt K H Core c message
        else Inl (BridgeErr ErrUnknownRecipient))"

section \<open>The forward leg (tier\_dispatch.go)\<close>

definition DispatchTierRelease :: "'x core \<Rightarrow> 'x dispatcher" where
  "DispatchTierRelease Core c cumulativeMiner cumulativeProject =
     (let params = br_GetParams c in
      if \<not> br_Enabled params then (Inl (BridgeErr ErrDisabled), c)
      else if length (MailboxId params) \<noteq> HexAddressLen \<or> length (TierReleaseVault params) \<noteq> HexAddressLen
      then (Inl (BridgeErr ErrNotConfigured), c)
      else if cumulativeMiner < 0 \<or> cumulativeProject < 0 then (Inl (BridgeErr ErrInvalidPayload), c)
      else
        let state = GetReceiptState c in
        if length (AppId state) \<noteq> HexAddressLen then (Inl (BridgeErr ErrAppNotInitialized), c)
        else
          (case BuildTierRelease cumulativeMiner cumulativeProject of
             Inl err \<Rightarrow> (Inl err, c)
           | Inr body \<Rightarrow>
             DispatchMessage Core c (MailboxId params) (AppId state) [] (EthereumDomain params)
               (TierReleaseVault params) body []))"

section \<open>Message server\<close>

record msg_bridge_out =
  bo_Sender :: string
  bo_Recipient :: string
  bo_Amount :: int
  bo_MaxFee :: coins

definition BridgeOut ::
  "'x sdk \<Rightarrow> 'x hook \<Rightarrow> 'x core \<Rightarrow> 'x ctx \<Rightarrow> msg_bridge_out \<Rightarrow> (string \<times> int \<times> 'x ctx) result" where
  "BridgeOut K H Core c msg =
     (case acc_from_bech32 (codec K) (bo_Sender msg) of
        None \<Rightarrow> Inl ErrInvalidAddress
      | Some sender \<Rightarrow> ExecuteBridgeOut K H Core c sender (bo_Recipient msg) (bo_Amount msg) (bo_MaxFee msg))"

definition br_UpdateParams :: "'x sdk \<Rightarrow> string \<Rightarrow> 'x ctx \<Rightarrow> string \<Rightarrow> bridge_params \<Rightarrow> 'x ctx result" where
  "br_UpdateParams K authority c msg_authority p =
     (if authority \<noteq> msg_authority then Inl (Err ''unauthorized'')
      else
        let current = br_GetParams c in
        if AtosPerErc20 p \<noteq> AtosPerErc20 current then Inl (Err ''atos_per_erc20 is immutable'')
        else if br_Enabled current \<and> br_Enabled p \<and> length (TierReleaseVault current) = HexAddressLen \<and>
                \<not> VaultMatches current (TierReleaseVault p)
        then Inl (Err ''cannot retarget tier_release_vault while enabled'')
        else if length (IsmId current) = HexAddressLen \<and> length (IsmId p) \<noteq> HexAddressLen
        then Inl (Err ''cannot clear a configured ism_id'')
        else br_SetParams K p c)"

definition EmergencyHalt :: "'x ctx \<Rightarrow> string \<Rightarrow> 'x ctx result" where
  "EmergencyHalt c guardian =
     (let params = br_GetParams c in
      if \<not> IsGuardian params guardian then Inl (BridgeErr ErrNotGuardian)
      else Inr (setParamsUnchecked (params\<lparr>br_Enabled := False, BridgeEnabled := False\<rparr>) c))"

section \<open>Genesis\<close>

definition br_InitGenesis :: "'x sdk \<Rightarrow> 'x core \<Rightarrow> 'x ctx \<Rightarrow> bridge_genesis \<Rightarrow> 'x ctx result" where
  "br_InitGenesis K Core c gs =
     (case br_SetParams K (bg_params gs) c of
        Inl _ \<Rightarrow> Inl (Panic ''invalid params'')
      | Inr c \<Rightarrow>
        let state = bg_receipt gs in
        bindR (if length (AppId state) \<noteq> HexAddressLen
               then (case GetNextSequence Core c of
                       Inl _ \<Rightarrow> Inl (Panic ''failed to assign bridgeadapter app id'')
                     | Inr (i, c) \<Rightarrow> Inr (state\<lparr>AppId := i\<rparr>, c))
               else Inr (state, c)) (\<lambda>(state, c).
        bindR (if length (AssetAppId state) \<noteq> HexAddressLen
               then (case GetNextSequence Core c of
                       Inl _ \<Rightarrow> Inl (Panic ''failed to assign bridgeadapter asset app id'')
                     | Inr (i, c) \<Rightarrow> Inr (state\<lparr>AssetAppId := i\<rparr>, c))
               else Inr (state, c)) (\<lambda>(state, c).
        Inr (SetReceiptState state c))))"

definition br_ExportGenesis :: "'x ctx \<Rightarrow> bridge_genesis" where
  "br_ExportGenesis c = \<lparr> bg_params = br_GetParams c, bg_receipt = GetReceiptState c \<rparr>"

section \<open>Queries\<close>

definition PendingConfirmation :: "'x ctx \<Rightarrow> int \<times> int" where
  "PendingConfirmation c =
     (let params = br_GetParams c;
          state = GetReceiptState c;
          (authMiner, authProject) = AuthorizedReleases c;
          toErc20 = (\<lambda>atos. if \<not> atos > 0 \<or> AtosPerErc20 params = 0 then 0
                            else quoT atos (i64_of_u64 (AtosPerErc20 params)));
          bridge = toErc20 authMiner - AppliedToBridge state;
          project = toErc20 authProject - AppliedToProject state in
      (if bridge < 0 then 0 else bridge, if project < 0 then 0 else project))"

definition query_ReceiptState :: "'x ctx \<Rightarrow> receipt_state \<times> int \<times> int" where
  "query_ReceiptState c = (GetReceiptState c, PendingConfirmation c)"

definition limit_remaining :: "int \<Rightarrow> int \<Rightarrow> int" where
  "limit_remaining limitAmt used =
     (if \<not> limitAmt > 0 then 0 else let r = limitAmt - used in if r < 0 then 0 else r)"

record limits_response =
  lr_OutboundGlobalCap :: int
  lr_OutboundGlobalRemaining :: int
  lr_OutboundLargeBudget :: int
  lr_OutboundLargeRemaining :: int
  lr_PerAddressCap :: int
  lr_SmallTransferThreshold :: int
  lr_MinTransferOut :: int
  lr_CrisisMode :: bool
  lr_InboundCap :: int
  lr_InboundRemaining :: int
  lr_ResetsAtUnix :: int
  lr_MigrationPoolBalance :: int
  lr_RateLimitsDisabled :: bool

definition query_Limits :: "'x sdk \<Rightarrow> 'x ctx \<Rightarrow> limits_response" where
  "query_Limits K c =
     (let l = Limits K c; rl = GetRateLimitState c in
      \<lparr> lr_OutboundGlobalCap = l_Global l,
        lr_OutboundGlobalRemaining = limit_remaining (l_Global l) (rl_Used rl),
        lr_OutboundLargeBudget = l_LargeBudget l,
        lr_OutboundLargeRemaining = limit_remaining (l_LargeBudget l) (rl_UsedLarge rl),
        lr_PerAddressCap = l_PerAddress l, lr_SmallTransferThreshold = l_SmallThreshold l,
        lr_MinTransferOut = l_MinTransfer l, lr_CrisisMode = l_CrisisMode l, lr_InboundCap = l_Inbound l,
        lr_InboundRemaining = limit_remaining (l_Inbound l) (rl_UsedInbound rl),
        lr_ResetsAtUnix = wrap64 ((DayOf (block_time c) + 1) * SecondsPerDay),
        lr_MigrationPoolBalance = MigrationPoolBalance K c, lr_RateLimitsDisabled = l_Disabled l \<rparr>)"

definition query_AddressUsage :: "'x sdk \<Rightarrow> 'x ctx \<Rightarrow> string \<Rightarrow> (int \<times> int) result" where
  "query_AddressUsage K c address =
     (if acc_from_bech32 (codec K) address = None then Inl ErrInvalidRequest
      else let used = GetAddressUsage c address; limitAmt = l_PerAddress (Limits K c) in
        Inr (used, if limitAmt > 0 \<and> limitAmt > used then limitAmt - used else 0))"

end
