(* ===== verification/AppAnte.thy ===== *)
theory AppAnte
  imports Tokenomics
begin

text \<open>
  The ante handler of a Cosmos transaction (\<^verbatim>\<open>app/ante/cosmos.go\<close>) and the decorators of
  \<^verbatim>\<open>app/ante/cosmos\<close> that walk its messages: no Ethereum transaction outside its own envelope, no
  disabled message inside an authorization, no ATOX over IBC, and the floor on a validator's own stake.
  The decorators of the SDK between them are parameters.
\<close>

section \<open>Messages\<close>

text \<open>
  A message as the decorators see it: the cases they match on, and every other message by its type
  URL.  The inner messages of a \<^verbatim>\<open>MsgExec\<close> and the authorization of a \<^verbatim>\<open>MsgGrant\<close> may fail to decode; the
  minimum self-delegation that a validator message declares may be nil.
\<close>

datatype sdk_msg =
    MsgExec "sdk_msg list option"
  | MsgGrant "string option"
  | MsgTransfer string
  | MsgCreateValidator "int option" int
  | MsgEditValidator "int option"
  | MsgEthereumTx
  | OtherMsg string

fun MsgTypeURL :: "sdk_msg \<Rightarrow> string" where
  "MsgTypeURL (MsgExec _) = ''/cosmos.authz.v1beta1.MsgExec''"
| "MsgTypeURL (MsgGrant _) = ''/cosmos.authz.v1beta1.MsgGrant''"
| "MsgTypeURL (MsgTransfer _) = ''/ibc.applications.transfer.v1.MsgTransfer''"
| "MsgTypeURL (MsgCreateValidator _ _) = ''/cosmos.staking.v1beta1.MsgCreateValidator''"
| "MsgTypeURL (MsgEditValidator _) = ''/cosmos.staking.v1beta1.MsgEditValidator''"
| "MsgTypeURL MsgEthereumTx = ''/ethermint.evm.v1.MsgEthereumTx''"
| "MsgTypeURL (OtherMsg url) = url"

section \<open>Ethereum transactions (reject\_msgs.go)\<close>

fun RejectMessages :: "sdk_msg list \<Rightarrow> unit result" where
  "RejectMessages [] = Inr ()"
| "RejectMessages (msg # msgs) = (if msg = MsgEthereumTx then Inl (Err ''invalid type'') else RejectMessages msgs)"

section \<open>Disabled messages in authorizations (authz.go)\<close>

definition maxNestedMsgs :: nat where
  "maxNestedMsgs = 7"

fun isDisabledMsg :: "string list \<Rightarrow> string \<Rightarrow> bool" where
  "isDisabledMsg [] url = False"
| "isDisabledMsg (d # ds) url = (if url = d then True else isDisabledMsg ds url)"

text \<open>The loop raises the nesting level at every \<^verbatim>\<open>MsgExec\<close> it meets, siblings included.\<close>

fun check_disabled_loop :: "string list \<Rightarrow> sdk_msg list \<Rightarrow> bool \<Rightarrow> nat \<Rightarrow> unit result" where
  "check_disabled_loop disabled [] inner lvl = Inr ()"
| "check_disabled_loop disabled (msg # msgs) inner lvl =
     (case msg of
        MsgExec None \<Rightarrow> Inl ErrUnauthorized
      | MsgExec (Some innerMsgs) \<Rightarrow>
          bindR (if lvl + 1 \<ge> maxNestedMsgs then Inl ErrUnauthorized
                 else check_disabled_loop disabled innerMsgs True (lvl + 1))
            (\<lambda>_. check_disabled_loop disabled msgs inner (lvl + 1))
      | MsgGrant None \<Rightarrow> Inl ErrUnauthorized
      | MsgGrant (Some url) \<Rightarrow>
          if isDisabledMsg disabled url then Inl ErrUnauthorized
          else check_disabled_loop disabled msgs inner lvl
      | _ \<Rightarrow>
          if inner \<and> isDisabledMsg disabled (MsgTypeURL msg) then Inl ErrUnauthorized
          else check_disabled_loop disabled msgs inner lvl)"

definition checkDisabledMsgs :: "string list \<Rightarrow> sdk_msg list \<Rightarrow> bool \<Rightarrow> nat \<Rightarrow> unit result" where
  "checkDisabledMsgs disabled msgs inner lvl =
     (if lvl \<ge> maxNestedMsgs then Inl ErrUnauthorized else check_disabled_loop disabled msgs inner lvl)"

definition AuthzLimiter_AnteHandle :: "string list \<Rightarrow> sdk_msg list \<Rightarrow> unit result" where
  "AuthzLimiter_AnteHandle disabled msgs = checkDisabledMsgs disabled msgs False 1"

section \<open>ATOX does not leave over IBC (reject\_atox\_ibc.go)\<close>

definition maxNestedAtoxMsgs :: nat where
  "maxNestedAtoxMsgs = 7"

fun reject_loop :: "string \<Rightarrow> sdk_msg list \<Rightarrow> nat \<Rightarrow> unit result" where
  "reject_loop atox [] depth = Inr ()"
| "reject_loop atox (msg # msgs) depth =
     (case msg of
        MsgExec None \<Rightarrow> Inl ErrInvalidRequest
      | MsgExec (Some inner) \<Rightarrow>
          bindR (if depth + 1 \<ge> maxNestedAtoxMsgs then Inl ErrInvalidRequest
                 else reject_loop atox inner (depth + 1))
            (\<lambda>_. reject_loop atox msgs depth)
      | MsgTransfer denom \<Rightarrow> if denom = atox then Inl ErrInvalidRequest else reject_loop atox msgs depth
      | _ \<Rightarrow> reject_loop atox msgs depth)"

definition reject :: "string \<Rightarrow> sdk_msg list \<Rightarrow> nat \<Rightarrow> unit result" where
  "reject atox msgs depth =
     (if depth \<ge> maxNestedAtoxMsgs then Inl ErrInvalidRequest else reject_loop atox msgs depth)"

definition RejectAtoxIBC_AnteHandle :: "string \<Rightarrow> sdk_msg list \<Rightarrow> unit result" where
  "RejectAtoxIBC_AnteHandle atox msgs = (if atox = [] then Inr () else reject atox msgs 1)"

section \<open>The floor on a validator's own stake (min\_self\_delegation.go)\<close>

fun self_delegation_loop :: "sdk_msg list \<Rightarrow> int \<Rightarrow> nat \<Rightarrow> unit result" where
  "self_delegation_loop [] floor lvl = Inr ()"
| "self_delegation_loop (msg # msgs) floor lvl =
     (case msg of
        MsgExec None \<Rightarrow> Inl ErrInvalidRequest
      | MsgExec (Some inner) \<Rightarrow>
          bindR (if lvl + 1 \<ge> maxNestedMsgs then Inl ErrInvalidRequest
                 else self_delegation_loop inner floor (lvl + 1))
            (\<lambda>_. self_delegation_loop msgs floor lvl)
      | MsgCreateValidator None amount \<Rightarrow> Inl ErrInvalidRequest
      | MsgCreateValidator (Some minSelf) amount \<Rightarrow>
          if minSelf < floor then Inl ErrInvalidRequest
          else if amount < floor then Inl ErrInvalidRequest
          else self_delegation_loop msgs floor lvl
      | MsgEditValidator (Some minSelf) \<Rightarrow>
          if minSelf < floor then Inl ErrInvalidRequest else self_delegation_loop msgs floor lvl
      | _ \<Rightarrow> self_delegation_loop msgs floor lvl)"

definition self_delegation_check :: "sdk_msg list \<Rightarrow> int \<Rightarrow> nat \<Rightarrow> unit result" where
  "self_delegation_check msgs floor lvl =
     (if lvl \<ge> maxNestedMsgs then Inl ErrInvalidRequest else self_delegation_loop msgs floor lvl)"

definition MinSelfDelegation_AnteHandle :: "'x ctx \<Rightarrow> sdk_msg list \<Rightarrow> unit result" where
  "MinSelfDelegation_AnteHandle c msgs =
     (let floor = GetValidatorMinSelfDelegation c in
      if \<not> floor > 0 then Inr () else self_delegation_check msgs floor 1)"

section \<open>The handler (cosmos.go)\<close>

text \<open>
  The decorators of the SDK and of the fee market, in three groups: set-up to the minimum gas price,
  the gas for the size of the transaction, and what follows the fee.
  The handler is the one that \<^verbatim>\<open>app.go\<close> builds, with both the energy and the tokenomics keeper supplied; the branches for
  a nil keeper serve unit tests only.
\<close>

record 'x sdk_decorators =
  dec_setup :: "'x ctx \<Rightarrow> fee_tx \<Rightarrow> 'x ctx result"
  dec_size :: "'x ctx \<Rightarrow> fee_tx \<Rightarrow> 'x ctx result"
  dec_rest :: "'x ctx \<Rightarrow> fee_tx \<Rightarrow> 'x ctx result"

definition MsgCreateVestingAccountURL :: string where
  "MsgCreateVestingAccountURL = ''/cosmos.vesting.v1beta1.MsgCreateVestingAccount''"

definition newCosmosAnteHandler ::
  "'x sdk \<Rightarrow> 'x hook \<Rightarrow> 'x ante_env \<Rightarrow> 'x sdk_decorators \<Rightarrow> 'x ctx \<Rightarrow> fee_tx \<Rightarrow> sdk_msg list \<Rightarrow> bool \<Rightarrow>
   (ante_out \<times> 'x ctx) result" where
  "newCosmosAnteHandler K H E S c tx msgs simulate =
     bindR (RejectMessages msgs) (\<lambda>_.
     bindR (AuthzLimiter_AnteHandle [MsgTypeURL MsgEthereumTx, MsgCreateVestingAccountURL] msgs) (\<lambda>_.
     bindR (RejectAtoxIBC_AnteHandle AtoxBaseDenom msgs) (\<lambda>_.
     bindR (dec_setup S c tx) (\<lambda>c.
     bindR (MinSelfDelegation_AnteHandle c msgs) (\<lambda>_.
     bindR (dec_size S c tx) (\<lambda>c.
     bindR (energy_AnteHandle K H E c tx simulate) (\<lambda>(out, c).
     bindR (dec_rest S c tx) (\<lambda>c. Inr (out, c)))))))))"

end
