(* ===== verification/ChainBooks.thy ===== *)
theory ChainBooks
  imports AtoxSafe Bridge AppAnte
begin

text \<open>
  What the operations of one module leave of the books of the others.  \<open>mild\<close> is what every operation
  outside the energy module does to the energy books and to the release accounting, \<open>apart\<close> what the
  operations of the energy module do to the ATOX books, and \<open>bank_moves\<close> what code outside the
  repository may do through the bank.
\<close>

section \<open>What the other modules may do\<close>

text \<open>
  Code outside the repository moves coins of the addresses \<open>P\<close> through the bank, and otherwise changes
  only its own state.
\<close>

inductive bank_moves :: "'x sdk \<Rightarrow> addr set \<Rightarrow> 'x ctx \<Rightarrow> 'x ctx \<Rightarrow> bool" for K P c where
  none: "bank_moves K P c c"
| transfer: "bank_moves K P c c1 \<Longrightarrow> f \<in> P \<Longrightarrow> send_coins K (app_hook K) c1 f t cs = Inr c2 \<Longrightarrow> bank_moves K P c c2"
| own: "bank_moves K P c c1 \<Longrightarrow> same_rest K (ext c1) y \<Longrightarrow> (\<And>d. bank_supply K y d = bank_supply K (ext c1) d) \<Longrightarrow>
    (\<And>a d. bank_balance K y a d = bank_balance K (ext c1) a d) \<Longrightarrow> bank_moves K P c (c1\<lparr>ext := y\<rparr>)"

text \<open>
  The Hyperlane core: dispatching charges the sender at most, whether it succeeds or fails, and the router hands out an identifier.
\<close>

definition core_law :: "'x sdk \<Rightarrow> 'x core \<Rightarrow> bool" where
  "core_law K Core \<longleftrightarrow>
     (\<forall>c m a fee dom v body s r c'. DispatchMessage Core c m a fee dom v body s = (r, c') \<longrightarrow> bank_moves K {s} c c') \<and>
     (\<forall>c i c'. GetNextSequence Core c = Inr (i, c') \<longrightarrow> bank_moves K {} c c')"

text \<open>
  The energy books kept, the pool of locked ATOS not drained, and the release accounting of the other
  modules untouched.
\<close>

definition mild :: "'x sdk \<Rightarrow> 'x ctx \<Rightarrow> 'x ctx \<Rightarrow> bool" where
  "mild K c c' \<longleftrightarrow> (accounts_ok (st_energy c) \<longrightarrow> same_books (st_energy c) (st_energy c')) \<and>
     pool_balance K c \<le> pool_balance K c' \<and> st_tokenomics c' = st_tokenomics c \<and> st_bridge c' = st_bridge c \<and>
     TotalReleasedToPool (GetGlobalState c') = TotalReleasedToPool (GetGlobalState c)"

lemma mild_refl [simp]: "mild K c c"
  by (simp add: mild_def)

lemma mild_trans: "mild K c d \<Longrightarrow> mild K d e \<Longrightarrow> mild K c e"
  by (auto simp: mild_def same_books_def)

lemma mild_touch:
  assumes "touch K c c'" "base_denom K \<noteq> AtoxBaseDenom"
    "TotalReleasedToPool (GetGlobalState c') = TotalReleasedToPool (GetGlobalState c)"
  shows "mild K c c'"
  using assms(1,3) touch_simps [OF assms(1)] touch_simps(10) [OF assms(1,2)] by (simp add: mild_def touch_def pool_balance_def)

lemma mild_ext:
  assumes "pool_balance K c \<le> pool_balance K (c\<lparr>ext := y\<rparr>)"
  shows "mild K c (c\<lparr>ext := y\<rparr>)"
  using assms by (simp add: mild_def GetGlobalState_def)

lemma mild_atox_writes [simp]:
  "mild K c (SetAtoxAccount r c)" "mild K c (SetScanCursor k c)" "mild K c (SetSweptIndex x c)" "mild K c (RecordFeeBurn n c)"
  "TotalReleasedToPool gs = TotalReleasedToPool (GetGlobalState c) \<Longrightarrow> mild K c (SetGlobalState gs c)"
  by (simp_all add: mild_def SetAtoxAccount_def SetScanCursor_def SetSweptIndex_def RecordFeeBurn_def SetGlobalState_def
      upd_atox_def GetGlobalState_def pool_balance_def Let_def)

lemma settle_mild:
  assumes "sdk_laws K" "SettleAccountWithBalance K (app_hook K) c a b = (r, c')"
  shows "mild K c c'"
proof (rule mild_touch [OF settle_touch [OF sdk_lawsD(1,7) [OF assms(1)] assms(2)] sdk_lawsD(7) [OF assms(1)]])
  let ?gs = "GetGlobalState c"
  obtain acct found where g: "getAtoxAccount K c a = (acct, found)" by fastforce
  obtain owed burn where o: "ComputeOwed (dmath K) b (Index acct) (GlobalIndex ?gs) = (owed, burn)" by fastforce
  have q: "GetGlobalState c1 = ?gs" if "0 < burn" "burnAtoxFor K (app_hook K) c a burn = (r1, c1)" for r1 c1
    using book_of_quiet(4) [OF settle_burn_cases(2) [OF sdk_lawsD(1,7) [OF assms(1)] that]] .
  show "TotalReleasedToPool (GetGlobalState c') = TotalReleasedToPool ?gs"
    using assms(2) q unfolding SettleAccountWithBalance_def g o Let_def prod.case
    by (auto split: if_splits sum.splits prod.splits)
qed

lemma hook_mild:
  assumes "sdk_laws K" "app_hook K c f t cs = Inr (t', c')"
  shows "mild K c c'" "t' = t"
proof -
  note bl = sdk_lawsD(1,7) [OF assms(1)]
  show "t' = t" by (rule app_hook_touch(1) [OF bl assms(2)])
  obtain c1 where r: "energy_SendRestriction K c f t cs = Inr (t, c1)" using restriction_total .
  note fr = restriction_frame(2,3) [OF r]
  have q: "quiet K c c1" by (rule quiet_frame [OF fr])
  have "mild K c1 c'"
    using assms(2) unfolding app_hook_eq [OF bl(1) r] atox_SendRestriction_def Let_def
    by (auto split: if_splits sum.splits prod.splits intro: mild_trans [OF settle_mild [OF assms(1)] settle_mild [OF assms(1)]])
  then have "TotalReleasedToPool (GetGlobalState c') = TotalReleasedToPool (GetGlobalState c)"
    using book_of_quiet(4) [OF q] by (simp add: mild_def)
  then show "mild K c c'" by (rule mild_touch [OF app_hook_touch(2) [OF bl assms(2)] bl(2)])
qed

lemma send_mild:
  assumes "sdk_laws K" "send_coins K (app_hook K) c f t cs = Inr c'" "f \<noteq> pool K"
  shows "mild K c c'"
proof -
  note b = sdk_lawsD(1) [OF assms(1)]
  obtain x1 t' c2 x3 where s: "bank_sub K (ext c) f cs = Inr x1" "app_hook K (c\<lparr>ext := x1\<rparr>) f t cs = Inr (t', c2)"
    "bank_add K (ext c2) t' cs = Inr x3" "c' = c2\<lparr>ext := x3\<rparr>"
    using send_coins_InrE [OF b assms(2)] by metis
  note sub = bank_sub_law [OF b s(1)] and add = bank_add_law [OF b s(3)]
  have "mild K c (c\<lparr>ext := x1\<rparr>)" by (rule mild_ext) (use assms(3) in \<open>simp add: pool_balance_def sub(3)\<close>)
  moreover have "mild K c2 c'" unfolding s(4) by (rule mild_ext) (simp add: pool_balance_def add(3) sub(4))
  ultimately show ?thesis using hook_mild(1) [OF assms(1) s(2)] mild_trans by blast
qed

lemma moves_mild:
  assumes "sdk_laws K" "pool K \<notin> P"
  shows "bank_moves K P c c' \<Longrightarrow> mild K c c'"
proof (induction rule: bank_moves.induct)
  case (transfer c1 f t cs c2)
  then show ?case using send_mild [OF assms(1), of c1 f t cs c2] assms(2) mild_trans by blast
next
  case (own c1 y)
  then show ?case using mild_trans [OF own(5)] mild_ext [of K c1 y] by (simp add: pool_balance_def)
qed simp

lemma moves_atox:
  assumes "sdk_laws K" "ExchangePoolAddress K \<notin> P"
  shows "bank_moves K P c c' \<Longrightarrow> atox_safe K c \<Longrightarrow> atox_safe K c'"
proof (induction rule: bank_moves.induct)
  case (transfer c1 f t cs c2)
  then show ?case using send_safe [OF assms(1) _ transfer(3)] assms(2) by blast
next
  case (own c1 y)
  have "book_of K (c1\<lparr>ext := y\<rparr>) = book_of K c1"
    unfolding book_of_quiet(1) [OF quiet_ext [OF own(2)]]
    by (simp add: AtoxBalance_def AtoxSupply_def ExchangePoolBalance_def own(3,4) book_of_def fun_eq_iff)
  then show ?case using ext_safe [OF own(5) own(2)] atox_safeD(3) [OF own(5)] own(6) by simp
qed simp

lemma energy_safe_mild:
  assumes "energy_safe K c R" "mild K c c'"
  shows "energy_safe K c' R"
proof -
  have "accounts_ok (st_energy c)" using assms(1) by (simp add: energy_safe_def energy_inv_def)
  then have b: "same_books (st_energy c) (st_energy c')" "pool_balance K c \<le> pool_balance K c'" using assms(2) by (simp_all add: mild_def)
  show ?thesis by (rule energy_safe_kept [OF assms(1) kept_books [OF energy_safeD [OF assms(1)] b]]) (use b in \<open>simp add: same_books_def\<close>)
qed

section \<open>The operations of the ATOX module\<close>

lemma pool_ne [simp]: "sdk_laws K \<Longrightarrow> m \<noteq> LockedEnergyPoolName \<Longrightarrow> module_address K m \<noteq> pool K"
  by (simp add: inj_eq [OF sdk_lawsD(4)])

lemma module_names [simp]:
  "AtoxModuleName \<noteq> LockedEnergyPoolName" "ExchangePoolName \<noteq> LockedEnergyPoolName" "LockedEnergyPoolName \<noteq> ExchangePoolName"
  "TokenomicsModuleName \<noteq> LockedEnergyPoolName" "TokenomicsModuleName \<noteq> ExchangePoolName"
  "MinerPoolName \<noteq> LockedEnergyPoolName" "MinerPoolName \<noteq> ExchangePoolName"
  "ProjectPoolName \<noteq> LockedEnergyPoolName" "ProjectPoolName \<noteq> ExchangePoolName"
  "MigrationPoolName \<noteq> LockedEnergyPoolName" "MigrationPoolName \<noteq> ExchangePoolName"
  by (simp_all add: AtoxModuleName_def ExchangePoolName_def LockedEnergyPoolName_def TokenomicsModuleName_def
      MinerPoolName_def ProjectPoolName_def MigrationPoolName_def)

lemma mint_mild:
  assumes "sdk_laws K" "mint_coins K c m cs = Inr c'"
  shows "mild K c c'"
proof -
  obtain y where y: "c' = c\<lparr>ext := y\<rparr>" "\<And>d. 0 \<le> AmountOf cs d" "\<And>b d. bank_balance K y b d =
       bank_balance K (ext c) b d + (if b = module_address K m then AmountOf cs d else 0)"
    using mint_coins_InrE [OF sdk_lawsD(1) [OF assms(1)] assms(2)] by metis
  show ?thesis unfolding y(1) by (rule mild_ext) (simp add: pool_balance_def y(2,3))
qed

lemma burn_mild:
  assumes "sdk_laws K" "burn_coins K c m cs = Inr c'" "m \<noteq> LockedEnergyPoolName"
  shows "mild K c c'"
proof -
  obtain y where y: "c' = c\<lparr>ext := y\<rparr>" "\<And>b d. bank_balance K y b d =
       bank_balance K (ext c) b d - (if b = module_address K m then AmountOf cs d else 0)"
    using burn_coins_InrE [OF sdk_lawsD(1) [OF assms(1)] assms(2)] by metis
  show ?thesis unfolding y(1)
    by (rule mild_ext) (use pool_ne [OF assms(1,3)] in \<open>auto simp: pool_balance_def y(2)\<close>)
qed

lemma MintAtoxToModule_mild:
  assumes "sdk_laws K" "MintAtoxToModule K (app_hook K) c m n = Inr c'"
  shows "mild K c c'"
proof -
  obtain cs c2 where s: "mint_coins K c AtoxModuleName cs = Inr c2" "send_between_modules K (app_hook K) c2 AtoxModuleName m cs = Inr c'"
    using assms(2) by (auto simp: MintAtoxToModule_def Let_def split: if_splits)
  note b = send_between_modules_InrD [OF sdk_lawsD(1) [OF assms(1)] s(2)]
  show ?thesis by (rule mild_trans [OF mint_mild [OF assms(1) s(1)] send_mild [OF assms(1) b]]) (simp add: assms(1))
qed

lemma MintAtox_mild:
  assumes "sdk_laws K" "MintAtox K (app_hook K) c a n = Inr c'"
  shows "mild K c c'"
proof -
  obtain v c1 cs c2 where s: "SettleAccountWithBalance K (app_hook K) c a (AtoxBalance K c a) = (Inr v, c1)"
    "mint_coins K c1 AtoxModuleName cs = Inr c2" "send_from_module K (app_hook K) c2 AtoxModuleName a cs = Inr c'"
    using assms(2) by (auto simp: MintAtox_def Let_def split: if_splits sum.splits prod.splits)
  note b = send_from_module_InrD [OF sdk_lawsD(1) [OF assms(1)] s(3)]
  have "mild K c1 c'"
    by (rule mild_trans [OF mint_mild [OF assms(1) s(2)] send_mild [OF assms(1) b]]) (simp add: assms(1))
  then show ?thesis by (rule mild_trans [OF settle_mild [OF assms(1) s(1)]])
qed

lemma payout_mild:
  assumes "sdk_laws K"
  shows "mild K c (snd (PayoutPending K (app_hook K) c a mn))"
proof (cases "SettleAccount K (app_hook K) c a")
  case (Pair r c1)
  note s = settle_mild [OF assms Pair [unfolded SettleAccount_def]]
  have f: "ExchangePoolAddress K \<noteq> pool K" unfolding ExchangePoolAddress_def by (simp add: assms)
  have "mild K c1 c2" if "send_from_module K (app_hook K) c1 ExchangePoolName a cs = Inr c2" for cs c2
    using send_mild [OF assms send_from_module_InrD [OF sdk_lawsD(1) [OF assms] that] f [unfolded ExchangePoolAddress_def]] .
  then have "mild K c1 (snd (PayoutPending K (app_hook K) c a mn))"
    unfolding PayoutPending_def Pair Let_def
    by (auto split: sum.splits intro: mild_trans [OF _ mild_trans [OF mild_atox_writes(1) mild_atox_writes(5)]]
        mild_trans [OF _ mild_atox_writes(1)])
  then show ?thesis by (rule mild_trans [OF s])
qed

lemma sweep_mild:
  assumes "sdk_laws K"
  shows "mild K c (sweep_payouts K (app_hook K) mn keys c)"
  by (induction keys arbitrary: c) (auto split: option.splits intro: mild_trans [OF payout_mild [OF assms]])

lemma atox_end_mild:
  assumes "sdk_laws K"
  shows "mild K c (atox_EndBlocker K (app_hook K) c)"
proof -
  have "mild K c (SetScanCursor k (sweep_payouts K (app_hook K) mn keys c))"
    "mild K c (SetScanCursor k (sweep_payouts K (app_hook K) mn keys (SetSweptIndex x c)))" for k mn keys x
    using mild_trans [OF sweep_mild [OF assms] mild_atox_writes(2)] mild_trans [OF mild_atox_writes(3)] by blast+
  then show ?thesis unfolding atox_EndBlocker_def Let_def by (auto split: prod.splits)
qed

lemma charge_mild:
  assumes laws: "sdk_laws K" and f: "f \<noteq> pool K" and charge: "ChargeInclusiveFee K (app_hook K) c f t amt = Inr c'"
  shows "mild K c c'"
proof (cases "send_coins K (app_hook K) c f t amt = Inr c'")
  case True
  then show ?thesis using send_mild [OF laws _ f] by blast
next
  case False
  obtain n cs c1 c2 net where s: "send_to_module K (app_hook K) c f AtoxModuleName cs = Inr c1"
    "burn_coins K c1 AtoxModuleName cs = Inr c2" "send_coins K (app_hook K) (RecordFeeBurn n c2) f t net = Inr c'"
    using charge False by (auto simp: ChargeInclusiveFee_def Let_def split: if_splits)
  have "mild K c1 c'"
    by (rule mild_trans [OF burn_mild [OF laws s(2)] mild_trans [OF mild_atox_writes(4) send_mild [OF laws s(3) f]]]) simp
  then show ?thesis by (rule mild_trans [OF send_mild [OF laws send_to_module_InrD [OF sdk_lawsD(1) [OF laws] s(1)] f]])
qed

section \<open>Combined: both books and the release accounting\<close>

definition books_safe :: "'x sdk \<Rightarrow> 'x ctx \<Rightarrow> (string \<times> consume_result) set \<Rightarrow> bool" where
  "books_safe K c R \<longleftrightarrow> atox_safe K c \<and> energy_safe K c R"

lemma books_mild: "books_safe K c R \<Longrightarrow> mild K c c' \<Longrightarrow> atox_safe K c' \<Longrightarrow> books_safe K c' R"
  using energy_safe_mild by (auto simp: books_safe_def)

text \<open>The two addresses that only their keepers debit.\<close>

definition outsider :: "'x sdk \<Rightarrow> addr \<Rightarrow> bool" where
  "outsider K a \<longleftrightarrow> a \<noteq> pool K \<and> a \<noteq> ExchangePoolAddress K"

lemma outsider_module: "sdk_laws K \<Longrightarrow> m \<noteq> LockedEnergyPoolName \<Longrightarrow> m \<noteq> ExchangePoolName \<Longrightarrow> outsider K (module_address K m)"
  by (simp add: outsider_def)

lemma outsider_send:
  assumes "sdk_laws K" "books_safe K c R" "outsider K f" "send_coins K (app_hook K) c f t cs = Inr c'"
  shows "books_safe K c' R" "mild K c c'"
proof -
  show m: "mild K c c'" using send_mild [OF assms(1,4)] assms(3) by (simp add: outsider_def)
  show "books_safe K c' R"
    using send_safe [OF assms(1) _ assms(4)] assms(2,3) by (intro books_mild [OF assms(2) m]) (simp add: books_safe_def outsider_def)
qed

lemma outsider_moves:
  assumes "sdk_laws K" "books_safe K c R" "\<And>a. a \<in> P \<Longrightarrow> outsider K a" "bank_moves K P c c'"
  shows "books_safe K c' R" "mild K c c'"
proof -
  show m: "mild K c c'" using moves_mild [OF assms(1) _ assms(4)] assms(3) by (auto simp: outsider_def)
  have "ExchangePoolAddress K \<notin> P" using assms(3) by (auto simp: outsider_def)
  then show "books_safe K c' R"
    using moves_atox [OF assms(1) _ assms(4)] assms(2) by (intro books_mild [OF assms(2) m]) (simp add: books_safe_def)
qed

section \<open>The operations of the energy module\<close>

text \<open>What an operation of the energy module leaves alone of the others.\<close>

definition apart :: "'x sdk \<Rightarrow> 'x ctx \<Rightarrow> 'x ctx \<Rightarrow> bool" where
  "apart K c c' \<longleftrightarrow> (atox_safe K c \<longrightarrow> atox_safe K c') \<and> st_tokenomics c' = st_tokenomics c \<and> st_bridge c' = st_bridge c \<and>
     (atox_safe K c \<longrightarrow> TotalReleasedToPool (GetGlobalState c') = TotalReleasedToPool (GetGlobalState c))"

lemma apart_refl [simp]: "apart K c c"
  by (simp add: apart_def)

lemma apart_trans: "apart K c d \<Longrightarrow> apart K d e \<Longrightarrow> apart K c e"
  by (auto simp: apart_def)

lemma apart_frame:
  assumes "frame c c'"
  shows "apart K c c'"
proof -
  have e: "c' = c\<lparr>st_energy := st_energy c'\<rparr>" using assms by (simp add: frame_def)
  have f: "st_atox c' = st_atox c" "ext c' = ext c" "fee_in_progress c' = fee_in_progress c" "st_tokenomics c' = st_tokenomics c"
    "st_bridge c' = st_bridge c" by (subst e, simp)+
  have "book_of K c' = book_of K c" "atox_records c' = atox_records c" by (rule same_book; simp add: f)+
  then show ?thesis using f by (simp add: apart_def atox_safe_def AtoxSupplyCap_def atox_GetParams_def GetGlobalState_def)
qed

lemma apart_send:
  assumes "sdk_laws K" "send_coins K (app_hook K) c f t cs = Inr c'" "f \<noteq> ExchangePoolAddress K"
  shows "apart K c c'"
proof -
  note b = sdk_lawsD(1) [OF assms(1)]
  obtain x1 t' c2 x3 where s: "app_hook K (c\<lparr>ext := x1\<rparr>) f t cs = Inr (t', c2)" "c' = c2\<lparr>ext := x3\<rparr>"
    using send_coins_InrE [OF b assms(2)] by metis
  have "mild K (c\<lparr>ext := x1\<rparr>) c2" by (rule hook_mild(1) [OF assms(1) s(1)])
  then show ?thesis using send_safe [OF assms(1) _ assms(2,3)] by (simp add: apart_def mild_def s(2) GetGlobalState_def)
qed

lemma apart_moves:
  assumes "sdk_laws K" "ExchangePoolAddress K \<notin> P"
  shows "bank_moves K P c c' \<Longrightarrow> apart K c c'"
proof (induction rule: bank_moves.induct)
  case (transfer c1 f t cs c2)
  then show ?case using apart_send [OF assms(1) transfer(3)] assms(2) apart_trans by blast
next
  case (own c1 y)
  have "bank_moves K {} c1 (c1\<lparr>ext := y\<rparr>)" by (rule bank_moves.own [OF bank_moves.none own(2-4)])
  then have "apart K c1 (c1\<lparr>ext := y\<rparr>)"
    using moves_atox [OF assms(1), of "{}"] by (simp add: apart_def GetGlobalState_def)
  then show ?case by (rule apart_trans [OF own(5)])
qed simp

lemma refund_loop_frame: "frame c (snd (refund_loop cs target u c))"
proof (induction cs arbitrary: u c)
  case (Cons e cs)
  note step = frame_trans [OF setDelegation_simps(9) Cons]
  show ?case by (cases e) (auto simp: Let_def Cons split: option.split intro: step)
qed simp

lemma RefundEnergy_frame: "frame c (RefundEnergy K c signer amount res)"
proof -
  have "frame c (SetEnergyAccount a (snd (refund_loop cs target u c)))" for a cs target u
    by (rule frame_trans [OF refund_loop_frame frame_set])
  then show ?thesis unfolding RefundEnergy_def Let_def by (auto split: prod.splits) (metis snd_conv)+
qed

lemma Delegate_apart:
  assumes laws: "sdk_laws K" and f: "delegator \<noteq> ExchangePoolAddress K"
    and d: "Delegate K (app_hook K) c delegator delegatee amount duration = Inr (did, locked, c')"
  shows "apart K c c'"
  using d
proof (rule Delegate_InrE)
  fix da c1 coins c3 de c4
  assume s: "Settle K c delegator = (da, c1)" "Settle K c3 delegatee = (de, c4)"
    "send_to_module K (app_hook K) (SetEnergyAccount (da\<lparr>DelegatedOut := DelegatedOut da + amount,
       LockedAtos := LockedAtos da + locked\<rparr>) c1) delegator LockedEnergyPoolName coins = Inr c3"
    "c' = setDelegation (delegation_of K (block_time c4) did delegator delegatee amount locked duration)
       (snd (nextDelegationID (SetEnergyAccount (de\<lparr>DelegatedInUsable := saturatingAdd (DelegatedInUsable de) amount\<rparr>) c4)))"
  let ?c2 = "SetEnergyAccount (da\<lparr>DelegatedOut := DelegatedOut da + amount, LockedAtos := LockedAtos da + locked\<rparr>) c1"
  let ?c5 = "SetEnergyAccount (de\<lparr>DelegatedInUsable := saturatingAdd (DelegatedInUsable de) amount\<rparr>) c4"
  have "frame c ?c2" by (rule settled_write_frame [OF s(1)])
  moreover have "apart K ?c2 c3" by (rule apart_send [OF laws send_to_module_InrD [OF sdk_lawsD(1) [OF laws] s(3)] f])
  moreover have "frame c3 ?c5" by (rule settled_write_frame [OF s(2)])
  moreover have "frame ?c5 c'" unfolding s(4)
    by (rule frame_trans [OF _ setDelegation_simps(9)]) (simp add: nextDelegationID_def Let_def)
  ultimately show ?thesis by (meson apart_frame apart_trans)
qed

lemma release_apart:
  assumes laws: "sdk_laws K"
  shows "apart K c (snd (releaseDelegation K (app_hook K) c d))"
proof (cases "acc_from_bech32 (codec K) (d_Delegator d)")
  case (Some delegator)
  note A = this
  show ?thesis
  proof (cases "acc_from_bech32 (codec K) (d_Delegatee d)")
    case (Some delegatee)
    obtain da c1 where s: "Settle K c delegator = (da, c1)" by fastforce
    let ?c2 = "SetEnergyAccount (release_delegator d da) c1"
    have f2: "apart K c ?c2" by (rule apart_frame [OF settled_write_frame [OF s]])
    define refunded where "refunded = (if d_LockedAtos d > 0 then bindR (new_coins (base_denom K) (d_LockedAtos d))
        (\<lambda>coins. send_from_module K (app_hook K) ?c2 LockedEnergyPoolName delegator coins) else Inr ?c2)"
    have rel: "snd (releaseDelegation K (app_hook K) c d) = (case refunded of Inl e \<Rightarrow> ?c2 | Inr c3 \<Rightarrow>
        removeDelegation d (SetEnergyAccount (take_back d (fst (Settle K c3 delegatee))) (snd (Settle K c3 delegatee))))"
      using A Some by (simp add: releaseDelegation_def s refunded_def [symmetric] Let_def take_back_def split: sum.splits prod.splits)
    show ?thesis
    proof (cases refunded)
      case (Inr c3)
      have "apart K ?c2 c3"
        using Inr apart_send [OF laws send_from_module_InrD [OF sdk_lawsD(1) [OF laws]]] ExchangePool_ne [OF laws, of LockedEnergyPoolName]
        by (auto simp: refunded_def split: if_splits)
      moreover have "frame c3 (removeDelegation d (SetEnergyAccount a (snd (Settle K c3 delegatee))))" for a
        by (rule frame_trans [OF Settle_frame frame_trans [OF frame_set removeDelegation_simps(9)]])
      ultimately show ?thesis unfolding rel Inr sum.case using apart_trans [OF f2 apart_trans [OF _ apart_frame]] by blast
    qed (simp add: rel f2)
  qed (simp add: releaseDelegation_def A)
qed (simp add: releaseDelegation_def)

lemma energy_sweep_apart:
  assumes "sdk_laws K"
  shows "apart K c (sweep_loop K (app_hook K) ids c)"
  by (induction ids arbitrary: c) (auto split: option.splits intro: apart_trans [OF release_apart [OF assms]])

lemma Delete_frame [simp]:
  "frame c (DeletePendingReservation c h)" "frame c (DeletePendingReservation (RefundEnergy K c signer amount res) h)"
proof -
  show f: "frame c (DeletePendingReservation c h)" for c :: "'a ctx" by (simp add: DeletePendingReservation_def)
  show "frame c (DeletePendingReservation (RefundEnergy K c signer amount res) h)"
    by (rule frame_trans [OF RefundEnergy_frame f])
qed

lemma refund_entry_frame: "frame c (refund_entry K e c)"
  by (auto simp: refund_entry_def Let_def split: prod.splits)

lemma energy_end_apart:
  assumes "sdk_laws K"
  shows "apart K c (energy_EndBlocker K (app_hook K) c)"
proof -
  have "frame c (fold (refund_entry K) es c)" for es and c :: "'a ctx"
    by (induction es arbitrary: c) (auto intro: frame_trans [OF refund_entry_frame])
  note r = apart_trans [OF energy_sweep_apart [OF assms] apart_frame [OF this]]
  show ?thesis
    by (simp add: energy_EndBlocker_def refundFailedTxReservations_def SweepExpiredDelegations_def r)
qed

lemma post_apart: "apart K c (energy_PostHandle K E c stash used limit)"
  by (rule apart_frame) (auto simp: energy_PostHandle_def Let_def split: option.splits)

lemma ante_apart:
  assumes laws: "sdk_laws K" "grant_law K E" and inv: "energy_inv K c"
    and ante: "energy_AnteHandle K (app_hook K) E c tx simulate = Inr (out, c')" and f: "a_signer out \<noteq> ExchangePoolAddress K"
  shows "apart K c c'"
proof -
  define who where "who = (if tx_fee_granter tx \<noteq> [] then tx_fee_granter tx else tx_fee_payer tx)"
  define probe where "probe = (if simulate \<and> tx_gas tx = 0 then 1 else tx_gas tx)"
  obtain res c1 where co: "Consume K c who probe (isContractDeployMsg (tx_msg_urls tx)) (tx_msg_urls tx) = Inr (res, c1)" "frame c c1"
    using Consume_kept [OF inv] by metis
  define c2 where "c2 = (if \<not> Free res \<and> \<not> simulate
      then SetPendingReservation K c1 (txHashFromCtx E c1) who (tx_gas tx) res else c1)"
  have c2: "apart K c c2"
    by (rule apart_frame) (use co(2) frame_trans [OF co(2) frame_upd_energy] in \<open>auto simp: c2_def SetPendingReservation_def\<close>)
  have out: "a_signer out = who"
    using ante co(1) unfolding energy_AnteHandle_def Let_def who_def [symmetric] probe_def [symmetric]
    by (auto split: if_splits sum.splits prod.splits)
  have grant: "apart K c2 c3" if g: "use_granted_fees E c2 a b cs = Inr c3" for a b cs c3
  proof -
    obtain y where y: "c3 = c2\<lparr>ext := y\<rparr>" "same_rest K (ext c2) y" "\<And>d. bank_supply K y d = bank_supply K (ext c2) d"
      "\<And>a d. bank_balance K y a d = bank_balance K (ext c2) a d"
      using g laws(2) unfolding grant_law_def by blast
    have "bank_moves K {} c2 c3" unfolding y(1) by (rule bank_moves.own [OF bank_moves.none y(2-4)])
    then show ?thesis using apart_moves [OF laws(1), of "{}"] by simp
  qed
  have charge: "apart K c3 c'" if "send_to_module K (app_hook K) c3 who FeeCollectorName cs = Inr c'" for c3 cs
    using apart_send [OF laws(1) send_to_module_InrD [OF sdk_lawsD(1) [OF laws(1)] that]] f out by simp
  have "apart K c2 c'"
    using ante unfolding energy_AnteHandle_def Let_def who_def [symmetric] probe_def [symmetric] co(1)
      bindR_simps(2) prod.case c2_def [symmetric]
    by (auto split: if_splits sum.splits) (blast intro: charge apart_trans [OF grant charge])+
  then show ?thesis by (rule apart_trans [OF c2])
qed

end
