(* ===== verification/ChainOps.thy ===== *)
theory ChainOps
  imports ChainBooks
begin

text \<open>
  The release accounting that spans the bridge, the tokenomics module and the ATOX module (\<open>link_ok\<close>),
  and that every operation of the tokenomics module and of the bridge adapter keeps a chain state safe.
\<close>

section \<open>The release accounting across modules\<close>

text \<open>
  The receipts of the bridge, the authorisations of the tokenomics module, the claimable amount of the
  project and the releases into the conversion pool count the same ATOS: the pool has received exactly
  what the bridge has confirmed, and nothing is confirmed beyond what was authorised.
\<close>

definition peg :: "'x ctx \<Rightarrow> int" where
  "peg c = i64_of_u64 (AtosPerErc20 (br_GetParams c))"

definition link_ok :: "'x ctx \<Rightarrow> bool" where
  "link_ok c \<longleftrightarrow> 0 < peg c \<and> AtosPerErc20 (br_GetParams c) \<noteq> 0 \<and>
     0 \<le> AppliedToBridge (GetReceiptState c) \<and> 0 \<le> AppliedToProject (GetReceiptState c) \<and>
     TotalReleasedToPool (GetGlobalState c) = AppliedToBridge (GetReceiptState c) * peg c \<and>
     AppliedToBridge (GetReceiptState c) * peg c \<le> TotalMinerReleased (GetReleaseState c) \<and>
     AppliedToProject (GetReceiptState c) * peg c \<le> TotalProjectReleased (GetReleaseState c) \<and>
     0 \<le> GetProjectClaimable c \<and> GetProjectClaimable c \<le> AppliedToProject (GetReceiptState c) * peg c \<and>
     MinerReleaseShareBps (tok_GetParams c) \<le> 10000"

definition chain_safe :: "'x sdk \<Rightarrow> 'x ctx \<Rightarrow> (string \<times> consume_result) set \<Rightarrow> bool" where
  "chain_safe K c R \<longleftrightarrow> books_safe K c R \<and> link_ok c"

lemma link_same:
  assumes "link_ok c" "st_tokenomics c' = st_tokenomics c" "st_bridge c' = st_bridge c"
    "TotalReleasedToPool (GetGlobalState c') = TotalReleasedToPool (GetGlobalState c)"
  shows "link_ok c'"
  using assms by (simp add: link_ok_def peg_def br_GetParams_def GetReceiptState_def GetReleaseState_def
      GetProjectClaimable_def tok_GetParams_def)

lemma chain_mild: "chain_safe K c R \<Longrightarrow> mild K c c' \<Longrightarrow> atox_safe K c' \<Longrightarrow> chain_safe K c' R"
  using books_mild link_same by (auto simp: chain_safe_def mild_def)

lemma chain_apart: "chain_safe K c R \<Longrightarrow> apart K c c' \<Longrightarrow> energy_safe K c' R' \<Longrightarrow> chain_safe K c' R'"
  using link_same [of c c'] by (auto simp: chain_safe_def books_safe_def apart_def)

lemma chain_send:
  assumes "sdk_laws K" "chain_safe K c R" "outsider K f" "send_coins K (app_hook K) c f t cs = Inr c'"
  shows "chain_safe K c' R" "mild K c c'"
  using outsider_send [OF assms(1) _ assms(3,4)] assms(2) chain_mild [OF assms(2)]
  by (auto simp: chain_safe_def books_safe_def)

lemma chain_moves:
  assumes "sdk_laws K" "chain_safe K c R" "\<And>a. a \<in> P \<Longrightarrow> outsider K a" "bank_moves K P c c'"
  shows "chain_safe K c' R" "mild K c c'"
  using outsider_moves [OF assms(1) _ assms(3,4)] assms(2) chain_mild [OF assms(2)]
  by (auto simp: chain_safe_def books_safe_def)

text \<open>Writes to the tokenomics and bridge stores.\<close>

lemma tok_write:
  assumes "chain_safe K c R" "link_ok (upd_tok f c)"
  shows "chain_safe K (upd_tok f c) R"
proof -
  have "book_of K (upd_tok f c) = book_of K c" "atox_records (upd_tok f c) = atox_records c"
    by (rule same_book; simp add: upd_tok_def)+
  then have "atox_safe K (upd_tok f c)"
    using assms(1) by (simp add: chain_safe_def books_safe_def atox_safe_def, simp add: upd_tok_def AtoxSupplyCap_def atox_GetParams_def)
  moreover have "energy_safe K (upd_tok f c) R"
    using assms(1) by (simp add: chain_safe_def books_safe_def energy_safe_def energy_inv_def pool_balance_def upd_tok_def)
  ultimately show ?thesis using assms(2) by (simp add: chain_safe_def books_safe_def)
qed

lemma bridge_write:
  assumes "chain_safe K c R" "link_ok (upd_bridge f c)"
  shows "chain_safe K (upd_bridge f c) R"
proof -
  have "book_of K (upd_bridge f c) = book_of K c" "atox_records (upd_bridge f c) = atox_records c"
    by (rule same_book; simp add: upd_bridge_def)+
  then have "atox_safe K (upd_bridge f c)"
    using assms(1) by (simp add: chain_safe_def books_safe_def atox_safe_def, simp add: upd_bridge_def AtoxSupplyCap_def atox_GetParams_def)
  moreover have "energy_safe K (upd_bridge f c) R"
    using assms(1) by (simp add: chain_safe_def books_safe_def energy_safe_def energy_inv_def pool_balance_def upd_bridge_def)
  ultimately show ?thesis using assms(2) by (simp add: chain_safe_def books_safe_def)
qed

lemmas link_simps = link_ok_def peg_def br_GetParams_def GetReceiptState_def GetReleaseState_def GetProjectClaimable_def
  tok_GetParams_def GetGlobalState_def upd_tok_def upd_bridge_def

section \<open>The operations of the tokenomics module\<close>

lemma begin_block_chain:
  assumes laws: "sdk_laws K" and safe: "chain_safe K c R" and b: "tok_BeginBlocker K (app_hook K) c = Inr c'"
  shows "chain_safe K c' R"
proof (cases "c' = c")
  case False
  then obtain n st c1 where m: "MintAtoxToModule K (app_hook K) c FeeCollectorName n = Inr c1" "c' = SetBlockRewardState st c1"
    using b by (auto simp: tok_BeginBlocker_def Let_def split: if_splits sum.splits)
  have "atox_safe K c" using safe by (simp add: chain_safe_def books_safe_def)
  then have c1: "chain_safe K c1 R"
    by (intro chain_mild [OF safe MintAtoxToModule_mild [OF laws m(1)] MintAtoxToModule_safe [OF laws _ m(1)]])
  then have "link_ok c1" by (simp add: chain_safe_def)
  then show ?thesis unfolding m(2) SetBlockRewardState_def by (intro tok_write [OF c1]) (simp add: link_simps)
qed (use safe in simp)

lemma clamp_min: "(if (b :: int) < a then b else a) = min a b"
  by auto

text \<open>What a refill moves: the smallest of the gap, the confirmed claim and the project pool.\<close>

definition refill_amount :: "'x sdk \<Rightarrow> 'x ctx \<Rightarrow> int" where
  "refill_amount K c = min (min (MigrationPoolTotal (tok_GetParams c) - pool_of K c MigrationPoolName) (GetProjectClaimable c))
     (pool_of K c ProjectPoolName)"

lemma Refill_InrE:
  assumes "RefillMigrationPool K H c = Inr c'"
  obtains "c' = c"
  | c1 where "0 < refill_amount K c" "c' = SetProjectClaimable (GetProjectClaimable c - refill_amount K c) c1"
      "send_between_modules K H c ProjectPoolName MigrationPoolName [(base_denom K, refill_amount K c)] = Inr c1"
proof -
  have "c' = c \<or> (0 < refill_amount K c \<and> bindR (new_coins (base_denom K) (refill_amount K c)) (\<lambda>coins.
      bindR (send_between_modules K H c ProjectPoolName MigrationPoolName coins) (\<lambda>c1.
      Inr (SetProjectClaimable (GetProjectClaimable c - refill_amount K c) c1))) = Inr c')"
    using assms unfolding RefillMigrationPool_def Let_def clamp_min refill_amount_def [symmetric] by (auto split: if_splits)
  then show ?thesis using that by (auto simp: new_coins_def)
qed

lemma refill_chain:
  assumes laws: "sdk_laws K" and safe: "chain_safe K c R" and b: "RefillMigrationPool K (app_hook K) c = Inr c'"
  shows "chain_safe K c' R" "GetReleaseState c' = GetReleaseState c" "tok_GetParams c' = tok_GetParams c"
proof -
  have "chain_safe K c' R \<and> GetReleaseState c' = GetReleaseState c \<and> tok_GetParams c' = tok_GetParams c"
  proof (cases "c' = c")
    case False
    let ?n = "refill_amount K c"
    obtain c1 where m: "0 < ?n" "c' = SetProjectClaimable (GetProjectClaimable c - ?n) c1"
      "send_between_modules K (app_hook K) c ProjectPoolName MigrationPoolName [(base_denom K, ?n)] = Inr c1"
      using b False by (auto elim: Refill_InrE)
    have n: "?n \<le> GetProjectClaimable c" by (simp add: refill_amount_def)
    have "outsider K (module_address K ProjectPoolName)" by (rule outsider_module [OF laws]) simp_all
    note c1 = chain_send [OF laws safe this send_between_modules_InrD [OF sdk_lawsD(1) [OF laws] m(3)]]
    have "link_ok c1" using c1(1) by (simp add: chain_safe_def)
    moreover have same: "st_tokenomics c1 = st_tokenomics c" using c1(2) by (simp add: mild_def)
    ultimately have "chain_safe K c' R"
      unfolding m(2) SetProjectClaimable_def using m(1) n by (intro tok_write [OF c1(1)]) (simp add: link_simps)
    then show ?thesis using same by (simp add: m(2) SetProjectClaimable_def GetReleaseState_def tok_GetParams_def upd_tok_def)
  qed (use safe in simp)
  then show "chain_safe K c' R" "GetReleaseState c' = GetReleaseState c" "tok_GetParams c' = tok_GetParams c" by simp_all
qed

lemma quoT_ge_0: "0 \<le> a \<Longrightarrow> 0 < b \<Longrightarrow> 0 \<le> quoT a b"
  by (simp add: pos_imp_zdiv_nonneg_iff)

lemma quoT_share: "0 \<le> q \<Longrightarrow> uint (b :: u32) \<le> 10000 \<Longrightarrow> quoT (q * uint b) 10000 \<le> q"
proof -
  assume "0 \<le> q" "uint b \<le> 10000"
  then have "q * uint b \<le> q * 10000" by (intro mult_left_mono) auto
  then have "q * uint b div 10000 \<le> q" using zdiv_mono1 [of "q * uint b" "q * 10000" 10000] by simp
  then show ?thesis using \<open>0 \<le> q\<close> by simp
qed

lemma authorize_bounds:
  assumes "bank_laws K"
  shows "0 \<le> authorizeMinerRelease K c n" "authorizeMinerRelease K c n \<le> max 0 n"
    "authorizeMinerRelease K c n \<le> pool_of K c MinerPoolName"
  using bank_balance_nonneg [OF assms] by (auto simp: authorizeMinerRelease_def pool_of_def Let_def not_less)

lemma TriggerRelease_state:
  assumes laws: "bank_laws K" and share: "uint (MinerReleaseShareBps params) \<le> 10000"
    and t: "TriggerRelease K D c state params = (state', c')"
  obtains m p where "state' = state\<lparr>TotalMinerReleased := TotalMinerReleased state + m, TotalProjectReleased := TotalProjectReleased state + p\<rparr>"
    "0 \<le> m" "0 \<le> p" "m \<le> pool_of K c MinerPoolName"
    "m + p \<le> max 0 (quoT (GetCirculatingSupply c * uint (ReleasePercentageBps params)) 10000)"
    "c' = c \<or> (\<exists>m p r. D c m p = (r, c'))"
proof -
  let ?circ = "GetCirculatingSupply c"
  let ?q = "quoT (?circ * uint (ReleasePercentageBps params)) 10000"
  let ?mt = "quoT (?q * uint (MinerReleaseShareBps params)) 10000"
  let ?m = "authorizeMinerRelease K c ?mt"
  let ?p = "(if ?m < ?mt then ?q - ?mt + (?mt - ?m) else ?q - ?mt)"
  let ?cap = "(if pool_of K c ProjectPoolName - GetProjectClaimable c < 0 then 0 else pool_of K c ProjectPoolName - GetProjectClaimable c)"
  let ?p' = "(if ?cap < ?p then ?cap else ?p)"
  show ?thesis
  proof (cases "?circ > 0")
    case True
    have q: "0 \<le> ?q" using True by (intro quoT_ge_0) simp_all
    have mt: "?mt \<le> ?q" "0 \<le> ?mt" using quoT_share [OF q share] quoT_ge_0 [of "?q * uint (MinerReleaseShareBps params)" 10000] q
      by (simp_all only: mult_nonneg_nonneg uint_ge_0 zero_less_numeral)
    have m: "0 \<le> ?m" "?m \<le> ?mt" "?m \<le> pool_of K c MinerPoolName" using authorize_bounds [OF laws, of c ?mt] mt(2) by simp_all
    have p: "0 \<le> ?p'" "?m + ?p' \<le> max 0 ?q" using mt m by (auto simp: max_def)
    define st where "st = state\<lparr>TotalMinerReleased := TotalMinerReleased state + ?m, TotalProjectReleased := TotalProjectReleased state + ?p'\<rparr>"
    have "TriggerRelease K D c state params =
        (case D c (TotalMinerReleased st) (TotalProjectReleased st) of (_, c) \<Rightarrow> (st, c))"
      unfolding TriggerRelease_def Let_def st_def using True by (simp only: not_True_eq_False if_False)
    then have r: "state' = st \<and> (c' = c \<or> (\<exists>m p r. D c m p = (r, c')))"
      using t by (cases "D c (TotalMinerReleased st) (TotalProjectReleased st)") (auto split: prod.splits)
    show ?thesis by (rule that [OF conjunct1 [OF r, unfolded st_def] m(1) p(1) m(3) p(2) conjunct2 [OF r]])
  next
    case False
    have "0 \<le> pool_of K c MinerPoolName" using bank_balance_nonneg [OF laws] by (simp add: pool_of_def)
    then show ?thesis using that [of 0 0] t False by (simp add: TriggerRelease_def)
  qed
qed

lemma settle_day_cases:
  assumes laws: "bank_laws K" and share: "uint (MinerReleaseShareBps params) \<le> 10000"
    and t: "settle_day K D params today state c = (state', c')"
  obtains (same) "state' = state" "c' = c"
  | (counted) "CurrentSampleDay state \<noteq> 0" "CurrentSampleDay state < today" "c' = c"
      "state' = state\<lparr>ConsecutiveDays := (if DayQualified state then ConsecutiveDays state + 1 else 0), DayQualified := False, SamplesToday := 0\<rparr>"
  | (released) m p where "CurrentSampleDay state \<noteq> 0" "CurrentSampleDay state < today"
      "ConsecutiveDaysRequired params \<le> (if DayQualified state then ConsecutiveDays state + 1 else 0)"
      "state' = state\<lparr>ConsecutiveDays := 0, CurrentTier := CurrentTier state + 1, DayQualified := False, SamplesToday := 0,
         TotalMinerReleased := TotalMinerReleased state + m, TotalProjectReleased := TotalProjectReleased state + p\<rparr>"
      "0 \<le> m" "0 \<le> p" "m \<le> pool_of K c MinerPoolName"
      "m + p \<le> max 0 (quoT (GetCirculatingSupply c * uint (ReleasePercentageBps params)) 10000)"
      "c' = c \<or> (\<exists>m p r. D c m p = (r, c'))"
proof -
  define st1 where "st1 = (if DayQualified state then state\<lparr>ConsecutiveDays := ConsecutiveDays state + 1\<rparr> else state\<lparr>ConsecutiveDays := 0\<rparr>)"
  obtain st2 c2 where tr: "TriggerRelease K D c st1 params = (st2, c2)" by fastforce
  obtain m p where g: "st2 = st1\<lparr>TotalMinerReleased := TotalMinerReleased st1 + m, TotalProjectReleased := TotalProjectReleased st1 + p\<rparr>"
    "0 \<le> m" "0 \<le> p" "m \<le> pool_of K c MinerPoolName"
    "m + p \<le> max 0 (quoT (GetCirculatingSupply c * uint (ReleasePercentageBps params)) 10000)"
    "c2 = c \<or> (\<exists>m p r. D c m p = (r, c2))" using TriggerRelease_state [OF laws share tr] by metis
  have st1: "ConsecutiveDays st1 = (if DayQualified state then ConsecutiveDays state + 1 else 0)" by (simp add: st1_def)
  consider "(state', c') = (state, c)"
    | "CurrentSampleDay state \<noteq> 0" "CurrentSampleDay state < today" "(state', c') = (st1\<lparr>DayQualified := False, SamplesToday := 0\<rparr>, c)"
    | "CurrentSampleDay state \<noteq> 0" "CurrentSampleDay state < today" "ConsecutiveDaysRequired params \<le> ConsecutiveDays st1"
      "(state', c') = (st2\<lparr>ConsecutiveDays := 0, CurrentTier := CurrentTier st2 + 1, DayQualified := False, SamplesToday := 0\<rparr>, c2)"
    using t unfolding settle_day_def Let_def st1_def [symmetric] tr prod.case by (fastforce split: if_splits)
  then show ?thesis
  proof cases
    case 1
    then show ?thesis using same by simp
  next
    case 2
    then show ?thesis using counted by (simp add: st1_def)
  next
    case 3
    have "st2\<lparr>ConsecutiveDays := 0, CurrentTier := CurrentTier st2 + 1, DayQualified := False, SamplesToday := 0\<rparr> =
        state\<lparr>ConsecutiveDays := 0, CurrentTier := CurrentTier state + 1, DayQualified := False, SamplesToday := 0,
          TotalMinerReleased := TotalMinerReleased state + m, TotalProjectReleased := TotalProjectReleased state + p\<rparr>"
      by (cases state) (simp add: g(1) st1_def)
    then have r: "state' = state\<lparr>ConsecutiveDays := 0, CurrentTier := CurrentTier state + 1, DayQualified := False, SamplesToday := 0,
          TotalMinerReleased := TotalMinerReleased state + m, TotalProjectReleased := TotalProjectReleased state + p\<rparr>" "c' = c2"
      using 3(4) by simp_all
    show ?thesis by (rule released [OF 3(1,2) 3(3) [unfolded st1] r(1) g(2-5)]) (use g(6) r(2) in simp)
  qed
qed

lemma settle_day_grows:
  assumes "bank_laws K" "uint (MinerReleaseShareBps params) \<le> 10000" "settle_day K D params today state c = (state', c')"
  shows "TotalMinerReleased state \<le> TotalMinerReleased state'" "TotalProjectReleased state \<le> TotalProjectReleased state'"
    "c' = c \<or> (\<exists>m p r. D c m p = (r, c'))"
  by (rule settle_day_cases [OF assms]; simp)+

lemma take_sample_totals [simp]:
  "TotalMinerReleased (take_sample K params now state c) = TotalMinerReleased state"
  "TotalProjectReleased (take_sample K params now state c) = TotalProjectReleased state"
  by (simp_all add: take_sample_def Let_def split: sum.split)

lemma dispatch_moves:
  assumes "core_law K Core" "DispatchTierRelease Core c m p = (r, c')"
  shows "bank_moves K {[]} c c'"
proof (cases "c' = c")
  case False
  then obtain a b d e f where "DispatchMessage Core c a b [] d e f [] = (r, c')"
    using assms(2) by (auto simp: DispatchTierRelease_def Let_def split: if_splits sum.splits)
  then show ?thesis using assms(1) by (simp add: core_law_def)
qed (simp add: bank_moves.none)

lemma outsider_nil: "sdk_laws K \<Longrightarrow> outsider K []"
  using sdk_lawsD(8) [of K LockedEnergyPoolName] sdk_lawsD(8) [of K ExchangePoolName]
  by (auto simp: outsider_def ExchangePoolAddress_def)

lemma tok_end_chain:
  assumes laws: "sdk_laws K" "core_law K Core" and safe: "chain_safe K c R"
  shows "chain_safe K (tok_EndBlocker K (app_hook K) (DispatchTierRelease Core) c) R"
proof (cases "block_time c \<le> 0")
  case False
  let ?params = "tok_GetParams c" and ?D = "DispatchTierRelease Core" and ?st = "GetReleaseState c"
  define today where "today = quoT (block_time c) (if DaySeconds ?params \<le> 0 then DefaultDaySeconds else DaySeconds ?params)"
  define c1 where "c1 = (case RefillMigrationPool K (app_hook K) c of Inl _ \<Rightarrow> c | Inr c \<Rightarrow> c)"
  obtain st2 c2 where s: "settle_day K ?D ?params today ?st c1 = (st2, c2)" by fastforce
  have eq: "tok_EndBlocker K (app_hook K) ?D c =
      SetReleaseState (take_sample K ?params (block_time c) (st2\<lparr>CurrentSampleDay := today\<rparr>) c2) c2"
    using False s by (simp add: tok_EndBlocker_def Let_def today_def c1_def)
  have c1: "chain_safe K c1 R" "GetReleaseState c1 = ?st"
    using refill_chain(1,2) [OF laws(1) safe] safe by (auto simp: c1_def split: sum.splits)
  have "uint (MinerReleaseShareBps ?params) \<le> 10000"
    using safe by (simp add: chain_safe_def link_ok_def word_le_def)
  note g = settle_day_grows [OF sdk_lawsD(1) [OF laws(1)] this s]
  have "c2 = c1 \<or> bank_moves K {[]} c1 c2" using g(3) dispatch_moves [OF laws(2)] by blast
  then have c2: "chain_safe K c2 R" "st_tokenomics c2 = st_tokenomics c1"
    using c1(1) chain_moves [OF laws(1) c1(1), of "{[]}" c2] outsider_nil [OF laws(1)] by (auto simp: mild_def)
  then have "link_ok c2" "GetReleaseState c2 = ?st" using c1(2) by (simp_all add: chain_safe_def GetReleaseState_def)
  then have "link_ok (upd_tok (\<lambda>s. s\<lparr>t_release := Some (take_sample K ?params (block_time c) (st2\<lparr>CurrentSampleDay := today\<rparr>) c2)\<rparr>) c2)"
    using g(1,2) unfolding link_ok_def
    by (simp add: upd_tok_def peg_def br_GetParams_def GetReceiptState_def GetGlobalState_def GetProjectClaimable_def
        tok_GetParams_def) (simp add: GetReleaseState_def)
  then show ?thesis unfolding eq SetReleaseState_def by (rule tok_write [OF c2(1)])
qed (use safe in \<open>simp add: tok_EndBlocker_def\<close>)

lemma claim_migration_chain:
  assumes laws: "sdk_laws K" and safe: "chain_safe K c R" and b: "ClaimMigrationTokens K (app_hook K) sha c msg = Inr c'"
  shows "chain_safe K c' R"
proof -
  obtain r cs c1 where m: "send_from_module K (app_hook K) c MigrationPoolName r cs = Inr c1"
    "c' = SetMigrationClaimed (mc_Claimer msg) c1"
    using b by (auto simp: ClaimMigrationTokens_def Let_def split: if_splits option.splits)
  have "outsider K (module_address K MigrationPoolName)" by (rule outsider_module [OF laws]) simp_all
  note c1 = chain_send [OF laws safe this send_from_module_InrD [OF sdk_lawsD(1) [OF laws] m(1)]]
  have "link_ok c1" using c1(1) by (simp add: chain_safe_def)
  then show ?thesis unfolding m(2) SetMigrationClaimed_def by (intro tok_write [OF c1(1)]) (simp add: link_simps)
qed

lemma tok_params_chain:
  assumes safe: "chain_safe K c R" and b: "tok_UpdateParams K authority c signer p = Inr c'"
    and share: "MinerReleaseShareBps p \<le> 10000"
  shows "chain_safe K c' R"
proof -
  have c': "c' = upd_tok (\<lambda>s. s\<lparr>t_params := Some p\<rparr>) c"
    using b by (auto simp: tok_UpdateParams_def tok_SetParams_def split: if_splits)
  have "link_ok c" using safe by (simp add: chain_safe_def)
  then show ?thesis unfolding c' using share by (intro tok_write [OF safe]) (simp add: link_simps)
qed

section \<open>The operations of the bridge adapter\<close>

lemma bridge_send_chain:
  assumes "sdk_laws K" "chain_safe K c R" "send_coins K (app_hook K) c f t cs = Inr c1" "outsider K f"
    "link_ok (upd_bridge g c1)"
  shows "chain_safe K (upd_bridge g c1) R"
  using bridge_write [OF chain_send(1) [OF assms(1,2,4,3)] assms(5)] .

lemma bridge_out_InrE:
  assumes "ExecuteBridgeOut K H Core c sender r n fee = Inr (i, e, c')"
  obtains c1 c2 body where "0 < n" "BridgeEnabled (br_GetParams c)" "AtosToErc20 n (AtosPerErc20 (br_GetParams c)) = Inr e"
    "CheckOutbound (Limits K c) n (rl_Used (GetRateLimitState c)) (rl_UsedLarge (GetRateLimitState c))
       (GetAddressUsage c (acc_string (codec K) sender)) = Inr ()"
    "send_to_module K H c sender MigrationPoolName [(base_denom K, n)] = Inr c1"
    "length (AssetAppId (GetReceiptState c1)) = HexAddressLen" "BuildAssetPayload r e = Inr body"
    "DispatchMessage Core c1 (MailboxId (br_GetParams c)) (AssetAppId (GetReceiptState c1)) fee
       (EthereumDomain (br_GetParams c)) (RemoteBridgeVault (br_GetParams c)) body sender = (Inr i, c2)"
    "c' = SetReceiptState ((GetReceiptState c1)\<lparr>TotalBridgedOut := TotalBridgedOut (GetReceiptState c1) + n\<rparr>)
       (setAddressUsage (acc_string (codec K) sender) (GetAddressUsage c (acc_string (codec K) sender) + n)
       (setRateLimitState ((GetRateLimitState c)\<lparr>rl_Used := rl_Used (GetRateLimitState c) + n,
          rl_UsedLarge := rl_UsedLarge (GetRateLimitState c) + (if IsSmall (Limits K c) n then 0 else n)\<rparr>) c2))"
proof -
  obtain e1 where e1: "AtosToErc20 n (AtosPerErc20 (br_GetParams c)) = Inr e1"
    using assms by (auto simp: ExecuteBridgeOut_def Let_def split: if_splits)
  then have n: "0 < n" by (auto simp: AtosToErc20_def split: if_splits)
  have small: "rl\<lparr>rl_Used := a\<rparr> = rl\<lparr>rl_Used := a, rl_UsedLarge := rl_UsedLarge rl\<rparr>" for rl :: rate_limit_state and a by simp
  show ?thesis
    using assms n e1 that unfolding ExecuteBridgeOut_def Let_def
    by (cases "IsSmall (Limits K c) n") (auto simp: new_coins_def split: if_splits prod.splits sum.splits)
qed

lemma bridge_out_chain:
  assumes laws: "sdk_laws K" "core_law K Core" and safe: "chain_safe K c R"
    and b: "ExecuteBridgeOut K (app_hook K) Core c sender r n fee = Inr (i, e, c')" and s: "outsider K sender"
  shows "chain_safe K c' R"
proof -
  obtain c1 c2 m a dom v body rl used n' where o: "send_to_module K (app_hook K) c sender MigrationPoolName [(base_denom K, n)] = Inr c1"
    "DispatchMessage Core c1 m a fee dom v body sender = (Inr i, c2)"
    and c': "c' = SetReceiptState ((GetReceiptState c1)\<lparr>TotalBridgedOut := n'\<rparr>)
        (setAddressUsage (acc_string (codec K) sender) used (setRateLimitState rl c2))"
    using bridge_out_InrE [OF b] by metis
  note c1 = chain_send [OF laws(1) safe s send_to_module_InrD [OF sdk_lawsD(1) [OF laws(1)] o(1)]]
  have "bank_moves K {sender} c1 c2" using laws(2) o(2) by (simp add: core_law_def)
  note c2 = chain_moves [OF laws(1) c1(1) _ this]
  have c2': "chain_safe K c2 R" "st_bridge c2 = st_bridge c1" using c2 s by (auto simp: mild_def)
  have "link_ok c2" using c2'(1) by (simp add: chain_safe_def)
  have e: "c' = upd_bridge (\<lambda>_. st_bridge c') c2"
    by (simp add: c' SetReceiptState_def setAddressUsage_def setRateLimitState_def upd_bridge_def)
  have "GetReceiptState c1 = GetReceiptState c2" by (simp add: GetReceiptState_def c2'(2))
  then have "link_ok c'" using \<open>link_ok c2\<close>
    by (simp add: c' SetReceiptState_def setAddressUsage_def setRateLimitState_def link_simps split: option.splits)
  then show ?thesis using bridge_write [OF c2'(1), of "\<lambda>_. st_bridge c'"] e by simp
qed

lemma asset_in_chain:
  assumes laws: "sdk_laws K" and safe: "chain_safe K c R" and b: "handleAssetTransfer K (app_hook K) c msg = Inr c'"
  shows "chain_safe K c' R"
proof -
  obtain r cs c1 n a used rl where o: "send_from_module K (app_hook K) c MigrationPoolName r cs = Inr c1"
    "c' = setRateLimitState rl (setInboundAddressUsage a used (SetReceiptState ((GetReceiptState c1)\<lparr>TotalBridgedIn := n\<rparr>) c1))"
    using b by (auto simp: handleAssetTransfer_def Let_def split: if_splits prod.splits)
  have "outsider K (module_address K MigrationPoolName)" by (rule outsider_module [OF laws]) simp_all
  note c1 = chain_send [OF laws safe this send_from_module_InrD [OF sdk_lawsD(1) [OF laws] o(1)]]
  have "link_ok c1" using c1(1) by (simp add: chain_safe_def)
  then have "link_ok c'"
    by (simp add: o(2) SetReceiptState_def setInboundAddressUsage_def setRateLimitState_def link_simps split: option.splits)
  moreover have "c' = upd_bridge (\<lambda>_. st_bridge c') c1"
    by (simp add: o(2) SetReceiptState_def setInboundAddressUsage_def setRateLimitState_def upd_bridge_def)
  ultimately show ?thesis using bridge_write [OF c1(1), of "\<lambda>_. st_bridge c'"] by simp
qed

lemma Erc20ToAtos_value:
  assumes "Erc20ToAtos n p = Inr v" "0 \<le> n" "p \<noteq> 0"
  shows "v = n * i64_of_u64 p"
  using assms by (auto simp: Erc20ToAtos_def split: if_splits)

lemma toErc20_bound:
  assumes "toErc20 n p = Inr v" "0 < i64_of_u64 p" "t \<le> v" "0 \<le> t" "0 \<le> n"
  shows "t * i64_of_u64 p \<le> n"
proof (cases "0 < n")
  case True
  then have v: "v = n div i64_of_u64 p" using assms(1,2) by (auto simp: toErc20_def)
  have "t * i64_of_u64 p \<le> (n div i64_of_u64 p) * i64_of_u64 p" using assms v by (intro mult_right_mono) simp_all
  also have "\<dots> \<le> n" using assms(2) by (rule div_mult_le_int)
  finally show ?thesis .
qed (use assms in \<open>auto simp: toErc20_def\<close>)

text \<open>Releases into the pool from the miner pool, with the ledger they leave.\<close>

lemma release_chain:
  assumes laws: "sdk_laws K" and safe: "books_safe K c R" and m: "m \<noteq> ExchangePoolName" "m \<noteq> LockedEnergyPoolName"
    and b: "AddToExchangePool K (app_hook K) c m n = Inr c'"
  shows "books_safe K c' R" "st_tokenomics c' = st_tokenomics c" "st_bridge c' = st_bridge c"
    "TotalReleasedToPool (GetGlobalState c') = TotalReleasedToPool (GetGlobalState c) + n"
proof -
  have at: "atox_safe K c" using safe by (simp add: books_safe_def)
  obtain gs cs c1 where s: "send_between_modules K (app_hook K) c m ExchangePoolName cs = Inr c1" "c' = SetGlobalState gs c1"
    "TotalReleasedToPool gs = TotalReleasedToPool (GetGlobalState c) + n"
    using b by (auto simp: AddToExchangePool_def Let_def split: if_splits)
  have mm: "mild K c c1"
    by (rule send_mild [OF laws send_between_modules_InrD [OF sdk_lawsD(1) [OF laws] s(1)]]) (simp add: laws m)
  then show "st_tokenomics c' = st_tokenomics c" "st_bridge c' = st_bridge c"
    by (simp_all add: s(2) mild_def SetGlobalState_def upd_atox_def)
  show "TotalReleasedToPool (GetGlobalState c') = TotalReleasedToPool (GetGlobalState c) + n" by (simp add: s(2,3))
  have "energy_safe K c1 R" using energy_safe_mild [OF _ mm] safe by (simp add: books_safe_def)
  then have "energy_safe K c' R"
    by (simp add: s(2) SetGlobalState_def upd_atox_def energy_safe_def energy_inv_def pool_balance_def)
  moreover have "atox_safe K c'" using release_refines [OF laws at b m(1)] by blast
  ultimately show "books_safe K c' R" by (simp add: books_safe_def)
qed

definition receipt_after :: "'x core \<Rightarrow> hyperlane_message \<Rightarrow> int \<Rightarrow> int \<Rightarrow> receipt_state \<Rightarrow> receipt_state" where
  "receipt_after Core msg tb tp st = st\<lparr>AppliedToBridge := tb, AppliedToProject := tp, LastMessageId := message_id Core msg\<rparr>"

lemma receipt_InrE:
  assumes "applyReceipt K H Core c msg = Inr c'"
  obtains tb tp where "ParseReceipt (hm_Body msg) = Inr (tb, tp)" "br_Enabled (br_GetParams c)"
    "hm_Origin msg = EthereumDomain (br_GetParams c)" "VaultMatches (br_GetParams c) (hm_Sender msg)"
    "tb = AppliedToBridge (GetReceiptState c)" "tp = AppliedToProject (GetReceiptState c)"
    "c' = SetReceiptState (receipt_after Core msg tb tp (GetReceiptState c)) c"
  | tb tp ap pp c1 where "ParseReceipt (hm_Body msg) = Inr (tb, tp)" "br_Enabled (br_GetParams c)"
    "hm_Origin msg = EthereumDomain (br_GetParams c)" "VaultMatches (br_GetParams c) (hm_Sender msg)"
    "AppliedToBridge (GetReceiptState c) \<le> tb" "AppliedToProject (GetReceiptState c) \<le> tp"
    "Erc20ToAtos (tb - AppliedToBridge (GetReceiptState c)) (AtosPerErc20 (br_GetParams c)) = Inr ap"
    "Erc20ToAtos (tp - AppliedToProject (GetReceiptState c)) (AtosPerErc20 (br_GetParams c)) = Inr pp"
    "assertWithinAuthorized c tb tp (AtosPerErc20 (br_GetParams c)) = Inr ()"
    "(if ap > 0 then AddToExchangePool K H c MinerPoolName ap else Inr c) = Inr c1"
    "c' = SetReceiptState (receipt_after Core msg tb tp (GetReceiptState c))
       (if pp > 0 then SetProjectClaimable (GetProjectClaimable c1 + pp) c1 else c1)"
proof -
  let ?st = "GetReceiptState c" and ?p = "AtosPerErc20 (br_GetParams c)"
  obtain tb tp where parse: "ParseReceipt (hm_Body msg) = Inr (tb, tp)"
    and g: "br_Enabled (br_GetParams c)" "hm_Origin msg = EthereumDomain (br_GetParams c)"
      "VaultMatches (br_GetParams c) (hm_Sender msg)"
    using assms unfolding applyReceipt_def Let_def by (auto split: if_splits)
  have le: "AppliedToBridge ?st \<le> tb" "AppliedToProject ?st \<le> tp"
    using assms g unfolding applyReceipt_def Let_def parse bindR_simps prod.case
    by (simp_all only: not_True_eq_False not_False_eq_True if_False simp_thms split: if_splits) auto
  show ?thesis
  proof (cases "tb = AppliedToBridge ?st \<and> tp = AppliedToProject ?st")
    case True
    then have "c' = SetReceiptState (?st\<lparr>LastMessageId := message_id Core msg\<rparr>) c"
      using assms g by (simp add: applyReceipt_def Let_def parse)
    moreover have "?st\<lparr>LastMessageId := message_id Core msg\<rparr> = receipt_after Core msg tb tp ?st" using True by (simp add: receipt_after_def)
    ultimately show ?thesis using that(1) [OF parse g] True by simp
  next
    case False
    then have "bindR (Erc20ToAtos (tb - AppliedToBridge ?st) ?p) (\<lambda>ap. bindR (Erc20ToAtos (tp - AppliedToProject ?st) ?p) (\<lambda>pp.
        bindR (assertWithinAuthorized c tb tp ?p) (\<lambda>_. bindR (if ap > 0 then AddToExchangePool K H c MinerPoolName ap else Inr c) (\<lambda>c1.
        Inr (SetReceiptState (receipt_after Core msg tb tp ?st)
          (if pp > 0 then SetProjectClaimable (GetProjectClaimable c1 + pp) c1 else c1)))))) = Inr c'"
      using assms g le by (auto simp: applyReceipt_def Let_def parse receipt_after_def)
    then show ?thesis using that(2) [OF parse g le] by (elim bindR_InrE) auto
  qed
qed

lemma receipt_chain:
  assumes laws: "sdk_laws K" and safe: "chain_safe K c R" and b: "applyReceipt K (app_hook K) Core c msg = Inr c'"
  shows "chain_safe K c' R"
proof -
  let ?st = "GetReceiptState c" and ?p = "AtosPerErc20 (br_GetParams c)"
  have l: "link_ok c" using safe by (simp add: chain_safe_def)
  show ?thesis
    using b
  proof (rule receipt_InrE)
    fix tb tp
    assume t: "tb = AppliedToBridge ?st" "tp = AppliedToProject ?st" "c' = SetReceiptState (receipt_after Core msg tb tp ?st) c"
    have "link_ok c'" using l by (simp add: t SetReceiptState_def receipt_after_def link_simps split: option.splits)
    then show ?thesis unfolding t(3) SetReceiptState_def by (rule bridge_write [OF safe])
  next
    fix tb tp ap pp c1
    assume parse: "AppliedToBridge ?st \<le> tb" "AppliedToProject ?st \<le> tp"
      and e: "Erc20ToAtos (tb - AppliedToBridge ?st) ?p = Inr ap" "Erc20ToAtos (tp - AppliedToProject ?st) ?p = Inr pp"
      "assertWithinAuthorized c tb tp ?p = Inr ()"
      "(if ap > 0 then AddToExchangePool K (app_hook K) c MinerPoolName ap else Inr c) = Inr c1"
      "c' = SetReceiptState (receipt_after Core msg tb tp ?st)
               (if pp > 0 then SetProjectClaimable (GetProjectClaimable c1 + pp) c1 else c1)"
    have p: "0 < peg c" "?p \<noteq> 0" "0 \<le> AppliedToBridge ?st" "0 \<le> AppliedToProject ?st" using l by (simp_all add: link_ok_def)
    have v: "ap = (tb - AppliedToBridge ?st) * peg c" "pp = (tp - AppliedToProject ?st) * peg c"
      using Erc20ToAtos_value [OF e(1)] Erc20ToAtos_value [OF e(2)] parse p(2) by (simp_all add: peg_def)
    then have nn: "0 \<le> ap" "0 \<le> pp" using parse p(1) by simp_all
    obtain mb mp where mx: "toErc20 (TotalMinerReleased (GetReleaseState c)) ?p = Inr mb"
      "toErc20 (TotalProjectReleased (GetReleaseState c)) ?p = Inr mp" "tb \<le> mb" "tp \<le> mp"
      using e(3) by (auto simp: assertWithinAuthorized_def AuthorizedReleases_def Let_def split: if_splits)
    have "0 \<le> AppliedToBridge ?st * peg c" "0 \<le> AppliedToProject ?st * peg c" using p by simp_all
    then have rel: "0 \<le> TotalMinerReleased (GetReleaseState c)" "0 \<le> TotalProjectReleased (GetReleaseState c)"
      using l unfolding link_ok_def by linarith+
    have auth: "tb * peg c \<le> TotalMinerReleased (GetReleaseState c)" "tp * peg c \<le> TotalProjectReleased (GetReleaseState c)"
      using toErc20_bound [OF mx(1) _ mx(3) _ rel(1)] toErc20_bound [OF mx(2) _ mx(4) _ rel(2)] p parse
      by (simp_all add: peg_def)
    have mn: "MinerPoolName \<noteq> ExchangePoolName" "MinerPoolName \<noteq> LockedEnergyPoolName" by simp_all
    have bs: "books_safe K c R" using safe by (simp add: chain_safe_def)
    have c1: "books_safe K c1 R" "st_tokenomics c1 = st_tokenomics c" "st_bridge c1 = st_bridge c"
      "TotalReleasedToPool (GetGlobalState c1) = TotalReleasedToPool (GetGlobalState c) + ap"
      using e(4) release_chain [OF laws bs mn] bs nn(1) by (auto split: if_splits)
    let ?c2 = "if pp > 0 then SetProjectClaimable (GetProjectClaimable c1 + pp) c1 else c1"
    have get: "GetReleaseState c' = GetReleaseState c" "tok_GetParams c' = tok_GetParams c" "br_GetParams c' = br_GetParams c"
      "GetReceiptState c' = receipt_after Core msg tb tp ?st"
      "GetGlobalState c' = GetGlobalState c1" "GetProjectClaimable c' = GetProjectClaimable c + pp"
      using nn(2) by (simp_all add: e(5) c1(2,3) SetReceiptState_def SetProjectClaimable_def upd_bridge_def upd_tok_def
          GetReleaseState_def tok_GetParams_def br_GetParams_def GetReceiptState_def GetGlobalState_def GetProjectClaimable_def)
    have "link_ok c'"
      using l p parse auth v nn unfolding link_ok_def peg_def get c1(4) by (simp add: receipt_after_def algebra_simps)
    moreover have "c' = (upd_bridge (\<lambda>_. st_bridge c') (upd_tok (\<lambda>_. st_tokenomics c') c1))"
      by (simp add: e(5) SetReceiptState_def SetProjectClaimable_def upd_bridge_def upd_tok_def)
    moreover have "books_safe K (upd_bridge f (upd_tok g c1)) R" for f g
      using c1(1) same_book(1) [of "upd_bridge f (upd_tok g c1)" c1 K] same_book(2) [of "upd_bridge f (upd_tok g c1)" c1]
      by (simp add: books_safe_def atox_safe_def energy_safe_def energy_inv_def pool_balance_def upd_bridge_def upd_tok_def
          AtoxSupplyCap_def atox_GetParams_def)
    ultimately show ?thesis unfolding chain_safe_def by metis
  qed
qed

lemma handle_chain:
  assumes "sdk_laws K" "chain_safe K c R" "bridge_Handle K (app_hook K) Core c mb msg = Inr c'"
  shows "chain_safe K c' R"
  using assms(3) asset_in_chain [OF assms(1,2)] receipt_chain [OF assms(1,2)]
  by (auto simp: bridge_Handle_def Let_def split: if_splits)

lemma bridge_params_chain:
  assumes "chain_safe K c R" "br_UpdateParams K authority c signer p = Inr c'"
  shows "chain_safe K c' R"
proof -
  have c': "c' = upd_bridge (\<lambda>s. s\<lparr>b_params := Some p\<rparr>) c" "AtosPerErc20 p = AtosPerErc20 (br_GetParams c)"
    using assms(2) by (auto simp: br_UpdateParams_def br_SetParams_def setParamsUnchecked_def Let_def split: if_splits)
  have "link_ok c" using assms(1) by (simp add: chain_safe_def)
  then have "link_ok c'" using c'(2) by (simp add: c'(1) link_simps)
  then show ?thesis unfolding c'(1) by (rule bridge_write [OF assms(1)])
qed

lemma halt_chain:
  assumes "chain_safe K c R" "EmergencyHalt c guardian = Inr c'"
  shows "chain_safe K c' R"
proof -
  have c': "c' = upd_bridge (\<lambda>s. s\<lparr>b_params := Some ((br_GetParams c)\<lparr>br_Enabled := False, BridgeEnabled := False\<rparr>)\<rparr>) c"
    using assms(2) by (auto simp: EmergencyHalt_def setParamsUnchecked_def Let_def split: if_splits)
  have "link_ok c" using assms(1) by (simp add: chain_safe_def)
  then have "link_ok c'" by (simp add: c' link_simps)
  then show ?thesis unfolding c' by (rule bridge_write [OF assms(1)])
qed

end
