(* ===== verification/ChainReach.thy ===== *)
theory ChainReach
  imports ChainOps
begin

text \<open>
  The reachable states of the whole application.  \<open>chain_reach\<close> starts from the genesis of the four
  modules, in the order of \<^verbatim>\<open>app.go\<close>, and takes every message, decorator and block hook of the modelled
  modules as a step; \<open>chain_reach_safe\<close> is the invariant of all of them together.
\<close>

section \<open>Messages of the ATOX module and of the bank wrapper\<close>

lemma chain_atox:
  assumes "chain_safe K c R" "mild K c c'" "atox_safe K c \<Longrightarrow> atox_safe K c'"
  shows "chain_safe K c' R"
  using chain_mild [OF assms(1,2)] assms(1,3) by (simp add: chain_safe_def books_safe_def)

lemma charge_chain:
  assumes "sdk_laws K" "chain_safe K c R" "outsider K f" "ChargeInclusiveFee K (app_hook K) c f t amt = Inr c'"
  shows "chain_safe K c' R"
  using chain_atox [OF assms(2) charge_mild [OF assms(1) _ assms(4)]] ChargeInclusiveFee_safe [OF assms(1) _ _ assms(4)] assms(3)
  by (simp add: outsider_def)

lemma multi_send_chain:
  assumes "sdk_laws K" "outsider K f"
  shows "chain_safe K c R \<Longrightarrow> multi_send_loop K (app_hook K) f outs c = Inr c' \<Longrightarrow> chain_safe K c' R"
proof (induction outs arbitrary: c)
  case (Cons out outs)
  then obtain to c1 where s: "ChargeInclusiveFee K (app_hook K) c f to (snd out) = Inr c1"
    "multi_send_loop K (app_hook K) f outs c1 = Inr c'"
    by (cases out) (auto split: option.splits if_splits)
  show ?case by (rule Cons.IH [OF charge_chain [OF assms(1) Cons.prems(1) assms(2) s(1)] s(2)])
qed simp

lemma bank_send_chain:
  assumes "sdk_laws K" "chain_safe K c R" "MsgServer_Send K (app_hook K) c msg = Inr c'"
    "acc_from_bech32 (codec K) (ms_FromAddress msg) = Some f" "outsider K f"
  shows "chain_safe K c' R"
  using assms(3,4) charge_chain [OF assms(1,2,5)] by (auto simp: MsgServer_Send_def split: option.splits if_splits)

lemma bank_multi_send_chain:
  assumes "sdk_laws K" "chain_safe K c R" "MsgServer_MultiSend K (app_hook K) c ins outs = Inr c'"
    "\<And>f. acc_from_bech32 (codec K) (fst (hd ins)) = Some f \<Longrightarrow> outsider K f"
  shows "chain_safe K c' R"
  using assms(3,4) multi_send_chain [OF assms(1) _ assms(2)]
  by (auto simp: MsgServer_MultiSend_def split: list.splits option.splits if_splits)

lemma payout_chain:
  assumes "sdk_laws K" "chain_safe K c R"
  shows "chain_safe K (snd (PayoutPending K (app_hook K) c a mn)) R"
  using chain_atox [OF assms(2) payout_mild [OF assms(1)] payout_safe [OF assms(1)]] .

lemma claim_chain:
  assumes "sdk_laws K" "chain_safe K c R" "ClaimAtos K (app_hook K) c who = Inr (n, c')"
  shows "chain_safe K c' R"
proof -
  obtain a where "PayoutPending K (app_hook K) c a 0 = (Inr n, c')"
    using assms(3) by (auto simp: ClaimAtos_def split: if_splits option.splits sum.splits prod.splits)
  then show ?thesis using payout_chain [OF assms(1,2), of a 0] by simp
qed

lemma atox_params_chain:
  assumes "chain_safe K c R" "atox_UpdateParams authority c signer p = Inr c'"
  shows "chain_safe K c' R"
proof -
  have c': "c' = upd_atox (\<lambda>s. s\<lparr>x_params := Some p\<rparr>) c" "SupplyCap p = SupplyCap (atox_GetParams c)"
    using assms(2) by (auto simp: atox_UpdateParams_def atox_SetParams_def split: if_splits)
  have m: "mild K c c'" by (simp add: c'(1) mild_def upd_atox_def pool_balance_def GetGlobalState_def)
  have "book_of K c' = book_of K c" "atox_records c' = atox_records c" by (rule same_book; simp add: c'(1) upd_atox_def)+
  then have "atox_safe K c \<Longrightarrow> atox_safe K c'"
    using c'(2) by (simp add: atox_safe_def) (simp add: c'(1) upd_atox_def AtoxSupplyCap_def atox_GetParams_def)
  then show ?thesis by (rule chain_atox [OF assms(1) m])
qed

text \<open>
  Whatever the rest of the chain does: the four stores are only written by their keepers, ATOX moves
  only through the bank's send path, and the two pools are not debited.
\<close>

definition environment :: "'x sdk \<Rightarrow> 'x ctx \<Rightarrow> 'x ctx \<Rightarrow> bool" where
  "environment K c c' \<longleftrightarrow> st_energy c' = st_energy c \<and> st_atox c' = st_atox c \<and> st_tokenomics c' = st_tokenomics c \<and>
     st_bridge c' = st_bridge c \<and> fee_in_progress c' = fee_in_progress c \<and> AtoxBalance K c' = AtoxBalance K c \<and>
     AtoxSupply K c' = AtoxSupply K c \<and> (\<forall>a. isModuleAccount K c a \<longrightarrow> isModuleAccount K c' a) \<and>
     ExchangePoolBalance K c \<le> ExchangePoolBalance K c' \<and> pool_balance K c \<le> pool_balance K c'"

lemma environment_chain:
  assumes "chain_safe K c R" "environment K c c'"
  shows "chain_safe K c' R"
proof -
  have e: "st_atox c' = st_atox c" "fee_in_progress c' = fee_in_progress c" using assms(2) by (simp_all add: environment_def)
  have m: "mild K c c'" using assms(2) by (simp add: environment_def mild_def GetGlobalState_def)
  have "book_of K c' = (book_of K c)\<lparr>bk_state := (bk_state (book_of K c))\<lparr>TotalFeeBurned := TotalFeeBurned (bk_state (book_of K c))\<rparr>,
      bk_pool := ExchangePoolBalance K c', bk_module := isModuleAccount K c'\<rparr>"
    using assms(2) by (simp add: environment_def book_of_def GetGlobalState_def GetAtoxAccount_def getAtoxAccount_def fun_eq_iff)
  moreover have "book_sound C (book_of K c) \<Longrightarrow> book_sound C \<dots>" for C
    by (rule book_sound_outside) (use assms(2) in \<open>simp_all add: environment_def\<close>)
  ultimately have "book_sound C (book_of K c) \<Longrightarrow> book_sound C (book_of K c')" for C by simp
  then have "atox_safe K c \<Longrightarrow> atox_safe K c'"
    by (simp add: atox_safe_def atox_records_def e AtoxSupplyCap_def atox_GetParams_def)
  then show ?thesis by (rule chain_atox [OF assms(1) m])
qed

section \<open>Genesis\<close>

definition fresh :: "'x sdk \<Rightarrow> 'x ctx \<Rightarrow> bool" where
  "fresh K c \<longleftrightarrow> st_energy c = empty_energy \<and> x_params (st_atox c) = None \<and> x_global (st_atox c) = None \<and>
     x_accounts (st_atox c) = [] \<and> \<not> fee_in_progress c \<and> AtoxBalance K c = (\<lambda>_. 0) \<and> AtoxSupply K c = 0"

lemma zero_book_sound:
  assumes "0 < C" "0 \<le> p" "bk_state s = DefaultGlobalState" "bk_index s = (\<lambda>_. 0)" "bk_pending s = (\<lambda>_. 0)"
    "bk_balance s = (\<lambda>_. 0)" "bk_supply s = 0" "bk_pool s = p"
  shows "book_sound C s"
proof -
  have "accrued s a = 0" for a using assms by (simp add: accrued_def)
  then show ?thesis using assms
    by (simp add: book_sound_def ledger_sound_def accounts_sound_def share_sound_def reached_def DefaultGlobalState_def)
qed

definition no_atox :: "'x sdk \<Rightarrow> 'x ctx \<Rightarrow> bool" where
  "no_atox K c \<longleftrightarrow> atox_safe K c \<and> AtoxBalance K c = (\<lambda>_. 0) \<and> AtoxSupply K c = 0 \<and> GetGlobalState c = DefaultGlobalState \<and>
     (\<lambda>a. Index (GetAtoxAccount K c a)) = (\<lambda>_. 0) \<and> (\<lambda>a. Pending (GetAtoxAccount K c a)) = (\<lambda>_. 0)"

lemma fresh_books:
  assumes "sdk_laws K" "fresh K c"
  shows "energy_safe K c {}" "no_atox K c"
proof -
  have p: "0 \<le> pool_balance K c" "0 \<le> ExchangePoolBalance K c"
    using bank_balance_nonneg [OF sdk_lawsD(1) [OF assms(1)]] by (simp_all add: pool_balance_def ExchangePoolBalance_def)
  show "energy_safe K c {}" using p(1) assms(2)
    by (simp add: fresh_def empty_energy_def energy_safe_def energy_inv_def accounts_ok_def recs_ok_def index_ok_def backed_def markers_in_def
        issued_ok_def in_usable_def lent_out_def locked_of_def counters_def in_sum_def out_sum_def lock_sum_def
        lock_total_def kv.total_def kv_get_def)
  have g: "GetGlobalState c = DefaultGlobalState" "Index (GetAtoxAccount K c a) = 0" "Pending (GetAtoxAccount K c a) = 0"
    "atox_records c" "AtoxSupplyCap c = 10 ^ 30" for a
    using assms(2) by (simp_all add: fresh_def GetGlobalState_def GetAtoxAccount_def getAtoxAccount_def NewAtoxAccount_def
        atox_records_def AtoxSupplyCap_def atox_GetParams_def atox_DefaultParams_def kv_get_def)
  have "book_sound (AtoxSupplyCap c) (book_of K c)"
    by (rule zero_book_sound [OF _ p(2)]) (use assms(2) g in \<open>simp_all add: fresh_def fun_eq_iff\<close>)
  then show "no_atox K c" using assms(2) g by (simp add: no_atox_def fresh_def atox_safe_def)
qed

lemma mint_base_books:
  assumes laws: "sdk_laws K" and no: "no_atox K c" and es: "energy_safe K c R"
    and m: "mintToModule K (app_hook K) m n c = Inr c'"
  shows "no_atox K c'" "energy_safe K c' R" "mild K c c'"
proof -
  have "no_atox K c' \<and> mild K c c'"
  proof (cases "c' = c")
    case False
    note bl = sdk_lawsD(1) [OF laws] and ne = sdk_lawsD(7) [OF laws]
    let ?cs = "[(base_denom K, n)]"
    obtain c1 where s: "0 < n" "mint_coins K c TokenomicsModuleName ?cs = Inr c1"
      "send_between_modules K (app_hook K) c1 TokenomicsModuleName m ?cs = Inr c'"
      using m False by (auto simp: mintToModule_def new_coins_def split: if_splits sum.splits)
    obtain y where y: "c1 = c\<lparr>ext := y\<rparr>" "same_rest K (ext c) y"
      "\<And>d. bank_supply K y d = bank_supply K (ext c) d + AmountOf ?cs d"
      "\<And>b d. bank_balance K y b d = bank_balance K (ext c) b d + (if b = module_address K TokenomicsModuleName then AmountOf ?cs d else 0)"
      using mint_coins_InrE [OF bl s(2)] by metis
    have bk: "book_of K c1 = (book_of K c)\<lparr>bk_pool := ExchangePoolBalance K c1\<rparr>"
      unfolding y(1) book_of_quiet(1) [OF quiet_ext [OF y(2)]] using ne
      by (simp add: AtoxBalance_def AtoxSupply_def y(3,4) fun_eq_iff book_of_def)
    have at: "atox_safe K c" using no by (simp add: no_atox_def)
    have "ExchangePoolBalance K c \<le> ExchangePoolBalance K c1" using s(1) by (simp add: ExchangePoolBalance_def y(1,4))
    then have "book_sound (AtoxSupplyCap c) (book_of K c1)" unfolding bk by (intro sound_pool atox_safeD(3) [OF at]) simp
    then have at1: "atox_safe K c1" unfolding y(1) by (rule ext_safe [OF at y(2)])
    note send = send_between_modules_InrD [OF bl s(3)]
    note b = base_send_book [OF laws at1 send]
    have bk': "book_of K c' = (book_of K c)\<lparr>bk_pool := ExchangePoolBalance K c'\<rparr>" unfolding b(1) bk by simp
    have at': "atox_safe K c'" using send_safe [OF laws at1 send] by (simp add: laws)
    have eqs: "GetGlobalState c' = GetGlobalState c" "AtoxBalance K c' = AtoxBalance K c" "AtoxSupply K c' = AtoxSupply K c"
      "bk_index (book_of K c') = bk_index (book_of K c)" "bk_pending (book_of K c') = bk_pending (book_of K c)"
      using arg_cong [OF bk', of bk_state] arg_cong [OF bk', of bk_balance] arg_cong [OF bk', of bk_supply]
        arg_cong [OF bk', of bk_index] arg_cong [OF bk', of bk_pending] by simp_all
    then have "no_atox K c'" using no at' by (simp add: no_atox_def book_of_def)
    moreover have "mild K c c'"
      by (rule mild_trans [OF mint_mild [OF laws s(2)] send_mild [OF laws send]]) (simp add: laws)
    ultimately show ?thesis by simp
  qed (use no in simp)
  then show "no_atox K c'" "mild K c c'" "energy_safe K c' R" using energy_safe_mild [OF es] by simp_all
qed

lemma no_atox_cong:
  assumes "no_atox K c" "st_atox c' = st_atox c" "ext c' = ext c" "fee_in_progress c' = fee_in_progress c"
  shows "no_atox K c'"
proof -
  have "book_of K c' = book_of K c" "atox_records c' = atox_records c" by (rule same_book; simp add: assms)+
  then show ?thesis using assms
    by (simp add: no_atox_def atox_safe_def AtoxSupplyCap_def atox_GetParams_def GetGlobalState_def GetAtoxAccount_def
        getAtoxAccount_def AtoxBalance_def AtoxSupply_def fun_eq_iff)
qed

lemma tok_genesis_books:
  assumes laws: "sdk_laws K" and f: "fresh K c" and g: "tok_InitGenesis K (app_hook K) c gs = Inr c'"
  shows "no_atox K c'" "energy_safe K c' {}" "e_delegations (st_energy c') = []"
    "GetReleaseState c' = tg_release gs" "tok_GetParams c' = tg_params gs"
    "GetProjectClaimable c' = (case tg_claimable gs of None \<Rightarrow> GetProjectClaimable c | Some n \<Rightarrow> n)"
proof -
  let ?f = "\<lambda>s. fold (\<lambda>a s. s\<lparr>t_claimed := kv_set a () (t_claimed s)\<rparr>) (tg_claimed gs)
      (s\<lparr>t_params := Some (tg_params gs), t_release := Some (tg_release gs), t_reward := Some (tg_reward gs),
         t_claimable := (case tg_claimable gs of None \<Rightarrow> t_claimable s | Some n \<Rightarrow> Some n)\<rparr>)"
  have fold: "fold SetMigrationClaimed as (upd_tok h c) = upd_tok (\<lambda>s. fold (\<lambda>a s. s\<lparr>t_claimed := kv_set a () (t_claimed s)\<rparr>) as (h s)) c" for as h
    by (induction as arbitrary: h) (simp_all add: SetMigrationClaimed_def upd_tok_def)
  have keep: "t_params (fold (\<lambda>a s. s\<lparr>t_claimed := kv_set a () (t_claimed s)\<rparr>) as s) = t_params s"
    "t_release (fold (\<lambda>a s. s\<lparr>t_claimed := kv_set a () (t_claimed s)\<rparr>) as s) = t_release s"
    "t_claimable (fold (\<lambda>a s. s\<lparr>t_claimed := kv_set a () (t_claimed s)\<rparr>) as s) = t_claimable s" for as s
    by (induction as arbitrary: s) simp_all
  define c0 where "c0 = upd_tok ?f c"
  obtain c1 c2 where m: "mintToModule K (app_hook K) MinerPoolName (MinerPoolTotal (tg_params gs)) c0 = Inr c1"
    "mintToModule K (app_hook K) ProjectPoolName (ProjectPoolTotal (tg_params gs)) c1 = Inr c2"
    "mintToModule K (app_hook K) MigrationPoolName (MigrationPoolTotal (tg_params gs)) c2 = Inr c'"
  proof -
    let ?w = "SetBlockRewardState (tg_reward gs) (SetReleaseState (tg_release gs) (upd_tok (\<lambda>s. s\<lparr>t_params := Some (tg_params gs)\<rparr>) c))"
    have "(case tg_claimable gs of None \<Rightarrow> ?w | Some n \<Rightarrow> SetProjectClaimable n ?w) = upd_tok (\<lambda>s. s\<lparr>t_params := Some (tg_params gs),
         t_release := Some (tg_release gs), t_reward := Some (tg_reward gs),
         t_claimable := (case tg_claimable gs of None \<Rightarrow> t_claimable s | Some n \<Rightarrow> Some n)\<rparr>) c"
      by (simp add: SetProjectClaimable_def SetBlockRewardState_def SetReleaseState_def upd_tok_def split: option.split)
    then show ?thesis using g that unfolding c0_def
      by (auto simp: tok_InitGenesis_def tok_SetParams_def Let_def fold split: sum.splits)
  qed
  note fb = fresh_books [OF laws f]
  have c0: "no_atox K c0" "energy_safe K c0 {}"
    by (rule no_atox_cong [OF fb(2)]; simp add: c0_def upd_tok_def)
      (use fb(1) in \<open>simp add: c0_def upd_tok_def energy_safe_def energy_inv_def pool_balance_def\<close>)
  note m1 = mint_base_books [OF laws c0 m(1)]
  note m2 = mint_base_books [OF laws m1(1,2) m(2)]
  note m3 = mint_base_books [OF laws m2(1,2) m(3)]
  show "no_atox K c'" "energy_safe K c' {}" by (fact m3)+
  have ml: "mild K c0 c'" by (rule mild_trans [OF mild_trans [OF m1(3) m2(3)] m3(3)])
  have e0: "st_energy c0 = empty_energy" using f by (simp add: fresh_def c0_def upd_tok_def)
  show "e_delegations (st_energy c') = []"
    using ml e0 by (simp add: mild_def same_books_def accounts_ok_def empty_energy_def)
  have "st_tokenomics c' = st_tokenomics c0" using ml by (simp add: mild_def)
  then show "GetReleaseState c' = tg_release gs" "tok_GetParams c' = tg_params gs"
    "GetProjectClaimable c' = (case tg_claimable gs of None \<Rightarrow> GetProjectClaimable c | Some n \<Rightarrow> n)"
    by (simp_all add: c0_def upd_tok_def keep GetReleaseState_def GetProjectClaimable_def tok_GetParams_def split: option.split)
qed

lemma atox_genesis_books:
  assumes laws: "sdk_laws K" and no: "no_atox K c" and g: "atox_InitGenesis True c gs = Inr c'"
    and gs: "xg_accounts gs = []" "xg_global gs = DefaultGlobalState"
  shows "atox_safe K c'" "c' = upd_atox (\<lambda>_. st_atox c') c" "GetGlobalState c' = DefaultGlobalState"
proof -
  have c': "c' = upd_atox (\<lambda>s. s\<lparr>x_params := Some (xg_params gs), x_global := Some DefaultGlobalState, x_cursor := xg_cursor gs,
      x_swept := Some (xg_swept gs)\<rparr>) c" and cap: "0 < SupplyCap (xg_params gs)"
    using g gs by (auto simp: atox_InitGenesis_def atox_SetParams_def atox_Params_Validate_def SetGlobalState_def SetScanCursor_def
        SetSweptIndex_def upd_atox_def Let_def split: sum.splits if_splits)
  have p: "0 \<le> ExchangePoolBalance K c'" using bank_balance_nonneg [OF sdk_lawsD(1) [OF laws]] by (simp add: ExchangePoolBalance_def)
  show gl: "GetGlobalState c' = DefaultGlobalState" by (simp add: c' upd_atox_def GetGlobalState_def)
  have keep: "GetAtoxAccount K c' = GetAtoxAccount K c" "AtoxBalance K c' = AtoxBalance K c" "AtoxSupply K c' = AtoxSupply K c"
    "atox_records c' = atox_records c" "AtoxSupplyCap c' = SupplyCap (xg_params gs)" "fee_in_progress c' = fee_in_progress c"
    by (simp_all add: c' upd_atox_def GetAtoxAccount_def getAtoxAccount_def AtoxBalance_def AtoxSupply_def atox_records_def
        AtoxSupplyCap_def atox_GetParams_def fun_eq_iff)
  have "book_sound (AtoxSupplyCap c') (book_of K c')"
    by (rule zero_book_sound [OF _ p]) (use no in \<open>simp_all add: no_atox_def gl keep cap book_of_def\<close>)
  then show "atox_safe K c'" using no keep by (simp add: atox_safe_def no_atox_def)
  show "c' = upd_atox (\<lambda>_. st_atox c') c" by (simp add: c' upd_atox_def)
qed

lemma energy_genesis_books:
  assumes es: "energy_safe K c {}" and d: "e_delegations (st_energy c) = []" and g: "energy_InitGenesis K True c gs = Inr c'"
    and gs: "eg_accounts gs = []" "eg_delegations gs = []"
  shows "energy_safe K c' {}" "frame c c'"
proof -
  obtain i where c': "c' = upd_energy (\<lambda>s. s\<lparr>e_params := Some (eg_params gs), e_next_id := Some i\<rparr>) c"
    using g gs by (auto simp: energy_InitGenesis_def energy_SetParams_def setNextDelegationID_def upd_energy_def Let_def split: sum.splits)
  show "frame c c'" by (simp add: c')
  show "energy_safe K c' {}"
    using es d by (simp add: c' upd_energy_def energy_safe_def energy_inv_def accounts_ok_def recs_ok_def backed_def markers_in_def issued_ok_def
        in_usable_def lent_out_def locked_of_def counters_def in_sum_def out_sum_def lock_sum_def lock_total_def pool_balance_def)
qed

lemma draw_app_id:
  assumes "core_law K Core"
    "(if b then (case GetNextSequence Core c of Inl _ \<Rightarrow> Inl e | Inr (i, c) \<Rightarrow> Inr (f i, c)) else Inr (st, c)) = Inr (st', c')"
    "\<And>i. AppliedToBridge (f i) = AppliedToBridge st \<and> AppliedToProject (f i) = AppliedToProject st"
  shows "bank_moves K {} c c'" "AppliedToBridge st' = AppliedToBridge st" "AppliedToProject st' = AppliedToProject st"
  using assms bank_moves.none [of K "{}" c] by (auto simp: core_law_def split: if_splits sum.splits)

lemma bridge_genesis_chain:
  assumes laws: "sdk_laws K" "core_law K Core" and safe: "books_safe K c {}" and g: "br_InitGenesis K Core c gs = Inr c'"
    and z: "AppliedToBridge (bg_receipt gs) = 0" "AppliedToProject (bg_receipt gs) = 0"
    and t: "TotalReleasedToPool (GetGlobalState c) = 0" "GetProjectClaimable c = 0"
      "0 \<le> TotalMinerReleased (GetReleaseState c)" "0 \<le> TotalProjectReleased (GetReleaseState c)"
      "MinerReleaseShareBps (tok_GetParams c) \<le> 10000"
  shows "chain_safe K c' {}"
proof -
  let ?p = "bg_params gs"
  define c0 where "c0 = setParamsUnchecked ?p c"
  have val: "AtosPerErc20 ?p \<noteq> 0" "uint (AtosPerErc20 ?p) \<le> 2 ^ 63 - 1"
    using g by (auto simp: br_InitGenesis_def br_SetParams_def bridge_Params_Validate_def split: sum.splits if_splits)
  obtain st1 c1 st2 c2 where s:
      "(if length (AppId (bg_receipt gs)) \<noteq> HexAddressLen
        then (case GetNextSequence Core c0 of Inl _ \<Rightarrow> Inl (Panic ''failed to assign bridgeadapter app id'')
              | Inr (i, c) \<Rightarrow> Inr ((bg_receipt gs)\<lparr>AppId := i\<rparr>, c)) else Inr (bg_receipt gs, c0)) = Inr (st1, c1)"
      "(if length (AssetAppId st1) \<noteq> HexAddressLen
        then (case GetNextSequence Core c1 of Inl _ \<Rightarrow> Inl (Panic ''failed to assign bridgeadapter asset app id'')
              | Inr (i, c) \<Rightarrow> Inr (st1\<lparr>AssetAppId := i\<rparr>, c)) else Inr (st1, c1)) = Inr (st2, c2)"
      and c': "c' = SetReceiptState st2 c2"
    using g unfolding br_InitGenesis_def br_SetParams_def c0_def Let_def
    by (cases "bridge_Params_Validate (codec K) (bg_params gs)") (auto simp del: if_splits)
  note d1 = draw_app_id [OF laws(2) s(1)] and d2 = draw_app_id [OF laws(2) s(2)]
  have st2: "AppliedToBridge st2 = 0" "AppliedToProject st2 = 0" using d1(2,3) d2(2,3) z by simp_all
  have b0: "books_safe K c0 {}"
    using safe same_book(1) [of c0 c K] same_book(2) [of c0 c]
    by (simp add: c0_def setParamsUnchecked_def upd_bridge_def books_safe_def atox_safe_def energy_safe_def energy_inv_def
        pool_balance_def AtoxSupplyCap_def atox_GetParams_def)
  have m: "bank_moves K {} c0 c1" "bank_moves K {} c1 c2" using d1(1) d2(1) by simp_all
  have b1: "books_safe K c1 {}" "mild K c0 c1" using outsider_moves [OF laws(1) b0 _ m(1)] by simp_all
  have b2: "books_safe K c2 {}" "mild K c0 c2"
    using outsider_moves [OF laws(1) b1(1) _ m(2)] mild_trans [OF b1(2)] by simp_all
  have keep: "st_tokenomics c2 = st_tokenomics c" "b_params (st_bridge c2) = Some ?p"
    "TotalReleasedToPool (GetGlobalState c2) = TotalReleasedToPool (GetGlobalState c)"
    using b2(2) by (simp_all add: mild_def c0_def setParamsUnchecked_def upd_bridge_def GetGlobalState_def)
  have "uint (AtosPerErc20 ?p) \<noteq> 0" using val(1) by (simp add: uint_0_iff)
  then have "0 < uint (AtosPerErc20 ?p)" using uint_ge_0 [of "AtosPerErc20 ?p"] by linarith
  then have peg: "0 < i64_of_u64 (AtosPerErc20 ?p)" using val(2) by (simp add: i64_of_u64_small)
  have get: "br_GetParams c' = ?p" "GetReceiptState c' = st2" "GetReleaseState c' = GetReleaseState c"
    "GetProjectClaimable c' = GetProjectClaimable c" "tok_GetParams c' = tok_GetParams c" "GetGlobalState c' = GetGlobalState c2"
    using keep(1,2) by (simp_all add: c' SetReceiptState_def upd_bridge_def br_GetParams_def GetReceiptState_def
        GetReleaseState_def GetProjectClaimable_def tok_GetParams_def GetGlobalState_def)
  have "link_ok c'" unfolding link_ok_def peg_def get using peg val(1) st2 t keep(3) by simp
  moreover have "books_safe K c' {}"
    using b2(1) same_book(1) [of c' c2 K] same_book(2) [of c' c2]
    by (simp add: c' SetReceiptState_def upd_bridge_def books_safe_def atox_safe_def energy_safe_def energy_inv_def
        pool_balance_def AtoxSupplyCap_def atox_GetParams_def)
  ultimately show ?thesis by (simp add: chain_safe_def)
qed

section \<open>Reachable states of the chain\<close>

text \<open>
  The chain from its genesis: every message, block hook and decorator of the modelled modules, through
  the registered send restriction, interleaved with whatever the rest of the application does.  The
  accounts of the two pools sign nothing, the id counter of the delegations does not run out, and
  governance sets release shares that do not wrap around.
\<close>

inductive chain_reach ::
  "'x sdk \<Rightarrow> 'x ante_env \<Rightarrow> 'x core \<Rightarrow> 'x ctx \<Rightarrow> (string \<times> consume_result) set \<Rightarrow> bool" for K E Core where
  genesis: "fresh K c \<Longrightarrow> tok_InitGenesis K (app_hook K) c tg = Inr c1 \<Longrightarrow> atox_InitGenesis True c1 xg = Inr c2 \<Longrightarrow>
    energy_InitGenesis K True c2 eg = Inr c3 \<Longrightarrow> br_InitGenesis K Core c3 bg = Inr c4 \<Longrightarrow>
    validateReleaseState (tg_release tg) = Inr () \<Longrightarrow> tg_claimable tg = Some 0 \<Longrightarrow> MinerReleaseShareBps (tg_params tg) \<le> 10000 \<Longrightarrow>
    xg_accounts xg = [] \<Longrightarrow> xg_global xg = DefaultGlobalState \<Longrightarrow> eg_accounts eg = [] \<Longrightarrow> eg_delegations eg = [] \<Longrightarrow>
    AppliedToBridge (bg_receipt bg) = 0 \<Longrightarrow> AppliedToProject (bg_receipt bg) = 0 \<Longrightarrow> chain_reach K E Core c4 {}"
| environment: "chain_reach K E Core c R \<Longrightarrow> environment K c c' \<Longrightarrow> chain_reach K E Core c' R"
| transfer: "chain_reach K E Core c R \<Longrightarrow> send_coins K (app_hook K) c f t cs = Inr c' \<Longrightarrow> outsider K f \<Longrightarrow>
    chain_reach K E Core c' R"
| bank_send: "chain_reach K E Core c R \<Longrightarrow> MsgServer_Send K (app_hook K) c msg = Inr c' \<Longrightarrow>
    acc_from_bech32 (codec K) (ms_FromAddress msg) = Some f \<Longrightarrow> outsider K f \<Longrightarrow> chain_reach K E Core c' R"
| bank_multi_send: "chain_reach K E Core c R \<Longrightarrow> MsgServer_MultiSend K (app_hook K) c ins outs = Inr c' \<Longrightarrow>
    (\<And>f. acc_from_bech32 (codec K) (fst (hd ins)) = Some f \<Longrightarrow> outsider K f) \<Longrightarrow> chain_reach K E Core c' R"
| energy_ante: "chain_reach K E Core c R \<Longrightarrow> energy_AnteHandle K (app_hook K) E c tx simulate = Inr (out, c') \<Longrightarrow>
    outsider K (a_signer out) \<Longrightarrow> chain_reach K E Core c' (insert (acc_string (codec K) (a_signer out), a_reserved out) R)"
| energy_post: "chain_reach K E Core c R \<Longrightarrow>
    (\<And>out. stash = Some out \<Longrightarrow> (acc_string (codec K) (a_signer out), a_reserved out) \<in> R) \<Longrightarrow>
    chain_reach K E Core (energy_PostHandle K E c stash used limit) R"
| energy_delegate: "chain_reach K E Core c R \<Longrightarrow> DelegateEnergy K (app_hook K) c dmsg = Inr (did, locked, c') \<Longrightarrow>
    next_id (st_energy c) \<noteq> max_u64 \<Longrightarrow>
    (\<And>a. acc_from_bech32 (codec K) (md_Delegator dmsg) = Some a \<Longrightarrow> outsider K a) \<Longrightarrow> chain_reach K E Core c' R"
| energy_undelegate: "chain_reach K E Core c R \<Longrightarrow> UndelegateEnergy K (app_hook K) c who did = Inr c' \<Longrightarrow> chain_reach K E Core c' R"
| energy_end: "chain_reach K E Core c R \<Longrightarrow> chain_reach K E Core (energy_EndBlocker K (app_hook K) c) R"
| energy_staking: "chain_reach K E Core c R \<Longrightarrow> chain_reach K E Core (AfterDelegationModified K c a) R"
| energy_unstaking: "chain_reach K E Core c R \<Longrightarrow> chain_reach K E Core (BeforeDelegationRemoved K c a) R"
| energy_params: "chain_reach K E Core c R \<Longrightarrow> energy_UpdateParams K authority c signer ep = Inr c' \<Longrightarrow> chain_reach K E Core c' R"
| energy_migrate: "chain_reach K E Core c R \<Longrightarrow> RefreshAllSnapshots K c = (n, c') \<Longrightarrow> chain_reach K E Core c' R"
| atox_claim: "chain_reach K E Core c R \<Longrightarrow> ClaimAtos K (app_hook K) c who = Inr (paid, c') \<Longrightarrow> chain_reach K E Core c' R"
| atox_end: "chain_reach K E Core c R \<Longrightarrow> chain_reach K E Core (atox_EndBlocker K (app_hook K) c) R"
| atox_params: "chain_reach K E Core c R \<Longrightarrow> atox_UpdateParams authority c signer ap = Inr c' \<Longrightarrow> chain_reach K E Core c' R"
| tok_begin: "chain_reach K E Core c R \<Longrightarrow> tok_BeginBlocker K (app_hook K) c = Inr c' \<Longrightarrow> chain_reach K E Core c' R"
| tok_end: "chain_reach K E Core c R \<Longrightarrow> chain_reach K E Core (tok_EndBlocker K (app_hook K) (DispatchTierRelease Core) c) R"
| tok_claim: "chain_reach K E Core c R \<Longrightarrow> ClaimMigrationTokens K (app_hook K) (sha256 E) c mmsg = Inr c' \<Longrightarrow> chain_reach K E Core c' R"
| tok_params: "chain_reach K E Core c R \<Longrightarrow> tok_UpdateParams K authority c signer tp = Inr c' \<Longrightarrow>
    MinerReleaseShareBps tp \<le> 10000 \<Longrightarrow> chain_reach K E Core c' R"
| bridge_out: "chain_reach K E Core c R \<Longrightarrow> BridgeOut K (app_hook K) Core c bmsg = Inr (i, e, c') \<Longrightarrow>
    (\<And>a. acc_from_bech32 (codec K) (bo_Sender bmsg) = Some a \<Longrightarrow> outsider K a) \<Longrightarrow> chain_reach K E Core c' R"
| bridge_in: "chain_reach K E Core c R \<Longrightarrow> bridge_Handle K (app_hook K) Core c mb hmsg = Inr c' \<Longrightarrow> chain_reach K E Core c' R"
| bridge_params: "chain_reach K E Core c R \<Longrightarrow> br_UpdateParams K authority c signer bp = Inr c' \<Longrightarrow> chain_reach K E Core c' R"
| bridge_halt: "chain_reach K E Core c R \<Longrightarrow> EmergencyHalt c guardian = Inr c' \<Longrightarrow> chain_reach K E Core c' R"

lemma chain_energy:
  assumes "chain_safe K c R" "apart K c c'" "energy_safe K c R \<Longrightarrow> energy_safe K c' R'"
  shows "chain_safe K c' R'"
  using chain_apart [OF assms(1,2)] assms(1,3) by (simp add: chain_safe_def books_safe_def)

lemma genesis_chain:
  assumes laws: "sdk_laws K" "core_law K Core"
    and g: "fresh K c" "tok_InitGenesis K (app_hook K) c tg = Inr c1" "atox_InitGenesis True c1 xg = Inr c2"
      "energy_InitGenesis K True c2 eg = Inr c3" "br_InitGenesis K Core c3 bg = Inr c4"
      "validateReleaseState (tg_release tg) = Inr ()" "tg_claimable tg = Some 0" "MinerReleaseShareBps (tg_params tg) \<le> 10000"
      "xg_accounts xg = []" "xg_global xg = DefaultGlobalState" "eg_accounts eg = []" "eg_delegations eg = []"
      "AppliedToBridge (bg_receipt bg) = 0" "AppliedToProject (bg_receipt bg) = 0"
  shows "chain_safe K c4 {}"
proof -
  note t = tok_genesis_books [OF laws(1) g(1,2)]
  note a = atox_genesis_books [OF laws(1) t(1) g(3,9,10)]
  have e2: "st_energy c2 = st_energy c1" "ext c2 = ext c1" "st_tokenomics c2 = st_tokenomics c1"
    by (subst a(2), simp add: upd_atox_def)+
  have "energy_safe K c2 {}" using t(2) e2 by (simp add: energy_safe_def energy_inv_def pool_balance_def)
  note e = energy_genesis_books [OF this _ g(4,11,12)]
  have e3: "energy_safe K c3 {}" "frame c2 c3" using e t(3) e2 by simp_all
  have ap: "apart K c2 c3" by (rule apart_frame [OF e3(2)])
  have "books_safe K c3 {}" using ap a(1) e3(1) by (simp add: books_safe_def apart_def)
  moreover have "TotalReleasedToPool (GetGlobalState c3) = 0" using ap a(1,3) by (simp add: apart_def DefaultGlobalState_def)
  moreover have "st_tokenomics c3 = st_tokenomics c1" using ap e2 by (simp add: apart_def)
  moreover have "0 \<le> TotalMinerReleased (tg_release tg)" "0 \<le> TotalProjectReleased (tg_release tg)"
    using g(6) by (auto simp: validateReleaseState_def split: if_splits)
  ultimately show ?thesis
    using t(4-6) g(7,8) by (intro bridge_genesis_chain [OF laws _ g(5,13,14)])
      (simp_all add: GetProjectClaimable_def GetReleaseState_def tok_GetParams_def)
qed

lemma hooks_apart: "apart K c (hooks_refresh K c a)"
  by (rule apart_frame) (simp add: hooks_refresh_def ApplyStakedChange_books(2))

lemma chain_reach_safe:
  assumes laws: "sdk_laws K" "grant_law K E" "core_law K Core"
  shows "chain_reach K E Core c R \<Longrightarrow> chain_safe K c R"
proof (induction rule: chain_reach.induct)
  case (genesis c tg c1 xg c2 eg c3 bg c4)
  show ?case by (rule genesis_chain [OF laws(1,3) genesis])
next
  case (environment c R c')
  then show ?case using environment_chain by blast
next
  case (transfer c R f t cs c')
  then show ?case using chain_send(1) [OF laws(1)] by blast
next
  case (bank_send c R msg c' f)
  then show ?case using bank_send_chain [OF laws(1)] by blast
next
  case (bank_multi_send c R ins outs c')
  then show ?case using bank_multi_send_chain [OF laws(1)] by blast
next
  case (energy_ante c R tx simulate out c')
  have o: "a_signer out \<noteq> pool K" "a_signer out \<noteq> ExchangePoolAddress K" using energy_ante(3) by (simp_all add: outsider_def)
  have "energy_inv K c" using energy_ante(4) by (simp add: chain_safe_def books_safe_def energy_safe_def)
  from ante_apart [OF laws(1,2) this energy_ante(2) o(2)] show ?case
    by (rule chain_energy [OF energy_ante(4) _ app.ante_safe [OF laws(1,2) _ energy_ante(2) o(1)]])
next
  case (energy_post c R stash used limit)
  show ?case by (rule chain_energy [OF energy_post(3) post_apart post_safe [OF _ energy_post(2)]])
next
  case (energy_delegate c R dmsg did locked c')
  obtain delegator delegatee duration where d: "acc_from_bech32 (codec K) (md_Delegator dmsg) = Some delegator"
      "Delegate K (app_hook K) c delegator delegatee (md_Amount dmsg) duration = Inr (did, locked, c')"
    using energy_delegate(2) by (auto simp: DelegateEnergy_def Let_def split: option.splits if_splits)
  have o: "outsider K delegator" by (rule energy_delegate(4) [OF d(1)])
  then have "acc_from_bech32 (codec K) (md_Delegator dmsg) \<noteq> Some (pool K)" using d(1) by (simp add: outsider_def)
  note es = app.delegate_safe [OF laws(1) _ energy_delegate(2,3) this]
  show ?case using Delegate_apart [OF laws(1) _ d(2)] o by (intro chain_energy [OF energy_delegate(5) _ es]) (simp_all add: outsider_def)
next
  case (energy_undelegate c R who did c')
  obtain a d where u: "UndelegateEnergy K (app_hook K) c who did = Inr c'" "releaseDelegation K (app_hook K) c d = (None, c')"
    using energy_undelegate(2) by (auto simp: UndelegateEnergy_def Undelegate_def split: option.splits if_splits prod.splits)
  have "apart K c c'" using release_apart [OF laws(1), of c d] u(2) by simp
  then show ?case by (rule chain_energy [OF energy_undelegate(3) _ app.undelegate_safe [OF laws(1) _ u(1)]])
next
  case (energy_end c R)
  show ?case by (rule chain_energy [OF energy_end(2) energy_end_apart [OF laws(1)] app.energy_end_safe [OF laws(1)]])
next
  case (energy_staking c R a)
  show ?case unfolding AfterDelegationModified_def
    by (rule chain_energy [OF energy_staking(2) hooks_apart hooks_safe])
next
  case (energy_unstaking c R a)
  show ?case unfolding BeforeDelegationRemoved_def
    by (rule chain_energy [OF energy_unstaking(2) hooks_apart hooks_safe])
next
  case (energy_params c R authority signer ep c')
  have f: "energy_safe K c R" using energy_params(3) by (simp add: chain_safe_def books_safe_def)
  note e = energy_params_safe [OF f energy_params(2)]
  show ?case by (rule chain_apart [OF energy_params(3) apart_frame [OF e(2)] e(1)])
next
  case (energy_migrate c R n c')
  have f: "energy_safe K c R" using energy_migrate(3) by (simp add: chain_safe_def books_safe_def)
  note e = migrate_safe [OF f energy_migrate(2)]
  show ?case by (rule chain_apart [OF energy_migrate(3) apart_frame [OF e(2)] e(1)])
next
  case (atox_claim c R who paid c')
  then show ?case using claim_chain [OF laws(1)] by blast
next
  case (atox_end c R)
  show ?case by (rule chain_atox [OF atox_end(2) atox_end_mild [OF laws(1)] end_block_safe [OF laws(1)]])
next
  case (atox_params c R authority signer ap c')
  then show ?case using atox_params_chain by blast
next
  case (tok_begin c R c')
  then show ?case using begin_block_chain [OF laws(1)] by blast
next
  case (tok_end c R)
  then show ?case using tok_end_chain [OF laws(1,3)] by blast
next
  case (tok_claim c R mmsg c')
  then show ?case using claim_migration_chain [OF laws(1)] by blast
next
  case (tok_params c R authority signer tp c')
  then show ?case using tok_params_chain by blast
next
  case (bridge_out c R bmsg i e c')
  then obtain a where "acc_from_bech32 (codec K) (bo_Sender bmsg) = Some a"
      "ExecuteBridgeOut K (app_hook K) Core c a (bo_Recipient bmsg) (bo_Amount bmsg) (bo_MaxFee bmsg) = Inr (i, e, c')"
    by (auto simp: BridgeOut_def split: option.splits)
  then show ?case using bridge_out_chain [OF laws(1,3) bridge_out(4)] bridge_out(3) by blast
next
  case (bridge_in c R mb hmsg c')
  then show ?case using handle_chain [OF laws(1)] by blast
next
  case (bridge_params c R authority signer bp c')
  then show ?case using bridge_params_chain by blast
next
  case (bridge_halt c R guardian c')
  then show ?case using halt_chain by blast
qed

lemma chain_safeD:
  assumes "chain_safe K c R"
  shows "atox_safe K c" "energy_safe K c R" "link_ok c"
  using assms by (simp_all add: chain_safe_def books_safe_def)

end
