(* ===== verification/ChainDemo.thy ===== *)
theory ChainDemo
  imports ChainReach
begin

text \<open>
  A chain on the ledger of \<open>Chain.thy\<close>: the genesis of the four modules with funded pools, the first
  block reward, a transfer of ATOX to an account, and a release into the conversion pool that the
  bridge confirms.  The witnesses of the properties on reachable states are about its state \<open>demo\<close>.
\<close>

definition demo_ledger :: ledger where
  "demo_ledger = \<lparr> l_accounts = [((''alice'', ''liao''), 9), ((CHR ''m'' # MinerPoolName, ''liao''), 4000),
       ((CHR ''m'' # ProjectPoolName, ''liao''), 3000), ((CHR ''m'' # MigrationPoolName, ''liao''), 2000)],
     l_totals = [(''liao'', 9009)] \<rparr>"

definition blank :: "ledger ctx" where
  "blank = \<lparr> block_time = 100, block_height = 1, tx_bytes = ''tx'', fee_in_progress = False,
     st_oracle = \<lparr> o_params = None, o_current = None, o_history = [] \<rparr>, st_energy = empty_energy,
     st_atox = \<lparr> x_params = None, x_global = None, x_accounts = [], x_cursor = [], x_swept = None \<rparr>,
     st_tokenomics = \<lparr> t_params = None, t_release = None, t_reward = None, t_claimable = None, t_claimed = [] \<rparr>,
     st_bridge = \<lparr> b_params = None, b_receipt = None, b_rate = None, b_usage_out = [], b_usage_in = [] \<rparr>,
     ext = demo_ledger \<rparr>"

definition small_tok :: tokenomics_genesis where
  "small_tok = tokenomics_DefaultGenesisState\<lparr>tg_params := tokenomics_DefaultParams\<lparr>MinerPoolTotal := 4000,
     ProjectPoolTotal := 3000, MigrationPoolTotal := 2000, InitialBlockReward := 800\<rparr>,
     tg_release := DefaultReleaseState\<lparr>TotalMinerReleased := 1000, TotalProjectReleased := 1000\<rparr>\<rparr>"

definition small_atox :: atox_genesis where
  "small_atox = atox_DefaultGenesisState\<lparr>xg_params := atox_DefaultParams\<lparr>SupplyCap := 1000\<rparr>\<rparr>"

definition small_bridge :: bridge_genesis where
  "small_bridge = \<lparr> bg_params = bridge_DefaultParams\<lparr>br_Enabled := True, AtosPerErc20 := 1,
       TierReleaseVault := replicate 32 CHR ''v'', IsmId := replicate 32 CHR ''i'', MailboxId := replicate 32 CHR ''b''\<rparr>,
     bg_receipt = DefaultReceiptState\<lparr>AppId := replicate 32 CHR ''p'', AssetAppId := replicate 32 CHR ''q''\<rparr> \<rparr>"

definition receipt :: hyperlane_message where
  "receipt = \<lparr> hm_Version = 3, hm_Nonce = 0, hm_Origin = 1, hm_Sender = replicate 32 CHR ''v'', hm_Destination = 2,
     hm_Recipient = replicate 32 CHR ''p'', hm_Body = (case BuildReceipt 500 100 of Inr b \<Rightarrow> b | Inl _ \<Rightarrow> []) \<rparr>"

definition demo_core :: "ledger core" where
  "demo_core = \<lparr> DispatchMessage = (\<lambda>c _ _ _ _ _ _ _. (Inr ''id'', c)), GetNextSequence = (\<lambda>c. Inr (replicate 32 CHR ''a'', c)),
     message_id = (\<lambda>_. ''receipt'') \<rparr>"

definition demo_env :: "ledger ante_env" where
  "demo_env = \<lparr> sha256 = (\<lambda>s. replicate 32 CHR ''x''), has_account = (\<lambda>_ _. True), fee_checker = (\<lambda>_ _. Inr ()),
     use_granted_fees = (\<lambda>c _ _ _. Inr c) \<rparr>"

definition boot :: "ledger ctx result" where
  "boot = bindR (tok_InitGenesis ledger_sdk (app_hook ledger_sdk) blank small_tok) (\<lambda>c.
     bindR (atox_InitGenesis True c small_atox) (\<lambda>c.
     bindR (energy_InitGenesis ledger_sdk True c energy_DefaultGenesisState) (\<lambda>c.
     br_InitGenesis ledger_sdk demo_core c small_bridge)))"

definition run :: "ledger ctx result" where
  "run = bindR boot (\<lambda>c. bindR (tok_BeginBlocker ledger_sdk (app_hook ledger_sdk) c) (\<lambda>c.
     bindR (send_coins ledger_sdk (app_hook ledger_sdk) c (module_address ledger_sdk FeeCollectorName) ''bob'' [(AtoxBaseDenom, 500)])
       (\<lambda>c. bridge_Handle ledger_sdk (app_hook ledger_sdk) demo_core c (replicate 32 CHR ''b'') receipt)))"

definition snap :: "string \<Rightarrow> int \<Rightarrow> string \<times> energy_account" where
  "snap k n = (k, \<lparr> Address = k, TxEnergyAccrued = 0, DeployEnergyAccrued = 0, LastBalanceSnapshot = n, LastUpdatedTime = 100,
     DelegatedOut = 0, DelegatedInUsable = 0, LockedAtos = 0, StakedSnapshot = 0 \<rparr>)"

definition demo :: "ledger ctx" where
  "demo = blank\<lparr>
     st_energy := \<lparr> e_params = Some energy_DefaultParams,
       e_accounts = [snap ''atos1bob'' 500, snap ''atos1matox'' 0, snap ''atos1matox_exchange_pool'' 500,
         snap ''atos1mfee_collector'' 300, snap ''atos1mminer_pool'' 3500],
       e_delegations = [], e_by_expiry = [], e_by_delegator = [], e_by_delegatee = [], e_next_id = Some 1, e_pending = [] \<rparr>,
     st_atox := \<lparr> x_params = Some (xg_params small_atox),
       x_global = Some (DefaultGlobalState\<lparr>GlobalIndex := 500000000000000000, TotalReleasedToPool := 500\<rparr>),
       x_accounts = [(''atos1bob'', NewAtoxAccount ''atos1bob'' 0)], x_cursor = [], x_swept = Some 0 \<rparr>,
     st_tokenomics := \<lparr> t_params = Some (tg_params small_tok), t_release = Some (tg_release small_tok),
       t_reward = Some \<lparr> TotalDistributed = 800, CurrentPeriod = 0 \<rparr>, t_claimable = Some 100, t_claimed = [] \<rparr>,
     st_bridge := \<lparr> b_params = Some (bg_params small_bridge),
       b_receipt = Some ((bg_receipt small_bridge)\<lparr>AppliedToBridge := 500, AppliedToProject := 100, LastMessageId := ''receipt''\<rparr>),
       b_rate = None, b_usage_out = [], b_usage_in = [] \<rparr>,
     ext := \<lparr> l_accounts = [((''matox_exchange_pool'', ''liao''), 500), ((''mminer_pool'', ''liao''), 3500),
         ((''bob'', ''aatox''), 500), ((''mfee_collector'', ''aatox''), 300), ((''mfee_collector'', ''aatox''), 800),
         ((''matox'', ''aatox''), 0), ((''matox'', ''aatox''), 800), ((''alice'', ''liao''), 9),
         ((''mminer_pool'', ''liao''), 4000), ((''mproject_pool'', ''liao''), 3000), ((''mmigration_pool'', ''liao''), 2000)],
       l_totals = [(''aatox'', 800), (''liao'', 9009)] \<rparr>\<rparr>"

lemma demo_env_law: "grant_law ledger_sdk demo_env"
  by (simp add: grant_law_def demo_env_def) (metis ctx.surjective ctx.update_convs(10) same_rest_refl)

lemma demo_core_law: "core_law ledger_sdk demo_core"
  by (auto simp: core_law_def demo_core_def intro: bank_moves.none)

lemma blank_fresh: "fresh ledger_sdk blank"
proof -
  have "l_bal demo_ledger a AtoxBaseDenom = 0" for a
    by (simp add: l_bal_def demo_ledger_def AtoxBaseDenom_def)
  then show ?thesis
    by (simp add: fresh_def blank_def AtoxBalance_def AtoxSupply_def ledger_sdk_def fun_eq_iff)
      (simp add: l_supply_def demo_ledger_def AtoxBaseDenom_def)
qed

lemma run_demo: "run = Inr demo"
  by code_simp

lemma run_reach: "run = Inr c \<Longrightarrow> chain_reach ledger_sdk demo_env demo_core c {}"
proof -
  assume "run = Inr c"
  then obtain b c1 c2 where b: "boot = Inr b" and r: "tok_BeginBlocker ledger_sdk (app_hook ledger_sdk) b = Inr c1"
    "send_coins ledger_sdk (app_hook ledger_sdk) c1 (module_address ledger_sdk FeeCollectorName) ''bob'' [(AtoxBaseDenom, 500)] = Inr c2"
    "bridge_Handle ledger_sdk (app_hook ledger_sdk) demo_core c2 (replicate 32 CHR ''b'') receipt = Inr c"
    unfolding run_def by (elim bindR_InrE)
  obtain g1 g2 g3 where g: "tok_InitGenesis ledger_sdk (app_hook ledger_sdk) blank small_tok = Inr g1"
    "atox_InitGenesis True g1 small_atox = Inr g2"
    "energy_InitGenesis ledger_sdk True g2 energy_DefaultGenesisState = Inr g3"
    "br_InitGenesis ledger_sdk demo_core g3 small_bridge = Inr b"
    using b unfolding boot_def by (elim bindR_InrE)
  have "chain_reach ledger_sdk demo_env demo_core b {}"
    by (rule chain_reach.genesis [OF blank_fresh g])
      (simp_all add: small_tok_def tokenomics_DefaultGenesisState_def tokenomics_DefaultParams_def DefaultReleaseState_def
        validateReleaseState_def small_atox_def atox_DefaultGenesisState_def energy_DefaultGenesisState_def small_bridge_def
        DefaultReceiptState_def)
  moreover have "outsider ledger_sdk (module_address ledger_sdk FeeCollectorName)"
    by (rule outsider_module [OF ledger_laws]) (simp_all add: FeeCollectorName_def LockedEnergyPoolName_def ExchangePoolName_def)
  ultimately show ?thesis by (rule chain_reach.bridge_in [OF chain_reach.transfer [OF chain_reach.tok_begin [OF _ r(1)] r(2)] r(3)])
qed

lemmas demo_reach = run_reach [OF run_demo]

lemma demo_atox_safe: "atox_safe ledger_sdk demo"
  by (rule chain_safeD(1) [OF chain_reach_safe [OF ledger_laws demo_env_law demo_core_law demo_reach]])

section \<open>A delegation of energy\<close>

text \<open>
  The chain goes on: an account receives ATOS, a day passes, and it delegates energy to another.
\<close>

definition funded :: "ledger ctx" where
  "funded = demo\<lparr>ext := (ext demo)\<lparr>l_accounts := ((''carol'', ''liao''), 90000000000000000000000) # l_accounts (ext demo)\<rparr>\<rparr>"

definition later :: "ledger ctx \<Rightarrow> ledger ctx" where
  "later c = c\<lparr>block_time := block_time c + 86400\<rparr>"

definition lend :: msg_delegate_energy where
  "lend = \<lparr> md_Delegator = ''atos1alice'', md_Delegatee = ''atos1bob'', md_Amount = 40000, md_DurationSeconds = 0 \<rparr>"

definition lending :: "(u64 \<times> int \<times> ledger ctx) result" where
  "lending = bindR (send_coins ledger_sdk (app_hook ledger_sdk) funded ''carol'' ''alice'' [(''liao'', 60000000000000000000000)])
     (\<lambda>c. DelegateEnergy ledger_sdk (app_hook ledger_sdk) (later c) lend)"

definition lent :: "ledger ctx" where
  "lent = (case lending of Inr (_, _, c) \<Rightarrow> c | Inl _ \<Rightarrow> demo)"

definition lent_summary :: "u64 \<times> int \<times> ledger ctx \<Rightarrow> u64 \<times> u64 \<times> u64 \<times> int \<times> int" where
  "lent_summary = (\<lambda>(i, _, c). (i, DelegatedOut (GetEnergyAccount ledger_sdk c ''alice''),
     DelegatedInUsable (GetEnergyAccount ledger_sdk c ''bob''),
     LockedAtos (GetEnergyAccount ledger_sdk c ''alice''), pool_balance ledger_sdk c))"

lemma lent_run: "map_sum id lent_summary lending = Inr (1, 40000, 40000, 30000000000000000000000, 30000000000000000000000)"
  by code_simp

lemma next_run: "map_sum id (\<lambda>c. next_id (st_energy c) \<noteq> max_u64)
    (send_coins ledger_sdk (app_hook ledger_sdk) funded ''carol'' ''alice'' [(''liao'', 60000000000000000000000)]) = Inr True"
  by code_simp

lemma lending_lent:
  obtains locked where "lending = Inr (1, locked, lent)"
    and "lent_summary (1, locked, lent) = (1, 40000, 40000, 30000000000000000000000, 30000000000000000000000)"
proof (cases lending)
  case (Inl e)
  then show ?thesis using lent_run unfolding Inl by simp
next
  case (Inr r)
  obtain i l c where r: "r = (i, l, c)" by (cases r)
  have "lent_summary (i, l, c) = (1, 40000, 40000, 30000000000000000000000, 30000000000000000000000)"
    using lent_run unfolding Inr r by simp
  moreover have "lent = c" unfolding lent_def Inr r by simp
  ultimately show ?thesis using that Inr unfolding r by (auto simp: lent_summary_def)
qed

lemma lent_values:
  "DelegatedOut (GetEnergyAccount ledger_sdk lent ''alice'') = 40000"
  "DelegatedInUsable (GetEnergyAccount ledger_sdk lent ''bob'') = 40000"
  "LockedAtos (GetEnergyAccount ledger_sdk lent ''alice'') = 30000000000000000000000"
  "pool_balance ledger_sdk lent = 30000000000000000000000"
  by (rule lending_lent, simp add: lent_summary_def)+

lemma environment_funded: "environment ledger_sdk demo funded"
proof -
  have "AtoxBalance ledger_sdk funded a = AtoxBalance ledger_sdk demo a" for a
    by (simp add: AtoxBalance_def funded_def ledger_sdk_def l_bal_def AtoxBaseDenom_def)
  moreover have "balance ledger_sdk demo (module_address ledger_sdk n) d = balance ledger_sdk funded (module_address ledger_sdk n) d" for n d
    by (simp add: funded_def ledger_sdk_def l_bal_def)
  ultimately show ?thesis
    by (simp add: environment_def funded_def fun_eq_iff AtoxSupply_def ExchangePoolBalance_def ExchangePoolAddress_def pool_balance_def)
       (simp add: ledger_sdk_def l_supply_def isModuleAccount_def)
qed

lemma environment_later: "environment ledger_sdk c (later c)"
  by (simp add: environment_def later_def AtoxBalance_def fun_eq_iff AtoxSupply_def ExchangePoolBalance_def pool_balance_def isModuleAccount_def)

lemma lent_reach: "chain_reach ledger_sdk demo_env demo_core lent {}"
proof -
  obtain locked where "lending = Inr (1, locked, lent)" using lending_lent by blast
  then obtain c where c: "send_coins ledger_sdk (app_hook ledger_sdk) funded ''carol'' ''alice'' [(''liao'', 60000000000000000000000)] = Inr c"
    and d: "DelegateEnergy ledger_sdk (app_hook ledger_sdk) (later c) lend = Inr (1, locked, lent)"
    unfolding lending_def by (elim bindR_InrE)
  have n: "next_id (st_energy c) \<noteq> max_u64"
    using next_run unfolding c by simp
  have o: "outsider ledger_sdk ''carol''" "outsider ledger_sdk ''alice''"
    by (simp_all add: outsider_def ledger_sdk_def ExchangePoolAddress_def)
  have "chain_reach ledger_sdk demo_env demo_core (later c) {}"
    by (rule chain_reach.environment [OF chain_reach.transfer [OF chain_reach.environment [OF demo_reach environment_funded] c o(1)]
        environment_later])
  moreover have "next_id (st_energy (later c)) \<noteq> max_u64"
    using n by (simp add: later_def)
  ultimately show ?thesis
    by (rule chain_reach.energy_delegate [OF _ d]) (use o(2) in \<open>auto simp: lend_def ledger_sdk_def tag_codec_def\<close>)
qed

end
