(* ===== verification/EnergySpec.thy ===== *)
theory EnergySpec
  imports ChainDemo
begin

text \<open>
  Properties of the energy module: the plan of a consumption and its estimate, that a refund undoes it, the
  accrual of a waiting account, the end of expired delegations, the snapshot a transfer leaves and the form of the stores.
\<close>

section \<open>Consumption\<close>

lemma drawn_zero: "drawn acct 0 dep = (0, 0, 0, 0)"
proof -
  have "minU64 0 b = 0" for b :: u64 by (simp add: minU64_eq min_absorb1)
  then show ?thesis by (simp add: drawn_def)
qed

lemma Consume_result:
  assumes inv: "energy_inv K c" and on: "\<not> allSubsidized (energy_GetParams c) urls" "EnergyEnabled (energy_GetParams c)" "g \<noteq> 0"
    and s: "Settle K c signer = (acct, c1)" and dr: "drawn acct g isDeploy = (d, own, del, short)"
  obtains att c2 where "attributeDelegatedConsumption K c1 signer del = Inr (att, c2)" "taken att = uint del"
    "Consume K c signer g isDeploy urls =
       Inr (\<lparr> EnergyDeducted = own + del, OwnDeducted = own, DelegatedDeducted = del, DeployEnergyUsed = d,
              ShortfallGas = short, Free = False, DelegationConsumptions = att \<rparr>,
            SetEnergyAccount (acct\<lparr>DeployEnergyAccrued := DeployEnergyAccrued acct - d,
              TxEnergyAccrued := TxEnergyAccrued acct - own,
              DelegatedInUsable := DelegatedInUsable acct - del\<rparr>) c2)"
proof -
  obtain res c' where c': "Consume K c signer g isDeploy urls = Inr (res, c')"
    "taken (DelegationConsumptions res) = uint (DelegatedDeducted res)" by (rule Consume_kept [OF inv])
  note e = Consume_drawn [OF on s dr]
  obtain att c2 where "attributeDelegatedConsumption K c1 signer del = Inr (att, c2)" using c'(1) unfolding e by auto
  then show ?thesis using that c' unfolding e by auto
qed

text \<open>C11: In every reachable state a consumption of energy succeeds, whatever the signer and the gas, and what it draws is the plan:
  deploy energy first, then the signer's own energy that is not lent out, then the energy lent to the signer; the four parts with the
  shortfall add up to the gas.  The read-only estimate reports the same amounts.\<close>

theorem consume_covers_gas:
  assumes "sdk_laws K" "grant_law K E" "core_law K Core" "chain_reach K E Core c R"
  shows "\<exists>res c'. Consume K c signer g isDeploy urls = Inr (res, c') \<and>
    EstimateConsume K c signer g isDeploy urls = res\<lparr>OwnDeducted := 0, DelegatedDeducted := 0, DelegationConsumptions := []\<rparr> \<and>
    EnergyDeducted res = OwnDeducted res + DelegatedDeducted res \<and>
    (if allSubsidized (energy_GetParams c) urls then Free res \<and> ShortfallGas res = 0 \<and> c' = c
     else if \<not> EnergyEnabled (energy_GetParams c) then ShortfallGas res = g \<and> c' = c
     else plan (fst (Settle K c signer)) (unat g) isDeploy =
        (unat (DeployEnergyUsed res), unat (OwnDeducted res), unat (DelegatedDeducted res), unat (ShortfallGas res)) \<and>
       unat (DeployEnergyUsed res) + unat (OwnDeducted res) + unat (DelegatedDeducted res) + unat (ShortfallGas res) = unat g)"
proof -
  have inv: "energy_inv K c" using chain_safeD(2) [OF chain_reach_safe [OF assms]] by (rule energy_safeD)
  obtain acct c1 where s: "Settle K c signer = (acct, c1)" by fastforce
  obtain d own del short where dr: "drawn acct g isDeploy = (d, own, del, short)" by (metis surj_pair)
  show ?thesis
  proof (cases "allSubsidized (energy_GetParams c) urls \<or> \<not> EnergyEnabled (energy_GetParams c)")
    case True
    then consider "allSubsidized (energy_GetParams c) urls"
      | "\<not> allSubsidized (energy_GetParams c) urls" "\<not> EnergyEnabled (energy_GetParams c)" by blast
    then show ?thesis by cases (simp_all add: Consume_def EstimateConsume_def empty_result_def)
  next
    case False
    then have est: "EstimateConsume K c signer g isDeploy urls =
       empty_result\<lparr>DeployEnergyUsed := d, EnergyDeducted := own + del, ShortfallGas := short\<rparr>"
      using Estimate_drawn [of c urls K signer] dr by (simp add: s)
    show ?thesis
    proof (cases "g = 0")
      case True
      then show ?thesis using False est dr drawn_plan [OF dr] s by (auto simp: Consume_def drawn_zero empty_result_def)
    next
      case g: False
      obtain att c2 where "Consume K c signer g isDeploy urls =
       Inr (\<lparr> EnergyDeducted = own + del, OwnDeducted = own, DelegatedDeducted = del, DeployEnergyUsed = d,
              ShortfallGas = short, Free = False, DelegationConsumptions = att \<rparr>, c2)"
        using Consume_result [OF inv _ _ g s dr] False by blast
      then show ?thesis using False est drawn_plan [OF dr] drawn_total(1) [OF dr] s by (simp add: empty_result_def)
    qed
  qed
qed

section \<open>Refund undoes attribution\<close>

lemma kv_set_same: "kv_inv m \<Longrightarrow> kv_get m k = Some v \<Longrightarrow> kv_set k v m = m"
  by (rule kv_ext) (simp_all add: kv_get_set fun_upd_idem)

lemma kv_set_set: "kv_inv m \<Longrightarrow> kv_set k v (kv_set k w m) = kv_set k v m"
  by (rule kv_ext) (simp_all add: kv_get_set)

lemma setDelegation_undo:
  assumes ok: "recs_ok A (st_energy c)" and g: "GetDelegation c i = Some d"
  shows "setDelegation d (setDelegation (d\<lparr>d_Used := u\<rparr>) c) = c"
proof -
  have g': "kv_get (e_delegations (st_energy c)) (d_Id d) = Some d"
    using g recs_okD(1) [OF ok] by (simp add: GetDelegation_def)
  have ix: "kv_get (e_by_expiry (st_energy c)) (u64_of_i64 (d_ExpiresAt d), d_Id d) = Some ()"
    "kv_get (e_by_delegator (st_energy c)) (d_Delegator d, d_Id d) = Some ()"
    "kv_get (e_by_delegatee (st_energy c)) (d_Delegatee d, d_Id d) = Some ()"
    using ok g' by (auto simp: recs_ok_def index_ok_def)
  have "kv_inv (e_delegations (st_energy c))" "kv_inv (e_by_expiry (st_energy c))" "kv_inv (e_by_delegator (st_energy c))"
    "kv_inv (e_by_delegatee (st_energy c))"
    using ok by (simp_all add: recs_ok_def)
  then show ?thesis
    using g' ix by (simp add: setDelegation_def upd_energy_def kv_set_set kv_set_same)
qed

lemma refund_loop_stop: "\<not> u < target \<Longrightarrow> refund_loop cs target u c = (u, c)"
  by (cases cs) auto

lemma refund_loop_append:
  "refund_loop (xs @ ys) target u c = (case refund_loop xs target u c of (u', c') \<Rightarrow> refund_loop ys target u' c')"
  by (induction xs target u c rule: refund_loop.induct)
    (auto simp: Let_def refund_loop_stop split: option.split)

text \<open>One record, taken from and given back.\<close>

lemma refund_one:
  assumes ok: "recs_ok A (st_energy c)" and g: "GetDelegation c i = Some d"
    and t: "0 < t" "uint (d_Used d) + uint t \<le> uint (d_Amount d)" "uint u + uint t \<le> uint target"
  shows "refund_loop [(i, t)] target u (setDelegation (d\<lparr>d_Used := d_Used d + t\<rparr>) c) = (u + t, c)"
proof -
  let ?d = "d\<lparr>d_Used := d_Used d + t\<rparr>"
  have ut: "uint (d_Used d + t) = uint (d_Used d) + uint t"
    using t(2) uint_u64_less [of "d_Amount d"] by (intro uint_plus_u64) simp
  have lt: "u < target" using t by (simp add: word_less_def)
  then have "uint (target - u) = uint target - uint u" by (intro uint_minus_u64) simp
  then have "t \<le> target - u" "t \<le> d_Used d + t" using t(3) ut by (simp_all add: word_le_def)
  then have m: "minU64 (target - u) t = t" "\<not> d_Used d + t < t" by (simp_all add: minU64_eq)
  have "GetDelegation (setDelegation ?d c) i = Some ?d"
    using recs_okD(1) [OF ok] g by (simp add: GetDelegation_def kv_get_set)
  moreover have "setDelegation (?d\<lparr>d_Used := d_Used ?d - t\<rparr>) (setDelegation ?d c) = c"
    using setDelegation_undo [OF ok g] by simp
  ultimately show ?thesis using lt m t(1) by (simp add: Let_def word_gt_0)
qed

lemma refund_undoes:
  assumes "recs_ok A (st_energy c)" "distinct (map d_Id ds)"
    and "\<forall>d \<in> set ds. GetDelegation c (d_Id d) = Some d \<and> d_Used d < d_Amount d"
    and "attribute_loop rem0 ds = (rem', upd, att)" "uint u + taken att \<le> uint target"
  shows "\<exists>u'. uint u' = uint u + taken att \<and> refund_loop (rev att) target u (fold setDelegation upd c) = (u', c)"
  using assms
proof (induction ds arbitrary: rem0 c rem' upd att)
  case (Cons d ds)
  have g: "GetDelegation c (d_Id d) = Some d" and lt: "d_Used d < d_Amount d" using Cons.prems(3) by auto
  show ?case
  proof (cases "rem0 = 0")
    case False
    let ?t = "minU64 rem0 (d_Amount d - d_Used d)"
    let ?c1 = "setDelegation (d\<lparr>d_Used := d_Used d + ?t\<rparr>) c"
    obtain up a where l: "attribute_loop (rem0 - ?t) ds = (rem', up, a)"
      "upd = d\<lparr>d_Used := d_Used d + ?t\<rparr> # up" "att = (d_Id d, ?t) # a"
      using Cons.prems(4) False by (auto simp: Let_def split: prod.splits)
    have av: "uint (d_Amount d - d_Used d) = uint (d_Amount d) - uint (d_Used d)"
      using lt by (intro uint_minus_u64) simp
    have "d_Amount d - d_Used d \<noteq> 0" using lt by auto
    then have t0: "0 < ?t" using False by (auto simp: minU64_def word_gt_0)
    have t: "0 < ?t" "uint (d_Used d) + uint ?t \<le> uint (d_Amount d)" using t0 av by (simp_all add: uint_minU64)
    have ut: "uint (d_Used d + ?t) = uint (d_Used d) + uint ?t"
      using t(2) uint_u64_less [of "d_Amount d"] by (intro uint_plus_u64) simp
    have am: "d_Used d + ?t \<le> d_Amount d" using t(2) unfolding word_le_def ut .
    note su = set_used [OF Cons.prems(1) g am]
    have live: "\<forall>e \<in> set ds. GetDelegation ?c1 (d_Id e) = Some e \<and> d_Used e < d_Amount e"
    proof
      fix e assume e: "e \<in> set ds"
      then have "d_Id e \<noteq> d_Id d" using Cons.prems(2) by (auto simp: image_iff)
      then show "GetDelegation ?c1 (d_Id e) = Some e \<and> d_Used e < d_Amount e"
        using Cons.prems(3) e unfolding su(7) by simp
    qed
    have sum: "uint u + taken a + uint ?t \<le> uint target" using Cons.prems(5) by (simp add: l)
    then have "uint u + taken a \<le> uint target" using uint_ge_0 [of ?t] by linarith
    then obtain u1 where u1: "uint u1 = uint u + taken a"
        "refund_loop (rev a) target u (fold setDelegation up ?c1) = (u1, ?c1)"
      using Cons.IH [OF su(1) _ live l(1)] Cons.prems(2) by auto
    have "refund_loop [(d_Id d, ?t)] target u1 ?c1 = (u1 + ?t, c)"
      by (rule refund_one [OF Cons.prems(1) g t]) (use u1(1) sum in simp)
    moreover have "uint (u1 + ?t) = uint u1 + uint ?t"
      using u1(1) sum uint_u64_less [of target] by (intro uint_plus_u64) simp
    ultimately show ?thesis using u1 by (auto simp: l refund_loop_append)
  qed (use Cons.prems in auto)
qed auto

section \<open>Refunds\<close>

lemma SetEnergyAccount_twice:
  assumes "accounts_ok (st_energy c)" "Address a = Address b"
  shows "SetEnergyAccount a (SetEnergyAccount b c) = SetEnergyAccount a c"
  using assms by (simp add: SetEnergyAccount_def upd_energy_def kv_set_set accounts_ok_def)

lemma setDelegation_account: "setDelegation d (SetEnergyAccount a c) = SetEnergyAccount a (setDelegation d c)"
  by (simp add: setDelegation_def SetEnergyAccount_def upd_energy_def)

lemma refund_loop_account:
  "refund_loop cs target u (SetEnergyAccount a c) = (case refund_loop cs target u c of (u', c') \<Rightarrow> (u', SetEnergyAccount a c'))"
proof (induction cs target u c rule: refund_loop.induct)
  case (2 i amt cs target u c)
  have "GetDelegation (SetEnergyAccount a c) i = GetDelegation c i" by (simp add: GetDelegation_def)
  then show ?case using 2 by (auto simp: Let_def setDelegation_account split: option.split)
qed simp

lemma attribution_undone:
  assumes inv: "energy_inv K c" and att: "attributeDelegatedConsumption K c signer del = Inr (att, c')" "taken att = uint del" "del \<noteq> 0"
  shows "refund_loop (rev att) del 0 (SetEnergyAccount a c') = (del, SetEnergyAccount a c)"
proof -
  let ?ds = "inbound_candidates c (acc_string (codec K) signer)"
  obtain rem' upd att' where l: "attribute_loop del ?ds = (rem', upd, att')" by (metis surj_pair)
  have e: "att' = att" "c' = fold setDelegation upd c" using att(1,3) l by (auto simp: attributeDelegatedConsumption_def Let_def split: if_splits)
  note ok = energy_invD(2) [OF inv]
  have "\<forall>d \<in> set ?ds. GetDelegation c (d_Id d) = Some d \<and> d_Used d < d_Amount d"
    using inbound_live(1) [OF ok] candidates(1) [OF ok] by auto
  from refund_undoes [OF ok candidates(2) [OF ok] this l [unfolded e(1)], of 0 del]
  obtain u where "uint u = uint del" "refund_loop (rev att) del 0 c' = (u, c)" using att(2) e(2) by auto
  then show ?thesis by (simp add: refund_loop_account word_uint_eq_iff)
qed

lemma saturatingAdd_sub: "b \<le> a \<Longrightarrow> saturatingAdd (a - b) b = a"
  using unat_u64_less [of a] by (simp add: word_unat_eq_iff saturatingAdd_unat unat_sub_le word_le_nat_alt)

text \<open>C12: A refund undoes a consumption: giving back all that a consumption drew from the signer's own and delegated energy leaves every
  delegation record as it was and the account as it was after settling, but for the deploy energy, which is not refunded.  The
  settled energy has to be within the capacity, to which a refund clamps it.\<close>

theorem consume_refund_restores:
  assumes inv: "energy_inv K c" and con: "Consume K c signer g isDeploy urls = Inr (res, c')"
    and on: "\<not> Free res" "EnergyEnabled (energy_GetParams c)" "g \<noteq> 0"
    and s: "Settle K c signer = (acct, c1)" and cap: "TxEnergyAccrued acct \<le> TxEnergyCapacity (LastBalanceSnapshot acct) (energy_GetParams c)"
  shows "RefundEnergy K c' signer (saturatingAdd (OwnDeducted res) (DelegatedDeducted res)) res =
    SetEnergyAccount (acct\<lparr>DeployEnergyAccrued := DeployEnergyAccrued acct - DeployEnergyUsed res\<rparr>) c1"
proof -
  let ?k = "acc_string (codec K) signer"
  obtain d own del short where dr: "drawn acct g isDeploy = (d, own, del, short)" by (metis surj_pair)
  have sub: "\<not> allSubsidized (energy_GetParams c) urls" using con on(1) by (auto simp: Consume_def)
  obtain att c2 where att: "attributeDelegatedConsumption K c1 signer del = Inr (att, c2)" "taken att = uint del"
    and c: "Consume K c signer g isDeploy urls =
       Inr (\<lparr> EnergyDeducted = own + del, OwnDeducted = own, DelegatedDeducted = del, DeployEnergyUsed = d,
              ShortfallGas = short, Free = False, DelegationConsumptions = att \<rparr>,
            SetEnergyAccount (acct\<lparr>DeployEnergyAccrued := DeployEnergyAccrued acct - d,
              TxEnergyAccrued := TxEnergyAccrued acct - own, DelegatedInUsable := DelegatedInUsable acct - del\<rparr>) c2)"
    by (rule Consume_result [OF inv sub on(2,3) s dr])
  define spent where "spent = acct\<lparr>DeployEnergyAccrued := DeployEnergyAccrued acct - d,
      TxEnergyAccrued := TxEnergyAccrued acct - own, DelegatedInUsable := DelegatedInUsable acct - del\<rparr>"
  have r: "OwnDeducted res = own" "DelegatedDeducted res = del" "DeployEnergyUsed res = d" "DelegationConsumptions res = att"
    and c': "c' = SetEnergyAccount spent c2" using con c by (auto simp: spent_def)
  note st = Settle_kept [OF inv s]
  have inv1: "energy_inv K c1" using st(1) by (simp add: kept_def)
  note t = drawn_total [OF dr]
  have undo: "refund_loop (rev att) del 0 c' = (del, SetEnergyAccount spent c1)" if "del \<noteq> 0"
    unfolding c' by (rule attribution_undone [OF inv1 att that])
  let ?A = "saturatingAdd own del" and ?X = "SetEnergyAccount spent c1"
  have amt: "unat ?A = unat own + unat del"
    using t(1) unat_u64_less [of g] by (simp add: saturatingAdd_unat)
  have m: "minU64 ?A del = del" "minU64 (?A - del) own = own"
    using amt by (simp_all add: word_unat_eq_iff unat_sub_le word_le_nat_alt)
  have addr: "Address spent = ?k" using st(4) by (simp add: spent_def)
  have zero: "att = [] \<and> c2 = c1" if "del = 0" using att(1) that by (simp add: attributeDelegatedConsumption_def)
  have "e_params (st_energy ?X) = e_params (st_energy c)" using st(5) by (simp add: same_books_def SetEnergyAccount_def)
  then have params: "energy_GetParams ?X = energy_GetParams c" by (simp add: energy_GetParams_def)
  have final: "SetEnergyAccount (spent\<lparr>DelegatedInUsable := DelegatedInUsable acct, TxEnergyAccrued := TxEnergyAccrued acct\<rparr>) ?X =
      SetEnergyAccount (acct\<lparr>DeployEnergyAccrued := DeployEnergyAccrued acct - d\<rparr>) c1"
    using energy_invD(1) [OF inv1] by (subst SetEnergyAccount_twice) (simp_all add: spent_def)
  show ?thesis
  proof (cases "?A = 0")
    case True
    then have "own = 0" "del = 0" using amt by (simp_all add: unat_eq_0)
    then show ?thesis using True zero by (simp add: RefundEnergy_def r c' spent_def)
  next
    case False
    have pair: "(if 0 < del then case refund_loop (rev att) del 0 c' of (undone, c) \<Rightarrow>
          (spent\<lparr>DelegatedInUsable := saturatingAdd (DelegatedInUsable spent) undone\<rparr>, c) else (spent, c')) =
        (spent\<lparr>DelegatedInUsable := DelegatedInUsable acct\<rparr>, ?X)"
      using undo zero t(5) c' by (auto simp: word_gt_0 saturatingAdd_sub spent_def)
    have own: "(if own > 0 then (spent\<lparr>DelegatedInUsable := DelegatedInUsable acct\<rparr>)\<lparr>TxEnergyAccrued :=
          minU64 (saturatingAdd (TxEnergyAccrued (spent\<lparr>DelegatedInUsable := DelegatedInUsable acct\<rparr>)) own)
            (TxEnergyCapacity (LastBalanceSnapshot (spent\<lparr>DelegatedInUsable := DelegatedInUsable acct\<rparr>)) (energy_GetParams c))\<rparr>
        else spent\<lparr>DelegatedInUsable := DelegatedInUsable acct\<rparr>) =
      spent\<lparr>DelegatedInUsable := DelegatedInUsable acct, TxEnergyAccrued := TxEnergyAccrued acct\<rparr>"
      using t(3) cap by (auto simp: word_gt_0 saturatingAdd_sub spent_def minU64_eq min_absorb1)
    have "GetEnergyAccount K c' signer = spent" by (simp add: c' Get_set [OF addr])
    then show ?thesis unfolding RefundEnergy_def r Let_def
      by (simp only: m False less_irrefl if_False pair prod.case params own final)
  qed
qed

section \<open>Waiting\<close>

text \<open>The context of a settlement of one account at a time.\<close>

definition settle_at :: "'x sdk \<Rightarrow> addr \<Rightarrow> int \<Rightarrow> 'x ctx \<Rightarrow> 'x ctx" where
  "settle_at K a t c = snd (Settle K (c\<lparr>block_time := t\<rparr>) a)"

lemma settle_at_account:
  assumes ok: "accounts_ok (st_energy c)" and t: "LastUpdatedTime (GetEnergyAccount K c a) \<noteq> 0" "LastUpdatedTime (GetEnergyAccount K c a) \<le> t"
  shows "GetEnergyAccount K (settle_at K a t c) a = (let acct = GetEnergyAccount K c a in
      if t = LastUpdatedTime acct then acct else (settle_refill (energy_GetParams c) t acct)\<lparr>LastUpdatedTime := t\<rparr>)"
    "energy_GetParams (settle_at K a t c) = energy_GetParams c" "accounts_ok (st_energy (settle_at K a t c))"
proof -
  let ?c = "c\<lparr>block_time := t\<rparr>"
  have g: "GetEnergyAccount K ?c a = GetEnergyAccount K c a" "energy_GetParams ?c = energy_GetParams c" "accounts_ok (st_energy ?c)"
    using ok by (simp_all add: GetEnergyAccount_def energy_GetParams_def)
  have s: "GetEnergyAccount K (settle_at K a t c) a = fst (Settle K ?c a)" unfolding settle_at_def by (rule Settle_stored [OF g(3)])
  show "GetEnergyAccount K (settle_at K a t c) a = (let acct = GetEnergyAccount K c a in
      if t = LastUpdatedTime acct then acct else (settle_refill (energy_GetParams c) t acct)\<lparr>LastUpdatedTime := t\<rparr>)"
    unfolding s using t by (simp add: Settle_def g Let_def)
  have "same_books (st_energy c) (st_energy (settle_at K a t c))" using Settle_books [OF g(3), of K a] by (simp add: settle_at_def)
  then show "energy_GetParams (settle_at K a t c) = energy_GetParams c" "accounts_ok (st_energy (settle_at K a t c))"
    using ok by (simp_all add: same_books_def energy_GetParams_def)
qed

text \<open>The energy of an account that waited from its last update until \<open>t\<close>.\<close>

definition refilled :: "nat \<Rightarrow> nat \<Rightarrow> nat \<Rightarrow> nat \<Rightarrow> nat" where
  "refilled window cap old elapsed = (if old < cap then min cap (old + accrual window cap elapsed) else old)"

lemma refilled_split:
  assumes "0 < window" "(e1 + e2) * cap < 2 ^ 64"
  shows "refilled window cap (refilled window cap old e1) e2 \<le> refilled window cap old (e1 + e2)"
  using accrual_split [OF assms(1), of cap e1 e2] assms(2) by (auto simp: refilled_def)

lemma refilled_full:
  assumes "0 < window" "window \<le> e" "e * cap < 2 ^ 64"
  shows "cap \<le> refilled window cap old e"
proof -
  have "cap * window \<le> min (e * cap) (2 ^ 64 - 1)" using assms(2,3) by (simp add: mult.commute mult_le_mono1)
  then have "cap \<le> accrual window cap e" using assms(1) by (simp add: accrual_def less_eq_div_iff_mult_less_eq)
  then show ?thesis by (simp add: refilled_def)
qed

lemma refilled_bounds: "old \<le> refilled window cap old e" "refilled window cap old e \<le> max old cap"
  by (simp_all add: refilled_def)

lemma refilled_mono: "e1 \<le> e2 \<Longrightarrow> refilled window cap old e1 \<le> refilled window cap old e2"
proof -
  assume "e1 \<le> e2"
  then have "min (e1 * cap) (2 ^ 64 - 1) \<le> min (e2 * cap) (2 ^ 64 - 1)" by (intro min.mono mult_le_mono1) simp_all
  then have "accrual window cap e1 \<le> accrual window cap e2" unfolding accrual_def by (rule div_le_mono)
  then show ?thesis by (auto simp: refilled_def)
qed

lemma settle_at_energy:
  assumes "accounts_ok (st_energy c)" "LastUpdatedTime (GetEnergyAccount K c a) \<noteq> 0" "LastUpdatedTime (GetEnergyAccount K c a) \<le> t"
    and "in_int64 (t - LastUpdatedTime (GetEnergyAccount K c a))"
    and "0 < TxEnergyMaxAccrueWindow (energy_GetParams c)" "TxEnergyMaxAccrueWindow (energy_GetParams c) < 2 ^ 63"
  shows "unat (TxEnergyAccrued (GetEnergyAccount K (settle_at K a t c) a)) =
    refilled (nat (TxEnergyMaxAccrueWindow (energy_GetParams c)))
      (unat (TxEnergyCapacity (LastBalanceSnapshot (GetEnergyAccount K c a)) (energy_GetParams c)))
      (unat (TxEnergyAccrued (GetEnergyAccount K c a))) (nat (t - LastUpdatedTime (GetEnergyAccount K c a)))"
    "LastUpdatedTime (GetEnergyAccount K (settle_at K a t c) a) = t"
    "LastBalanceSnapshot (GetEnergyAccount K (settle_at K a t c) a) = LastBalanceSnapshot (GetEnergyAccount K c a)"
  using settle_refill_tx_unat [OF assms(3-6)] by (simp_all add: settle_at_account [OF assms(1-3)] Let_def refilled_def accrual_def)

text \<open>C25: Settling lazily neither loses nor gains energy for a holder who waits: settling in between gives no more than settling once at
  the end, energy never falls by waiting, it never exceeds the larger of what the account had and its capacity, and an account that waited the full window
  is at its capacity, as long as the product of the capacity and the waiting time fits 64 bits.\<close>

theorem waiting_gains:
  fixes K :: "'x sdk" and c :: "'x ctx" and a :: addr
  defines "acct \<equiv> GetEnergyAccount K c a" and "p \<equiv> energy_GetParams c"
    and "energy \<equiv> \<lambda>x. unat (TxEnergyAccrued (GetEnergyAccount K x a))"
  defines "cap \<equiv> unat (TxEnergyCapacity (LastBalanceSnapshot acct) p)"
  assumes ok: "accounts_ok (st_energy c)" and last: "0 < LastUpdatedTime acct" "LastUpdatedTime acct \<le> t1" "t1 \<le> t2" "in_int64 t2"
    and p: "0 < TxEnergyMaxAccrueWindow p" "TxEnergyMaxAccrueWindow p < 2 ^ 63"
    and small: "nat (t2 - LastUpdatedTime acct) * cap < 2 ^ 64"
  shows "energy (settle_at K a t2 (settle_at K a t1 c)) \<le> energy (settle_at K a t2 c) \<and>
    energy c \<le> energy (settle_at K a t1 c) \<and> energy (settle_at K a t1 c) \<le> energy (settle_at K a t2 c) \<and>
    energy (settle_at K a t2 c) \<le> max (energy c) cap \<and>
    (TxEnergyMaxAccrueWindow p \<le> t2 - LastUpdatedTime acct \<longrightarrow> cap \<le> energy (settle_at K a t2 c))"
proof -
  let ?t0 = "LastUpdatedTime acct" and ?w = "nat (TxEnergyMaxAccrueWindow p)"
  have i: "in_int64 (t1 - ?t0)" "in_int64 (t2 - ?t0)" "in_int64 (t2 - t1)" using last by (auto simp: in_int64_def)
  note e1 = settle_at_energy [of c K a t1, folded acct_def p_def cap_def, OF ok _ last(2) i(1) p]
  note e2 = settle_at_energy [of c K a t2, folded acct_def p_def cap_def, OF ok _ _ i(2) p]
  have s1: "accounts_ok (st_energy (settle_at K a t1 c))" "energy_GetParams (settle_at K a t1 c) = p"
    using settle_at_account(2,3) [OF ok, of K a t1] last by (simp_all add: acct_def p_def)
  note e12 = settle_at_energy [of "settle_at K a t1 c" K a t2, unfolded s1(2), OF s1(1)]
  have r: "energy (settle_at K a t1 c) = refilled ?w cap (energy c) (nat (t1 - ?t0))"
    "energy (settle_at K a t2 c) = refilled ?w cap (energy c) (nat (t1 - ?t0) + nat (t2 - t1))"
    using e1(1) e2(1) last by (simp_all add: energy_def acct_def cap_def flip: nat_add_distrib)
  have "energy (settle_at K a t2 (settle_at K a t1 c)) = refilled ?w cap (energy (settle_at K a t1 c)) (nat (t2 - t1))"
    using e12(1) e1(2,3) last i(3) p by (simp add: energy_def cap_def)
  moreover have "(nat (t1 - ?t0) + nat (t2 - t1)) * cap < 2 ^ 64" using small last by (simp flip: nat_add_distrib)
  moreover have "?w \<le> nat (t1 - ?t0) + nat (t2 - t1)" if "TxEnergyMaxAccrueWindow p \<le> t2 - ?t0"
    using nat_mono [OF that] last by (simp flip: nat_add_distrib)
  moreover have "0 < ?w" using p by simp
  ultimately show ?thesis unfolding r
    using refilled_split [of ?w "nat (t1 - ?t0)" "nat (t2 - t1)" cap "energy c"] refilled_full [of ?w "nat (t1 - ?t0) + nat (t2 - t1)" cap "energy c"]
      refilled_bounds(1) [of "energy c" ?w cap] refilled_bounds(2) [of ?w cap "energy c"]
    by (simp add: refilled_mono)
qed

section \<open>Expired delegations\<close>

lemma lock_covered:
  assumes inv: "energy_inv K c" and g: "GetDelegation c i = Some d"
  shows "d_LockedAtos d \<le> pool_balance K c"
proof -
  let ?m = "e_delegations (st_energy c)"
  have "kv.total (\<lambda>(_, d). d_LockedAtos d) (kv_del i ?m) = lock_total (st_energy c) - d_LockedAtos d"
    using total_remove [OF recs_ok_inv [OF energy_invD(2) [OF inv]], of i d] g by (simp add: GetDelegation_def lock_total_def)
  moreover have "0 \<le> kv.total (\<lambda>(_, d). d_LockedAtos d) (kv_del i ?m)"
  proof -
    have "record_ok (codec K) (next_id (st_energy c)) e" if "e \<in> set (kv_del i ?m)" for e
      using energy_invD(2) [OF inv] set_kv_del_subset [of i ?m] that by (auto simp: recs_ok_def)
    then show ?thesis unfolding kv.total_def by (intro sum_list_nonneg) (force simp: record_ok_def)
  qed
  ultimately show ?thesis using energy_invD(4) [OF inv] by linarith
qed

text \<open>The refund of a release, from the state after the delegator's write.\<close>

definition release_refund :: "'x sdk \<Rightarrow> 'x hook \<Rightarrow> energy_delegation \<Rightarrow> addr \<Rightarrow> 'x ctx \<Rightarrow> 'x ctx result" where
  "release_refund K H d a c = (let (da, c1) = Settle K c a; c2 = SetEnergyAccount (release_delegator d da) c1 in
     if d_LockedAtos d > 0
     then bindR (new_coins (base_denom K) (d_LockedAtos d)) (\<lambda>coins. send_from_module K H c2 LockedEnergyPoolName a coins)
     else Inr c2)"

lemma release_refunded:
  assumes laws: "sdk_laws K" and inv: "energy_inv K c" and g: "GetDelegation c i = Some d"
    and a: "acc_from_bech32 (codec K) (d_Delegator d) = Some a" and paid: "release_refund K (app_hook K) d a c = Inr c3"
  obtains c' where "releaseDelegation K (app_hook K) c d = (None, c')"
    "\<And>j. GetDelegation c' j = (if j = i then None else GetDelegation c j)"
    "\<And>b. balance K c' b (base_denom K) = balance K c b (base_denom K) - (if b = pool K then d_LockedAtos d else 0) + (if b = a then d_LockedAtos d else 0)"
proof -
  have g': "kv_get (e_delegations (st_energy c)) i = Some d" using g by (simp add: GetDelegation_def)
  note r = recs_okD [OF energy_invD(2) [OF inv] g'] and b = sdk_lawsD(1) [OF laws]
  obtain delegatee where p: "acc_from_bech32 (codec K) (d_Delegatee d) = Some delegatee" using r(6) by (auto simp: canonical_def)
  obtain da c1 where s: "Settle K c a = (da, c1)" by fastforce
  let ?c2 = "SetEnergyAccount (release_delegator d da) c1"
  note f = release_first [OF inv g a s]
  have c3: "same_books (st_energy ?c2) (st_energy c3)"
    "balance K c3 b (base_denom K) = balance K c b (base_denom K) - (if b = pool K then d_LockedAtos d else 0) + (if b = a then d_LockedAtos d else 0)" for b
  proof -
    have "same_books (st_energy ?c2) (st_energy c3) \<and> balance K c3 b (base_denom K) =
        balance K ?c2 b (base_denom K) - (if b = pool K then d_LockedAtos d else 0) + (if b = a then d_LockedAtos d else 0)" for b
    proof (cases "d_LockedAtos d > 0")
      case True
      then have "send_from_module K (app_hook K) ?c2 LockedEnergyPoolName a [(base_denom K, d_LockedAtos d)] = Inr c3"
        using paid s by (simp add: release_refund_def new_coins_def)
      note send = send_from_module_InrD [OF \<open>bank_laws K\<close> this]
      show ?thesis using app.send_books(1) [OF laws f(4) send] base_send(5) [OF laws send] by simp
    qed (use r(4) paid s in \<open>simp add: release_refund_def\<close>)
    then show "same_books (st_energy ?c2) (st_energy c3)"
      "balance K c3 b (base_denom K) = balance K c b (base_denom K) - (if b = pool K then d_LockedAtos d else 0) + (if b = a then d_LockedAtos d else 0)" for b
      using f(2) by (simp_all add: frame_simps)
  qed
  obtain de c4 where s4: "Settle K c3 delegatee = (de, c4)" by fastforce
  have acc: "accounts_ok (st_energy c3)" and rec: "same_records (st_energy c) (st_energy c3)"
    using c3(1) f(3,4) by (simp_all add: same_books_def same_records_def)
  define c' where "c' = removeDelegation d (SetEnergyAccount (take_back d de) c4)"
  have "releaseDelegation K (app_hook K) c d = (None, c')"
    using p a s s4 paid unfolding releaseDelegation_def Let_def release_refund_def take_back_def c'_def by simp
  moreover have "frame c3 c'" unfolding c'_def
    by (rule frame_trans [OF settle_write(4) [OF acc s4 take_back_simps(1) [of d]] removeDelegation_simps(9)])
  moreover have "GetDelegation c' j = (if j = i then None else GetDelegation c j)" for j
    using Settle_books [OF acc, of K delegatee] rec s4 r(1)
    by (auto simp: c'_def GetDelegation_def kv_get_del same_books_def same_records_def)
  ultimately show ?thesis using that [of c'] c3(2) by (simp add: frame_simps)
qed

lemma refund_succeeds:
  assumes laws: "sdk_laws K" and inv: "energy_inv K c" and g: "GetDelegation c i = Some d"
    and reg: "module_registered K LockedEnergyPoolName" and a: "acc_from_bech32 (codec K) (d_Delegator d) = Some a" "\<not> blocked_addr K a"
  obtains c3 where "release_refund K (app_hook K) d a c = Inr c3"
proof -
  obtain da c1 where s: "Settle K c a = (da, c1)" by fastforce
  note f = release_first(2) [OF inv g a(1) s]
  show ?thesis
  proof (cases "d_LockedAtos d > 0")
    case True
    have "d_LockedAtos d \<le> balance K (SetEnergyAccount (release_delegator d da) c1) (pool K) (base_denom K)"
      using lock_covered [OF inv g] f by (simp add: pool_balance_def frame_simps)
    then obtain c3 where "send_coins K (app_hook K) (SetEnergyAccount (release_delegator d da) c1) (pool K) a [(base_denom K, d_LockedAtos d)] = Inr c3"
      using module_send_succeeds [OF laws True] by metis
    then show ?thesis using that True reg a(2) s by (simp add: release_refund_def new_coins_def send_from_module_eq [OF sdk_lawsD(1) [OF laws]])
  qed (use that s in \<open>simp add: release_refund_def\<close>)
qed

text \<open>A release that fails leaves the records and the balances alone.\<close>

lemma release_fails:
  assumes inv: "energy_inv K c" and g: "GetDelegation c i = Some d" and rel: "releaseDelegation K H c d = (Some e, c')"
  shows "GetDelegation c' j = GetDelegation c j" "ext c' = ext c"
proof -
  have g': "kv_get (e_delegations (st_energy c)) i = Some d" using g by (simp add: GetDelegation_def)
  note r = recs_okD [OF energy_invD(2) [OF inv] g']
  obtain a b where p: "acc_from_bech32 (codec K) (d_Delegator d) = Some a" "acc_from_bech32 (codec K) (d_Delegatee d) = Some b"
    using r(5,6) by (auto simp: canonical_def)
  obtain da c1 where s: "Settle K c a = (da, c1)" by fastforce
  note f = release_first [OF inv g p(1) s]
  have "c' = SetEnergyAccount (release_delegator d da) c1"
    using rel p s by (auto simp: releaseDelegation_def Let_def split: sum.splits prod.splits)
  then show "GetDelegation c' j = GetDelegation c j" "ext c' = ext c"
    using f(2,3) by (simp_all add: GetDelegation_def same_records_def frame_simps)
qed

lemma release_moves:
  assumes laws: "sdk_laws K" and inv: "energy_inv K c" and g: "GetDelegation c i = Some d"
    and rel: "releaseDelegation K (app_hook K) c d = (e, c')"
  shows "energy_inv K c'" "GetDelegation c' j = GetDelegation c j \<or> GetDelegation c' j = None \<and> j = i"
    "b \<noteq> pool K \<Longrightarrow> balance K c b (base_denom K) \<le> balance K c' b (base_denom K)"
proof -
  show "energy_inv K c'" using app.release_kept [OF laws inv g rel] by (simp add: kept_def)
  have g': "kv_get (e_delegations (st_energy c)) i = Some d" using g by (simp add: GetDelegation_def)
  note r = recs_okD [OF energy_invD(2) [OF inv] g']
  obtain a where a: "acc_from_bech32 (codec K) (d_Delegator d) = Some a" using r(5) by (auto simp: canonical_def)
  have "(GetDelegation c' j = GetDelegation c j \<or> GetDelegation c' j = None \<and> j = i) \<and>
    (b \<noteq> pool K \<longrightarrow> balance K c b (base_denom K) \<le> balance K c' b (base_denom K))"
  proof (cases "release_refund K (app_hook K) d a c")
    case (Inr c3)
    show ?thesis by (rule release_refunded [OF laws inv g a Inr]) (use rel r(4) in simp)
  next
    case (Inl e')
    then have "e = Some e'"
      using rel a r(6) by (auto simp: releaseDelegation_def release_refund_def canonical_def Let_def split: prod.splits)
    then show ?thesis using release_fails [OF inv g] rel by simp
  qed
  then show "GetDelegation c' j = GetDelegation c j \<or> GetDelegation c' j = None \<and> j = i"
    "b \<noteq> pool K \<Longrightarrow> balance K c b (base_denom K) \<le> balance K c' b (base_denom K)" by simp_all
qed

lemma sweep_moves:
  assumes laws: "sdk_laws K" and inv: "energy_inv K c"
  shows "(GetDelegation (sweep_loop K (app_hook K) ids c) j = GetDelegation c j \<or> GetDelegation (sweep_loop K (app_hook K) ids c) j = None) \<and>
    (b \<noteq> pool K \<longrightarrow> balance K c b (base_denom K) \<le> balance K (sweep_loop K (app_hook K) ids c) b (base_denom K))"
  using inv
proof (induction ids arbitrary: c)
  case (Cons i ids)
  show ?case
  proof (cases "GetDelegation c i")
    case (Some d)
    obtain e c1 where r: "releaseDelegation K (app_hook K) c d = (e, c1)" by fastforce
    note m = release_moves [OF laws Cons.prems Some r]
    show ?thesis using Cons.IH [OF m(1)] m(2) [of j] m(3) [of b] Some r by auto
  qed (use Cons in simp)
qed simp

lemma sweep_releases:
  assumes laws: "sdk_laws K" and reg: "module_registered K LockedEnergyPoolName" and inv: "energy_inv K c"
    and g: "GetDelegation c i = Some d" "i \<in> set ids"
    and a: "acc_from_bech32 (codec K) (d_Delegator d) = Some a" "\<not> blocked_addr K a" "a \<noteq> pool K"
  shows "GetDelegation (sweep_loop K (app_hook K) ids c) i = None \<and>
    balance K c a (base_denom K) + d_LockedAtos d \<le> balance K (sweep_loop K (app_hook K) ids c) a (base_denom K)"
  using inv g
proof (induction ids arbitrary: c)
  case (Cons j ids)
  show ?case
  proof (cases "j = i")
    case True
    obtain c3 where c3: "release_refund K (app_hook K) d a c = Inr c3" by (rule refund_succeeds [OF laws Cons.prems(1,2) reg a(1,2)])
    obtain c1 where c1: "releaseDelegation K (app_hook K) c d = (None, c1)" "GetDelegation c1 i = None"
      "balance K c1 a (base_denom K) = balance K c a (base_denom K) + d_LockedAtos d"
      by (rule release_refunded [OF laws Cons.prems(1,2) a(1) c3]) (use a(3) in simp)
    show ?thesis using sweep_moves [OF laws release_moves(1) [OF laws Cons.prems(1,2) c1(1)], of ids i a] c1 a(3) Cons.prems(2) True by auto
  next
    case False
    show ?thesis
    proof (cases "GetDelegation c j")
      case (Some d')
      obtain e c1 where r: "releaseDelegation K (app_hook K) c d' = (e, c1)" by fastforce
      note m = release_moves [OF laws Cons.prems(1) Some r]
      have "GetDelegation c1 i = Some d" using m(2) [of i] Cons.prems(2) False by auto
      then show ?thesis using Cons.IH [OF m(1)] Cons.prems(3) m(3) [of a] a(3) False Some r by fastforce
    qed (use Cons False in auto)
  qed
qed simp

lemma sweep_ids_expired:
  assumes ok: "recs_ok A (st_energy c)" and g: "GetDelegation c i = Some d" and e: "0 \<le> d_ExpiresAt d" "d_ExpiresAt d \<le> now" "now < 2 ^ 63"
  shows "i \<in> set (sweep_ids now (e_by_expiry (st_energy c)))"
proof -
  let ?ix = "e_by_expiry (st_energy c)" and ?e = "u64_of_i64 (d_ExpiresAt d)" and ?P = "\<lambda>((e :: u64, _ :: u64), _ :: unit). i64_of_u64 e \<le> now"
  have inv: "kv_inv ?ix" and mem: "((?e, i), ()) \<in> set ?ix"
    using ok g by (auto simp: recs_ok_def index_ok_def GetDelegation_def kv_entry_iff)
  obtain xs ys where ix: "?ix = xs @ ((?e, i), ()) # ys" using split_list [OF mem] by blast
  have u: "uint ?e = d_ExpiresAt d" using e by (simp add: uint_u64_of_i64)
  have "?P x" if "x \<in> set (xs @ [((?e, i), ())])" for x
  proof -
    have "fst x \<le> (?e, i)" using that inv unfolding ix kv_inv_def by (auto simp: sorted_wrt_append less_imp_le)
    then have "fst (fst x) \<le> ?e" by (cases x) (auto simp: less_eq_prod_def)
    then have "uint (fst (fst x)) \<le> d_ExpiresAt d" by (simp add: word_le_def u)
    moreover from this have "i64_of_u64 (fst (fst x)) = uint (fst (fst x))" using e by (intro i64_of_u64_small) simp
    ultimately show ?thesis using e by (auto split: prod.splits)
  qed
  then have "takeWhile ?P ?ix = (xs @ [((?e, i), ())]) @ takeWhile ?P ys"
    unfolding ix using takeWhile_append2 [of "xs @ [((?e, i), ())]" ?P ys] by simp
  then show ?thesis unfolding sweep_ids_def by simp
qed

text \<open>C13: An expired delegation ends: while the module is enabled, the end of the block after its expiry removes its record and the delegator's balance
  grows by at least the ATOS locked for it, whatever else the block releases, unless the bank blocks the delegator's address.\<close>

theorem expired_delegation_returns:
  assumes laws: "sdk_laws K" and reg: "module_registered K LockedEnergyPoolName" and safe: "energy_safe K c R"
    and on: "EnergyEnabled (energy_GetParams c)" and g: "GetDelegation c i = Some d"
    and expired: "0 \<le> d_ExpiresAt d" "d_ExpiresAt d \<le> block_time c" "block_time c < 2 ^ 63"
    and a: "acc_from_bech32 (codec K) (d_Delegator d) = Some a" "\<not> blocked_addr K a" "a \<noteq> module_address K LockedEnergyPoolName"
  shows "GetDelegation (energy_EndBlocker K (app_hook K) c) i = None \<and>
    balance K c a (base_denom K) + d_LockedAtos d \<le> balance K (energy_EndBlocker K (app_hook K) c) a (base_denom K)"
proof -
  have inv: "energy_inv K c" and R: "markers_in (codec K) (st_energy c) R" "issued_ok (st_energy c) R"
    using safe by (simp_all add: energy_safe_def)
  let ?c1 = "SweepExpiredDelegations K (app_hook K) c"
  have s: "GetDelegation ?c1 i = None \<and> balance K c a (base_denom K) + d_LockedAtos d \<le> balance K ?c1 a (base_denom K)"
    unfolding SweepExpiredDelegations_def
    by (rule sweep_releases [OF laws reg inv g sweep_ids_expired [OF energy_invD(2) [OF inv] g expired] a])
  have k: "kept K c ?c1" "set (e_pending (st_energy ?c1)) = set (e_pending (st_energy c))"
    using app.sweep_kept [OF laws inv] by (simp_all add: SweepExpiredDelegations_def)
  have i: "energy_inv K ?c1" "ids_kept (st_energy c) (st_energy ?c1)" using k(1) by (simp_all add: kept_def)
  have "markers_in (codec K) (st_energy ?c1) R" "issued_ok (st_energy ?c1) R"
    using R k(2) issued_kept [OF i(2)] by (simp_all add: markers_in_def)
  note f = refundFailed_kept [OF i(1) this]
  have "i < next_id (st_energy ?c1)"
    using recs_okD(2) [OF energy_invD(2) [OF inv]] g i(2) by (auto simp: GetDelegation_def ids_kept_def intro: less_le_trans)
  moreover have "ids_kept (st_energy ?c1) (st_energy (refundFailedTxReservations K ?c1))" using f by (simp add: kept_def)
  ultimately have "GetDelegation (refundFailedTxReservations K ?c1) i = None"
    using s unfolding GetDelegation_def by (metis ids_keptD not_None_eq)
  then show ?thesis using s f on frame_simps(1) [of ?c1 "refundFailedTxReservations K ?c1"] by (simp add: energy_EndBlocker_def)
qed

section \<open>Transfers and the snapshot\<close>

lemma stakedAtos_nonneg: "0 \<le> stakedAtos K c a"
  by (auto simp: stakedAtos_def Let_def split: sum.split)

lemma stakedAtos_same: "same_rest K (ext c) (ext c') \<Longrightarrow> stakedAtos K c' a = stakedAtos K c a"
  by (simp add: stakedAtos_def same_rest_def)

definition fresh_stake :: "'x sdk \<Rightarrow> 'x ctx \<Rightarrow> addr \<Rightarrow> bool" where
  "fresh_stake K c a \<longleftrightarrow> LastUpdatedTime (GetEnergyAccount K c a) = 0 \<or> StakedSnapshot (GetEnergyAccount K c a) = stakedAtos K c a"

lemma ApplyBalanceChange_account:
  assumes "accounts_ok (st_energy c)"
  shows "LastBalanceSnapshot (GetEnergyAccount K (ApplyBalanceChange K c a n) a) = max 0 n"
    "StakedSnapshot (GetEnergyAccount K (ApplyBalanceChange K c a n) a) =
      (if LastUpdatedTime (GetEnergyAccount K c a) = 0 then stakedAtos K c a else StakedSnapshot (GetEnergyAccount K c a))"
    "acc_string (codec K) b \<noteq> acc_string (codec K) a \<Longrightarrow> GetEnergyAccount K (ApplyBalanceChange K c a n) b = GetEnergyAccount K c b"
proof -
  obtain acct c1 where s: "Settle K c a = (acct, c1)" by fastforce
  have k: "Address acct = acc_string (codec K) a" using Settle_account(1) [OF assms, of K a] s by simp
  have st: "StakedSnapshot acct = (if LastUpdatedTime (GetEnergyAccount K c a) = 0 then stakedAtos K c a else StakedSnapshot (GetEnergyAccount K c a))"
    using s by (auto simp: Settle_def Let_def split: if_splits)
  let ?new = "cap_down (energy_GetParams c1) (max 0 n) (acct\<lparr>LastBalanceSnapshot := max 0 n, LastUpdatedTime := block_time c1\<rparr>)"
  have e: "ApplyBalanceChange K c a n = SetEnergyAccount ?new c1" by (simp add: ApplyBalanceChange_def s max_def)
  have "Address ?new = acc_string (codec K) a" using k by simp
  note g = Get_set [OF this, of c1]
  show "LastBalanceSnapshot (GetEnergyAccount K (ApplyBalanceChange K c a n) a) = max 0 n"
    "StakedSnapshot (GetEnergyAccount K (ApplyBalanceChange K c a n) a) =
      (if LastUpdatedTime (GetEnergyAccount K c a) = 0 then stakedAtos K c a else StakedSnapshot (GetEnergyAccount K c a))"
    using st by (simp_all add: e g)
  show "GetEnergyAccount K (ApplyBalanceChange K c a n) b = GetEnergyAccount K c b" if "acc_string (codec K) b \<noteq> acc_string (codec K) a"
    using that s k by (auto simp: e g Settle_def Let_def Get_set [of _ K a] split: if_splits)
qed

lemma nonBank_eligible:
  assumes "fresh_stake K c a"
  shows "nonBankTerms K c a (GetEnergyAccount K c a) = max 0 (LockedAtos (GetEnergyAccount K c a)) + stakedAtos K c a"
  using assms stakedAtos_nonneg [of K c a]
  by (auto simp: nonBankTerms_def fresh_stake_def cachedStakedAtos_def lockedAtosOf_def max_def)

lemma EligibleBalance_eq:
  "EligibleBalance K c a = balance K c a (base_denom K) + balance K c a AtoxBaseDenom + max 0 (LockedAtos (GetEnergyAccount K c a)) + stakedAtos K c a"
  by (simp add: EligibleBalance_def heldAtox_def Let_def)

text \<open>C26: A transfer of ATOS leaves both parties with the snapshot the energy module accrues on: their eligible balance
  after the transfer, although the restriction runs between the debit and the credit.  The cached stake has to be current, and it stays so.\<close>

theorem transfer_snapshot:
  assumes laws: "sdk_laws K" and ok: "accounts_ok (st_energy c)" and send: "send_coins K (app_hook K) c f t cs = Inr c'"
    and cs: "AmountOf cs AtoxBaseDenom = 0" "0 < AmountOf cs (base_denom K)" and ne: "f \<noteq> t"
    and stake: "fresh_stake K c f" "fresh_stake K c t"
  shows "LastBalanceSnapshot (GetEnergyAccount K c' f) = EligibleBalance K c' f \<and>
    LastBalanceSnapshot (GetEnergyAccount K c' t) = EligibleBalance K c' t \<and> fresh_stake K c' f \<and> fresh_stake K c' t"
proof -
  note bl = sdk_lawsD(1) [OF laws]
  obtain x1 t' c2 x3 where s: "bank_sub K (ext c) f cs = Inr x1" "app_hook K (c\<lparr>ext := x1\<rparr>) f t cs = Inr (t', c2)"
    "bank_add K (ext c2) t' cs = Inr x3" "c' = c2\<lparr>ext := x3\<rparr>"
    using send_coins_InrE [OF bl send] by metis
  let ?c0 = "c\<lparr>ext := x1\<rparr>"
  define ef where "ef = balance K ?c0 f (base_denom K) + balance K ?c0 f AtoxBaseDenom + nonBankTerms K ?c0 f (GetEnergyAccount K ?c0 f)"
  define c1 where "c1 = ApplyBalanceChange K ?c0 f ef"
  define et where "et = balance K ?c0 t (base_denom K) + balance K ?c0 t AtoxBaseDenom + AmountOf cs (base_denom K) +
      nonBankTerms K c1 t (GetEnergyAccount K ?c0 t)"
  have r: "energy_SendRestriction K ?c0 f t cs = Inr (t, ApplyBalanceChange K c1 t et)"
    using cs ne by (simp add: energy_SendRestriction_def Let_def c1_def ef_def et_def)
  have c2: "c2 = ApplyBalanceChange K c1 t et" "t' = t"
    using s(2) cs unfolding app_hook_eq [OF bl r] by (auto simp: atox_SendRestriction_def)
  have x: "ext c2 = x1" using restriction_frame(2) [OF r] c2 by (simp add: frame_simps)
  note sub = bank_sub_law [OF bl s(1)] and add = bank_add_law [OF bl s(3) [unfolded x c2(2)]]
  have strings: "acc_string (codec K) f \<noteq> acc_string (codec K) t" using inj_eq [OF sdk_lawsD(5) [OF laws]] ne by auto
  have ok0: "accounts_ok (st_energy ?c0)" using ok by simp
  have ok1: "accounts_ok (st_energy c1)" using ApplyBalanceChange_books(1) [OF ok0, of K f ef] ok0 by (simp add: c1_def same_books_def)
  have get: "GetEnergyAccount K ?c0 b = GetEnergyAccount K c b" "GetEnergyAccount K c' b = GetEnergyAccount K c2 b" for b
    by (simp_all add: GetEnergyAccount_def s(4))
  have x1: "ext c1 = x1" using frame_simps(1) [OF ApplyBalanceChange_books(2) [of ?c0 K f ef]] by (simp add: c1_def)
  have stk: "stakedAtos K ?c0 b = stakedAtos K c b" "stakedAtos K c1 b = stakedAtos K c b" "stakedAtos K c' b = stakedAtos K c b" for b
    using sub(1) add(1) by (simp_all add: stakedAtos_def same_rest_def x1 s(4))
  have fresh0: "fresh_stake K ?c0 f" "fresh_stake K ?c0 t" using stake by (simp_all add: fresh_stake_def get stk)
  have nb: "nonBankTerms K ?c0 f (GetEnergyAccount K c f) = max 0 (LockedAtos (GetEnergyAccount K c f)) + stakedAtos K c f"
    "nonBankTerms K c1 t (GetEnergyAccount K c t) = max 0 (LockedAtos (GetEnergyAccount K c t)) + stakedAtos K c t"
    using nonBank_eligible [OF fresh0(1)] nonBank_eligible [OF fresh0(2)] unfolding get stk unfolding nonBankTerms_def stk by simp_all
  have lock: "LockedAtos (GetEnergyAccount K c2 b) = LockedAtos (GetEnergyAccount K c b)" for b
    using restriction_frame(3) [OF r ok0] GetEnergyAccount_counters [of c2 K b] GetEnergyAccount_counters [of c K b]
    by (simp add: c2(1) same_books_def)
  have c1t: "GetEnergyAccount K c1 t = GetEnergyAccount K c t"
    using ApplyBalanceChange_account(3) [OF ok0, of K t f ef] strings by (simp add: c1_def get)
  have c2f: "GetEnergyAccount K c2 f = GetEnergyAccount K c1 f"
    using ApplyBalanceChange_account(3) [OF ok1, of K f t et] strings by (simp add: c2)
  have bal: "balance K c' b d = balance K ?c0 b d + (if b = t then AmountOf cs d else 0)" for b d using add(3) [of b d] by (simp add: s(4))
  have pos: "0 \<le> balance K ?c0 b d" for b d by (rule bank_balance_nonneg [OF bl])
  have ef: "ef = EligibleBalance K c' f" "0 \<le> ef"
    using ne stakedAtos_nonneg [of K c f] pos [of f]
    by (simp_all add: ef_def nb EligibleBalance_eq bal get lock stk)
  have et: "et = EligibleBalance K c' t" "0 \<le> et"
    using cs stakedAtos_nonneg [of K c t] pos [of t]
    by (simp_all add: et_def nb EligibleBalance_eq bal get lock stk)
  have "LastBalanceSnapshot (GetEnergyAccount K c' f) = ef" "LastBalanceSnapshot (GetEnergyAccount K c' t) = et"
    using ApplyBalanceChange_account(1) [OF ok0, of K f ef] ApplyBalanceChange_account(1) [OF ok1, of K t et] ef(2) et(2)
    by (simp_all add: get c2f) (simp_all add: c1_def c2)
  moreover have "StakedSnapshot (GetEnergyAccount K c' f) = stakedAtos K c f" "StakedSnapshot (GetEnergyAccount K c' t) = stakedAtos K c t"
    using ApplyBalanceChange_account(2) [OF ok0, of K f ef, unfolded get stk, folded c1_def] stake
      ApplyBalanceChange_account(2) [OF ok1, of K t et, unfolded c1t stk, folded c2(1)]
    unfolding get c2f by (auto simp: fresh_stake_def)
  then have "fresh_stake K c' f" "fresh_stake K c' t" by (simp_all add: fresh_stake_def stk)
  ultimately show ?thesis using ef(1) et(1) by simp
qed

section \<open>Well-formed stores\<close>

text \<open>C27: The stores of the energy module are well formed in every reachable state: an account is stored under its own
  address, a delegation under its own id, below the next one, with no more used than delegated; no key occurs twice, the index walks visit
  exactly the delegations of their address, each once, and the expiry index has exactly the entries of the records.\<close>

theorem chain_energy_well_formed:
  assumes "sdk_laws K" "grant_law K E" "core_law K Core" "chain_reach K E Core c R"
  shows "Address (GetEnergyAccount K c a) = acc_string (codec K) a \<and>
    distinct (map fst (e_accounts (st_energy c))) \<and> distinct (map fst (e_delegations (st_energy c))) \<and>
    (\<forall>d. GetDelegation c i = Some d \<longrightarrow> d_Id d = i \<and> i < next_id (st_energy c) \<and> d_Used d \<le> d_Amount d \<and> 0 \<le> d_LockedAtos d) \<and>
    set (IterateDelegationsByDelegator c k) = {d. \<exists>i. GetDelegation c i = Some d \<and> d_Delegator d = k} \<and>
    set (IterateDelegationsByDelegatee c k) = {d. \<exists>i. GetDelegation c i = Some d \<and> d_Delegatee d = k} \<and>
    distinct (map d_Id (IterateDelegationsByDelegator c k)) \<and> distinct (map d_Id (IterateDelegationsByDelegatee c k)) \<and>
    (((e, i), ()) \<in> set (e_by_expiry (st_energy c)) \<longleftrightarrow> (\<exists>d. GetDelegation c i = Some d \<and> u64_of_i64 (d_ExpiresAt d) = e))"
proof -
  have inv: "energy_inv K c" using chain_safeD(2) [OF chain_reach_safe [OF assms]] by (rule energy_safeD)
  note ok = energy_invD(2) [OF inv]
  note ix = recs_ok_indexes(5,6) [OF ok]
  have "distinct (map fst (e_accounts (st_energy c)))" "distinct (map fst (e_delegations (st_energy c)))"
    using energy_invD(1) [OF inv] ok kv_inv_distinct by (auto simp: accounts_ok_def recs_ok_def)
  moreover have "((e, i), ()) \<in> set (e_by_expiry (st_energy c)) \<longleftrightarrow> (\<exists>d. GetDelegation c i = Some d \<and> u64_of_i64 (d_ExpiresAt d) = e)"
    using ix(1) kv_entry_iff [OF ix(2)] by (simp add: index_ok_def GetDelegation_def)
  ultimately show ?thesis using set_inbound [OF ok] distinct_inbound [OF ok] walk_outbound [OF ok] recs_okD [OF ok] energy_invD(1) [OF inv] by (simp add: GetDelegation_def)
qed

section \<open>Witnesses\<close>

definition lent_view :: "ledger ctx \<Rightarrow> (bool \<times> u64 \<times> u64 \<times> u64) \<times> (int \<times> string \<times> int) option" where
  "lent_view c = (let p = energy_GetParams c; bob = fst (Settle ledger_sdk c ''bob'') in
     ((EnergyEnabled p, TxEnergyAccrued bob, TxEnergyCapacity (LastBalanceSnapshot bob) p, DelegatedInUsable bob),
      map_option (\<lambda>d. (d_ExpiresAt d, d_Delegator d, d_LockedAtos d)) (GetDelegation c 1)))"

lemma lending_view: "map_sum id (\<lambda>(_, _, c). lent_view c) lending =
    Inr ((True, 0, 0, 40000), Some (172900, ''atos1alice'', 30000000000000000000000))"
  by code_simp

lemma lent_viewed: "lent_view lent = ((True, 0, 0, 40000), Some (172900, ''atos1alice'', 30000000000000000000000))"
proof -
  obtain locked where l: "lending = Inr (1, locked, lent)" by (rule lending_lent)
  show ?thesis using lending_view unfolding l by simp
qed

lemma lent_safe: "energy_safe ledger_sdk lent {}"
  by (rule chain_safeD(2) [OF chain_reach_safe [OF ledger_laws demo_env_law demo_core_law lent_reach]])

lemma lent_on: "EnergyEnabled (energy_GetParams lent)"
  using lent_viewed by (simp add: lent_view_def Let_def)

theorem consume_covers_gas_witness:
  "\<exists>res c. Consume ledger_sdk lent ''bob'' 50000 False [] = Inr (res, c) \<and>
     unat (DelegatedDeducted res) = 40000 \<and> unat (ShortfallGas res) = 10000"
proof -
  have "\<not> allSubsidized (energy_GetParams lent) []" by (simp add: allSubsidized_def)
  moreover have "plan (fst (Settle ledger_sdk lent ''bob'')) 50000 False = (0, 0, 40000, 10000)"
    using lent_viewed by (simp add: lent_view_def plan_def Let_def)
  ultimately show ?thesis
    using consume_covers_gas [OF ledger_laws demo_env_law demo_core_law lent_reach, of "''bob''" 50000 False "[]"] lent_on by auto
qed

theorem consume_refund_restores_witness:
  "\<exists>res c. Consume ledger_sdk lent ''bob'' 50000 False [] = Inr (res, c) \<and> \<not> Free res \<and>
     RefundEnergy ledger_sdk c ''bob'' (saturatingAdd (OwnDeducted res) (DelegatedDeducted res)) res =
       SetEnergyAccount ((fst (Settle ledger_sdk lent ''bob''))\<lparr>DeployEnergyAccrued :=
           DeployEnergyAccrued (fst (Settle ledger_sdk lent ''bob'')) - DeployEnergyUsed res\<rparr>) (snd (Settle ledger_sdk lent ''bob''))"
proof -
  have inv: "energy_inv ledger_sdk lent" by (rule energy_safeD [OF lent_safe])
  obtain acct c1 where s: "Settle ledger_sdk lent ''bob'' = (acct, c1)" by fastforce
  obtain d own del short where dr: "drawn acct 50000 False = (d, own, del, short)" by (metis surj_pair)
  have sub: "\<not> allSubsidized (energy_GetParams lent) []" by (simp add: allSubsidized_def)
  obtain res c where con: "Consume ledger_sdk lent ''bob'' 50000 False [] = Inr (res, c)" "\<not> Free res"
    by (rule Consume_result [OF inv sub lent_on _ s dr]) auto
  have "TxEnergyAccrued acct \<le> TxEnergyCapacity (LastBalanceSnapshot acct) (energy_GetParams lent)"
    using lent_viewed s by (simp add: lent_view_def Let_def)
  from consume_refund_restores [OF inv con lent_on _ s this] show ?thesis using con s by auto
qed

definition tired :: "ledger ctx" where
  "tired = SetEnergyAccount (snd (snap ''atos1dave'' 60000000000000000000000)) demo"

lemma tired_values:
  "LastUpdatedTime (GetEnergyAccount ledger_sdk tired ''dave'') = 100" "TxEnergyAccrued (GetEnergyAccount ledger_sdk tired ''dave'') = 0"
  "TxEnergyCapacity (LastBalanceSnapshot (GetEnergyAccount ledger_sdk tired ''dave'')) (energy_GetParams tired) = 100000"
  "TxEnergyMaxAccrueWindow (energy_GetParams tired) = 86400"
  by code_simp+

theorem waiting_gains_witness:
  "unat (TxEnergyAccrued (GetEnergyAccount ledger_sdk (settle_at ledger_sdk ''dave'' 86500 (settle_at ledger_sdk ''dave'' 43300 tired)) ''dave'')) \<le>
     unat (TxEnergyAccrued (GetEnergyAccount ledger_sdk (settle_at ledger_sdk ''dave'' 86500 tired) ''dave'')) \<and>
   unat (TxEnergyAccrued (GetEnergyAccount ledger_sdk (settle_at ledger_sdk ''dave'' 86500 tired) ''dave'')) = 100000"
proof -
  have "energy_inv ledger_sdk demo"
    by (rule energy_safeD [OF chain_safeD(2) [OF chain_reach_safe [OF ledger_laws demo_env_law demo_core_law demo_reach]]])
  then have "accounts_ok (st_energy tired)" by (simp add: tired_def accounts_ok_set energy_invD(1))
  from waiting_gains [where K = ledger_sdk and c = tired and a = "''dave''" and ?t1.0 = 43300 and ?t2.0 = 86500, OF this] show ?thesis
    by (simp add: tired_values in_int64_def)
qed

definition overdue :: "ledger ctx" where
  "overdue = lent\<lparr>block_time := 172900\<rparr>"

theorem expired_delegation_returns_witness:
  "GetDelegation overdue 1 \<noteq> None \<and> GetDelegation (energy_EndBlocker ledger_sdk (app_hook ledger_sdk) overdue) 1 = None \<and>
   balance ledger_sdk overdue ''alice'' ''liao'' + 30000000000000000000000 \<le>
     balance ledger_sdk (energy_EndBlocker ledger_sdk (app_hook ledger_sdk) overdue) ''alice'' ''liao''"
proof -
  have safe: "energy_safe ledger_sdk overdue {}"
    using lent_safe by (simp add: overdue_def energy_safe_def energy_inv_def pool_balance_def)
  have on: "EnergyEnabled (energy_GetParams overdue)" using lent_on by (simp add: overdue_def energy_GetParams_def)
  obtain d where d: "GetDelegation overdue 1 = Some d" "d_ExpiresAt d = 172900" "d_Delegator d = ''atos1alice''" "d_LockedAtos d = 30000000000000000000000"
    using lent_viewed by (auto simp: overdue_def lent_view_def GetDelegation_def Let_def)
  have a: "acc_from_bech32 (codec ledger_sdk) (d_Delegator d) = Some ''alice''" "\<not> blocked_addr ledger_sdk ''alice''"
    "''alice'' \<noteq> module_address ledger_sdk LockedEnergyPoolName" "base_denom ledger_sdk = ''liao''"
    by (simp_all add: d ledger_sdk_def tag_codec_def)
  have reg: "module_registered ledger_sdk LockedEnergyPoolName" by (simp add: ledger_sdk_def)
  show ?thesis using expired_delegation_returns [OF ledger_laws reg safe on d(1) _ _ _ a(1-3)] d a(4) by (simp add: overdue_def)
qed

definition handed :: "ledger ctx result" where
  "handed = send_coins ledger_sdk (app_hook ledger_sdk) demo ''alice'' ''dave'' [(''liao'', 3)]"

theorem transfer_snapshot_witness:
  "\<exists>c. handed = Inr c \<and> LastBalanceSnapshot (GetEnergyAccount ledger_sdk c ''alice'') = EligibleBalance ledger_sdk c ''alice'' \<and>
     LastBalanceSnapshot (GetEnergyAccount ledger_sdk c ''dave'') = EligibleBalance ledger_sdk c ''dave''"
proof -
  have "\<not> isl handed" by code_simp
  then obtain c where c: "handed = Inr c" by (metis sum.collapse(2))
  have ok: "accounts_ok (st_energy demo)"
    by (rule energy_invD(1) [OF energy_safeD [OF chain_safeD(2) [OF chain_reach_safe [OF ledger_laws demo_env_law demo_core_law demo_reach]]]])
  have "LastUpdatedTime (GetEnergyAccount ledger_sdk demo ''alice'') = 0" "LastUpdatedTime (GetEnergyAccount ledger_sdk demo ''dave'') = 0"
    by code_simp+
  then have f: "fresh_stake ledger_sdk demo ''alice''" "fresh_stake ledger_sdk demo ''dave''" by (simp_all add: fresh_stake_def)
  have cs: "AmountOf [(''liao'', 3)] AtoxBaseDenom = 0" "0 < AmountOf [(''liao'', 3)] (base_denom ledger_sdk)" by code_simp+
  from transfer_snapshot [OF ledger_laws ok c [unfolded handed_def] cs _ f] show ?thesis using c by auto
qed

theorem chain_energy_well_formed_witness:
  "\<exists>d. GetDelegation lent 1 = Some d \<and> d_Id d = 1 \<and> d_Used d \<le> d_Amount d \<and>
     (((172900, 1), ()) \<in> set (e_by_expiry (st_energy lent))) \<and> d \<in> set (IterateDelegationsByDelegator lent ''atos1alice'')"
proof -
  obtain d where d: "GetDelegation lent 1 = Some d" "d_ExpiresAt d = 172900" "d_Delegator d = ''atos1alice''"
    using lent_viewed by (auto simp: lent_view_def Let_def)
  have "u64_of_i64 172900 = 172900" by code_simp
  then show ?thesis
    using d chain_energy_well_formed [OF ledger_laws demo_env_law demo_core_law lent_reach, of "''alice''" 1 "''atos1alice''" 172900] by auto
qed

end
