(* ===== verification/AtoxSpec.thy ===== *)
theory AtoxSpec
  imports ChainDemo
begin

text \<open>
  Properties of the ATOX module and its bank wrapper: the registered restriction is the solution of its
  recursion, transfers implement the book, the inclusive fee, the largest amount that can be sent, what
  the claim query announces, and the genesis round trip.
\<close>

section \<open>The restriction as the solution of its recursion\<close>

text \<open>
  C20: the registered send restriction calls the bank, which calls the restriction again.  That recursion
  has exactly one solution, the two-level restriction of the model: settlement never nests deeper.
\<close>

theorem send_restriction_recursion:
  assumes "sdk_laws K"
  shows "H = app_hook_with K H \<longleftrightarrow> H = app_hook K"
  using app_hook_unfold [OF sdk_lawsD(1) [OF assms]] app_hook_unique [OF sdk_lawsD(1) [OF assms], of H] by metis

theorem send_restriction_recursion_witness:
  "app_hook ledger_sdk = app_hook_with ledger_sdk (app_hook ledger_sdk)"
  using send_restriction_recursion [OF ledger_laws, of "app_hook ledger_sdk"] by simp

section \<open>Transfers implement the book\<close>

text \<open>
  C5: a successful transfer, through the bank and the registered restriction, implements the abstract
  book: both parties settle on the balances they had before, in this order, the claims are rounded down
  from the exact share, and then the ATOX moves.
\<close>

theorem transfer_refines_book:
  assumes "sdk_laws K" "atox_safe K c" "send_coins K (app_hook K) c f t cs = Inr c'"
  shows "book_of K c' =
    (send_spec f t (AmountOf cs AtoxBaseDenom) (book_of K c))\<lparr>bk_pool := ExchangePoolBalance K c'\<rparr>"
  using send_refines(1) [OF assms(1) atox_safeD(1,2,4) [OF assms(2)] assms(3)] .

theorem transfer_refines_book_witness:
  "\<exists>c'. book_of ledger_sdk c' =
     (send_spec ''bob'' ''alice'' 100 (book_of ledger_sdk demo))\<lparr>bk_pool := ExchangePoolBalance ledger_sdk c'\<rparr> \<and>
     AtoxBalance ledger_sdk c' ''bob'' = 150"
proof -
  have r: "map_sum id (\<lambda>c. AtoxBalance ledger_sdk c ''bob'')
      (send_coins ledger_sdk (app_hook ledger_sdk) demo ''bob'' ''alice'' [(AtoxBaseDenom, 100)]) = Inr 150"
    by code_simp
  then obtain c' where c: "send_coins ledger_sdk (app_hook ledger_sdk) demo ''bob'' ''alice'' [(AtoxBaseDenom, 100)] = Inr c'"
    by (cases "send_coins ledger_sdk (app_hook ledger_sdk) demo ''bob'' ''alice'' [(AtoxBaseDenom, 100)]") auto
  have "AtoxBalance ledger_sdk c' ''bob'' = 150" using r unfolding c by simp
  then show ?thesis using transfer_refines_book [OF ledger_laws demo_atox_safe c] by auto
qed

section \<open>The transfer fee\<close>

lemma ComputeTransferFee_ceil:
  assumes "0 < n"
  shows "n * uint bps \<le> ComputeTransferFee n bps * 10000" "(ComputeTransferFee n bps - 1) * 10000 < n * uint bps \<or> bps = 0"
    "bps = 0 \<Longrightarrow> ComputeTransferFee n bps = 0" "0 \<le> ComputeTransferFee n bps"
proof -
  define k where "k = n * uint bps"
  have k: "0 \<le> k" using assms by (simp add: k_def)
  define q r where "q = k div 10000" and "r = k mod 10000"
  have m: "k = q * 10000 + r" "0 \<le> r" "r < 10000" by (simp_all add: q_def r_def)
  have f: "ComputeTransferFee n bps = (if bps = 0 then 0 else if r \<noteq> 0 then q + 1 else q)"
    using assms k by (simp add: ComputeTransferFee_def BpsDenominator_def Let_def k_def q_def r_def)
  have z: "bps = 0 \<Longrightarrow> k = 0" by (simp add: k_def)
  have pos: "0 < k" if "bps \<noteq> 0"
  proof -
    have "uint bps \<noteq> 0" using that by (simp add: uint_0_iff)
    then have "0 < uint bps" using uint_ge_0 [of bps] by linarith
    then show ?thesis using assms by (simp add: k_def)
  qed
  have "k \<le> ComputeTransferFee n bps * 10000" unfolding f using z k m by auto
  moreover have "(ComputeTransferFee n bps - 1) * 10000 < k" if "bps \<noteq> 0"
    unfolding f using pos [OF that] that m by auto
  ultimately show "n * uint bps \<le> ComputeTransferFee n bps * 10000"
    "(ComputeTransferFee n bps - 1) * 10000 < n * uint bps \<or> bps = 0"
    by (auto simp: k_def)
  show "bps = 0 \<Longrightarrow> ComputeTransferFee n bps = 0" "0 \<le> ComputeTransferFee n bps"
    using f k by (simp_all add: q_def pos_imp_zdiv_nonneg_iff)
qed

lemma fee_mono:
  assumes "0 < a" "a \<le> b"
  shows "ComputeTransferFee a bps \<le> ComputeTransferFee b bps"
proof (cases "bps = 0")
  case True
  then show ?thesis using ComputeTransferFee_ceil(3) [of a bps] ComputeTransferFee_ceil(3) [of b bps] assms by simp
next
  case False
  have "a * uint bps \<le> b * uint bps" using assms by (intro mult_right_mono) auto
  then have "(ComputeTransferFee a bps - 1) * 10000 < ComputeTransferFee b bps * 10000"
    using ComputeTransferFee_ceil(2) [of a bps] ComputeTransferFee_ceil(1) [of b bps] assms False by linarith
  then show ?thesis by simp
qed

declare max_sendable_loop.simps [simp del]

lemma max_sendable_loop_spec:
  assumes "0 \<le> a"
  shows "0 \<le> max_sendable_loop b bps a \<and> max_sendable_loop b bps a \<le> a \<and>
    (0 < max_sendable_loop b bps a \<longrightarrow> max_sendable_loop b bps a + ComputeTransferFee (max_sendable_loop b bps a) bps \<le> b) \<and>
    (\<forall>n. max_sendable_loop b bps a < n \<longrightarrow> n \<le> a \<longrightarrow> b < n + ComputeTransferFee n bps)"
  using assms
proof (induction b bps a rule: max_sendable_loop.induct)
  case (1 b bps a)
  show ?case
  proof (cases "a > 0 \<and> a + ComputeTransferFee a bps > b")
    case True
    then have e: "max_sendable_loop b bps a = max_sendable_loop b bps (a - 1)" by (subst max_sendable_loop.simps) simp
    have "0 \<le> a - 1" using True by simp
    note ih = "1.IH" [OF True this]
    have "n \<le> a - 1 \<or> n = a" if "n \<le> a" for n using that by linarith
    then show ?thesis unfolding e using ih True by force
  next
    case False
    then have e: "max_sendable_loop b bps a = a" by (subst max_sendable_loop.simps) (simp only: if_False)
    show ?thesis unfolding e using False "1.prems" by auto
  qed
qed

text \<open>
  C22: \<open>MaxSendableWithFee\<close> is the exact maximum.  Its result fits the balance together with its fee, and
  no larger amount does; the fee is the share of the amount rounded up.
\<close>

theorem MaxSendableWithFee_max:
  assumes "0 < bal"
  shows "0 \<le> MaxSendableWithFee bal bps \<and>
    MaxSendableWithFee bal bps + ComputeTransferFee (MaxSendableWithFee bal bps) bps \<le> bal \<and>
    (\<forall>n > MaxSendableWithFee bal bps. bal < n + ComputeTransferFee n bps)"
proof (cases "bps = 0")
  case True
  then show ?thesis using assms by (simp add: MaxSendableWithFee_def ComputeTransferFee_def)
next
  case False
  define s where "s = bal * 10000 div (10000 + uint bps)"
  have p: "0 < 10000 + uint bps" by (rule add_pos_nonneg) simp_all
  have s: "0 \<le> s" unfolding s_def using assms p by (simp add: pos_imp_zdiv_nonneg_iff)
  note l = max_sendable_loop_spec [OF s, of bal bps]
  have eq: "MaxSendableWithFee bal bps = max_sendable_loop bal bps s"
    using assms False l p by (simp add: MaxSendableWithFee_def BpsDenominator_def Let_def s_def)
  have beyond: "bal < n + ComputeTransferFee n bps" if "s < n" for n
  proof -
    have "bal * 10000 < n * (10000 + uint bps)" 
    proof (rule less_le_trans)
      show "bal * 10000 < (s + 1) * (10000 + uint bps)" unfolding s_def by (rule less_div_mult_int [OF p])
      show "(s + 1) * (10000 + uint bps) \<le> n * (10000 + uint bps)" using that p by (intro mult_right_mono) auto
    qed
    also have "\<dots> \<le> (n + ComputeTransferFee n bps) * 10000"
      using ComputeTransferFee_ceil(1) [of n bps] s that by (simp add: algebra_simps)
    finally show ?thesis by simp
  qed
  have "max_sendable_loop bal bps s + ComputeTransferFee (max_sendable_loop bal bps s) bps \<le> bal"
    using l assms by (cases "max_sendable_loop bal bps s = 0") (simp_all add: ComputeTransferFee_def)
  moreover have "bal < n + ComputeTransferFee n bps" if "max_sendable_loop bal bps s < n" for n
    using beyond [of n] l that by (cases "s < n") auto
  ultimately show ?thesis using l by (simp add: eq)
qed

theorem MaxSendableWithFee_max_witness: "MaxSendableWithFee 1000 1000 = 909 \<and> 909 + ComputeTransferFee 909 1000 \<le> 1000"
proof -
  have "MaxSendableWithFee 1000 1000 = 909" by code_simp
  then show ?thesis using MaxSendableWithFee_max [of 1000 1000] by simp
qed

text \<open>An account that has settled does not change by settling again.\<close>

lemma settle_again:
  "bk_index s a = GlobalIndex (bk_state s) \<Longrightarrow> settle_spec a b s = s"
  by (cases s) (auto simp: settle_spec_def owed_floor_def fun_eq_iff)

lemma AmountOf_sub:
  assumes "distinct (map fst cs)" "n < AmountOf cs d" "0 \<le> n"
  shows "AmountOf (coins_sub cs d n) d = AmountOf cs d - n"
proof -
  have "sum_list (map (\<lambda>(d', a). if d' = d then a else 0) (filter (\<lambda>(_, a). a \<noteq> 0) xs)) =
      sum_list (map (\<lambda>(d', a). if d' = d then a else (0 :: int)) xs)" for xs
    by (induction xs) auto
  then have z: "AmountOf (coins_sub cs d n) d = AmountOf (map (\<lambda>(d', a). (d', if d' = d then a - n else a)) cs) d"
    by (simp add: AmountOf_def coins_sub_def)
  have "AmountOf (map (\<lambda>(d', a). (d', if d' = d then a - n else a)) cs) d =
      AmountOf cs d - (if d \<in> fst ` set cs then n else 0)"
    using assms(1) by (induction cs) (auto simp: AmountOf_def rev_image_eqI)
  moreover have "d \<in> fst ` set cs"
  proof (rule ccontr)
    assume "d \<notin> fst ` set cs"
    then have "AmountOf cs d = 0" by (induction cs) (auto simp: AmountOf_def)
    then show False using assms(2,3) by simp
  qed
  ultimately show ?thesis by (simp add: z)
qed

lemma unsettled_owed:
  assumes "sdk_laws K" "atox_safe K c" "\<not> isModuleAccount K c a"
  shows "Claimable K c a = (Pending (GetAtoxAccount K c a),
    owed_floor (AtoxBalance K c a) (Index (GetAtoxAccount K c a)) (GlobalIndex (GetGlobalState c)))"
  using assms(3) ComputeOwed_owed_floor [OF sdk_lawsD(3) [OF assms(1)] atox_safeD(5) [OF assms(2), of a]]
  by (auto simp: Claimable_def Let_def owed_floor_def)

text \<open>What a transfer of ATOX between two holders does to the book.\<close>

lemma holder_send:
  assumes "sdk_laws K" "atox_safe K c" "f \<noteq> t" "\<not> isModuleAccount K c f" "0 < AmountOf cs AtoxBaseDenom"
    "send_coins K (app_hook K) c f t cs = Inr c'"
  shows "book_of K c' = (move_spec f t (AmountOf cs AtoxBaseDenom)
      (settle_spec t (AtoxBalance K c t) (settle_spec f (AtoxBalance K c f) (book_of K c))))\<lparr>bk_pool := ExchangePoolBalance K c'\<rparr>"
  using send_refines(1) [OF assms(1) atox_safeD(1,2,4) [OF assms(2)] assms(6)] assms(3,5)
  by (simp add: send_spec_def Let_def settle_spec_keeps)

text \<open>The fee of the sender, burned and recorded.\<close>

definition charge_spec :: "addr \<Rightarrow> int \<Rightarrow> int \<Rightarrow> book \<Rightarrow> book" where
  "charge_spec f fee p s = s\<lparr>bk_balance := (bk_balance s)(f := bk_balance s f - fee), bk_supply := bk_supply s - fee,
     bk_state := (bk_state s)\<lparr>TotalFeeBurned := TotalFeeBurned (bk_state s) + fee\<rparr>, bk_pool := p\<rparr>"

lemma charge_spec_none: "p = bk_pool s \<Longrightarrow> charge_spec f 0 p s = s"
  by (cases s) (simp add: charge_spec_def)

text \<open>Settling one account and paying a fee out of it leaves the other party where it was.\<close>

lemma fee_book:
  assumes laws: "sdk_laws K" and safe: "atox_safe K c" and f: "\<not> isModuleAccount K c f" "f \<noteq> ExchangePoolAddress K" and fee: "0 < fee"
    and s: "send_to_module K (app_hook K) c f AtoxModuleName [(AtoxBaseDenom, fee)] = Inr c1"
      "burn_coins K c1 AtoxModuleName [(AtoxBaseDenom, fee)] = Inr c2"
  defines "s1 \<equiv> settle_spec f (AtoxBalance K c f) (book_of K c)"
  shows "book_of K (RecordFeeBurn fee c2) = charge_spec f fee (ExchangePoolBalance K c1) s1"
    "atox_safe K (RecordFeeBurn fee c2)"
proof -
  let ?m = "module_address K AtoxModuleName"
  note bl = sdk_lawsD(1) [OF laws]
  have reg: "module_registered K AtoxModuleName" using s(1) by (simp add: send_to_module_eq [OF bl] split: if_splits)
  then have mod: "isModuleAccount K c ?m" using sdk_lawsD(6) [OF laws] by (simp add: isModuleAccount_def)
  then have ne: "f \<noteq> ?m" using f by auto
  note send = send_to_module_InrD [OF bl s(1)]
  have "bk_module s1 ?m" using mod by (simp add: s1_def settle_spec_keeps)
  then have "settle_spec ?m b s1 = s1" for b by (simp add: settle_spec_def)
  then have b1: "book_of K c1 = (move_spec f ?m fee s1)\<lparr>bk_pool := ExchangePoolBalance K c1\<rparr>"
    using holder_send [OF laws safe ne f(1) _ send] fee by (simp add: s1_def)
  note b = burn_safe [OF laws send_safe [OF laws safe send f(2)] s(2)]
  show "atox_safe K (RecordFeeBurn fee c2)" by (rule RecordFeeBurn_safe [OF b(1)])
  have gs: "GetGlobalState c2 = bk_state s1" using arg_cong [OF b(2), of bk_state] arg_cong [OF b1, of bk_state]
    by (simp add: burn_spec_def move_spec_def)
  show "book_of K (RecordFeeBurn fee c2) = charge_spec f fee (ExchangePoolBalance K c1) s1"
    unfolding RecordFeeBurn_def Let_def book_of_global b(2) b1 gs
    using ne by (auto simp: charge_spec_def burn_spec_def move_spec_def fun_eq_iff)
qed

text \<open>The fee taken before the transfer and the fee taken from what arrives give the same book.\<close>

lemma fee_then_move:
  assumes "f \<noteq> t" "\<not> bk_module s f" "\<not> bk_module s t" "s1 = settle_spec f (bk_balance s f) s"
    "s' = charge_spec f fee p s1"
    "s2 = settle_spec t (bk_balance s' t) (settle_spec f (bk_balance s' f) s')"
    "u = (\<lambda>x. owed_floor (bk_balance s x) (bk_index s x) (GlobalIndex (bk_state s)))"
  shows "bk_balance (move_spec f t (m - fee) s2) f = bk_balance s f - u f - m"
    "bk_balance (move_spec f t (m - fee) s2) t = bk_balance s t - u t + m - fee"
    "bk_supply (move_spec f t (m - fee) s2) = bk_supply s - u f - u t - fee"
    "TotalFeeBurned (bk_state (move_spec f t (m - fee) s2)) = TotalFeeBurned (bk_state s) + fee"
    "bk_pending (move_spec f t (m - fee) s2) f = bk_pending s f + u f"
    "bk_pending (move_spec f t (m - fee) s2) t = bk_pending s t + u t"
proof -
  have "bk_index s' f = GlobalIndex (bk_state s')" using assms(2,4,5) by (simp add: charge_spec_def settle_spec_def Let_def)
  then have s2: "s2 = settle_spec t (bk_balance s' t) s'" using assms(6) by (simp add: settle_again)
  show "bk_balance (move_spec f t (m - fee) s2) f = bk_balance s f - u f - m"
    "bk_balance (move_spec f t (m - fee) s2) t = bk_balance s t - u t + m - fee"
    "bk_supply (move_spec f t (m - fee) s2) = bk_supply s - u f - u t - fee"
    "TotalFeeBurned (bk_state (move_spec f t (m - fee) s2)) = TotalFeeBurned (bk_state s) + fee"
    "bk_pending (move_spec f t (m - fee) s2) f = bk_pending s f + u f"
    "bk_pending (move_spec f t (m - fee) s2) t = bk_pending s t + u t"
    using assms(1-3) unfolding s2 assms(4,5,7) by (simp_all add: charge_spec_def move_spec_def settle_spec_def Let_def)
qed

text \<open>
  C21: the fee of a transfer of ATOX between two holders is inclusive.  The sender loses exactly the amount
  of the message and the receiver gains that amount less the fee, each after booking its own claim; the
  fee is burned, recorded and equals the share of the amount rounded up.
\<close>

theorem ChargeInclusiveFee_amounts:
  assumes laws: "sdk_laws K" and safe: "atox_safe K c"
    and p: "f \<noteq> t" "\<not> isModuleAccount K c f" "\<not> isModuleAccount K c t" "f \<noteq> ExchangePoolAddress K"
    and amt: "distinct (map fst amt)" "0 < AmountOf amt AtoxBaseDenom"
    and charge: "ChargeInclusiveFee K (app_hook K) c f t amt = Inr c'"
  defines "m \<equiv> AmountOf amt AtoxBaseDenom" and "fee \<equiv> ComputeTransferFee (AmountOf amt AtoxBaseDenom) (get_TransferFeeBps c)"
  shows "AtoxBalance K c' f = AtoxBalance K c f - snd (Claimable K c f) - m \<and>
    AtoxBalance K c' t = AtoxBalance K c t - snd (Claimable K c t) + m - fee \<and>
    AtoxSupply K c' = AtoxSupply K c - snd (Claimable K c f) - snd (Claimable K c t) - fee \<and>
    TotalFeeBurned (GetGlobalState c') = TotalFeeBurned (GetGlobalState c) + fee \<and>
    Pending (GetAtoxAccount K c' f) = fst (Claimable K c f) + snd (Claimable K c f) \<and>
    Pending (GetAtoxAccount K c' t) = fst (Claimable K c t) + snd (Claimable K c t)"
proof -
  have m: "0 < m" using amt by (simp add: m_def)
  have fe: "ComputeTransferFee m (get_TransferFeeBps c) = fee" by (simp add: m_def fee_def)
  let ?s = "book_of K c"
  have "\<exists>s' p. s' = charge_spec f fee p (settle_spec f (AtoxBalance K c f) ?s) \<and>
      book_of K c' = (move_spec f t (m - fee) (settle_spec t (bk_balance s' t) (settle_spec f (bk_balance s' f) s')))
        \<lparr>bk_pool := ExchangePoolBalance K c'\<rparr>"
  proof (cases "0 < fee")
    case False
    then have z: "fee = 0" using ComputeTransferFee_ceil(4) [of m "get_TransferFeeBps c"] m by (simp add: fee_def m_def)
    then have "send_coins K (app_hook K) c f t amt = Inr c'" using charge p amt(2) by (simp add: ChargeInclusiveFee_def Let_def fee_def)
    note h = holder_send [OF laws safe p(1,2) amt(2) this]
    have "settle_spec f b (settle_spec f (AtoxBalance K c f) ?s) = settle_spec f (AtoxBalance K c f) ?s" for b
      by (rule settle_again) (use p(2) in \<open>simp add: settle_spec_idle\<close>)
    then show ?thesis using h p(1)
      by (intro exI [of _ "settle_spec f (AtoxBalance K c f) ?s"] exI [of _ "bk_pool (settle_spec f (AtoxBalance K c f) ?s)"])
        (simp add: z m_def settle_spec_keeps charge_spec_none)
  next
    case True
    then obtain cs c1 c2 where s: "fee < m" "new_coins AtoxBaseDenom fee = Inr cs"
      "send_to_module K (app_hook K) c f AtoxModuleName cs = Inr c1" "burn_coins K c1 AtoxModuleName cs = Inr c2"
      "send_coins K (app_hook K) (RecordFeeBurn fee c2) f t (coins_sub amt AtoxBaseDenom fee) = Inr c'"
      using charge p amt(2) unfolding ChargeInclusiveFee_def Let_def m_def [symmetric] fe
      by (auto split: if_splits)
    have cs: "cs = [(AtoxBaseDenom, fee)]" using new_coins_Inr [OF s(2)] True by simp
    note b = fee_book [OF laws safe p(2,4) True s(3,4) [unfolded cs]]
    have net: "AmountOf (coins_sub amt AtoxBaseDenom fee) AtoxBaseDenom = m - fee"
      unfolding m_def by (rule AmountOf_sub [OF amt(1)]) (use s(1) True in \<open>simp_all add: m_def\<close>)
    have f': "\<not> isModuleAccount K (RecordFeeBurn fee c2) f"
      using arg_cong [OF b(1), of "\<lambda>s. bk_module s f"] p(2) by (simp add: charge_spec_def settle_spec_keeps)
    have "0 < AmountOf (coins_sub amt AtoxBaseDenom fee) AtoxBaseDenom" using net s(1) by simp
    note h = holder_send [OF laws b(2) p(1) f' this s(5), unfolded net book_of_simps(4) [symmetric]]
    show ?thesis by (rule exI, rule exI, rule conjI, rule b(1), rule h)
  qed
  then obtain s' q where s': "s' = charge_spec f fee q (settle_spec f (AtoxBalance K c f) ?s)"
    and b: "book_of K c' = (move_spec f t (m - fee) (settle_spec t (bk_balance s' t) (settle_spec f (bk_balance s' f) s')))
        \<lparr>bk_pool := ExchangePoolBalance K c'\<rparr>" by blast
  have mods: "\<not> bk_module ?s f" "\<not> bk_module ?s t" using p by simp_all
  have "s' = charge_spec f fee q (settle_spec f (bk_balance ?s f) ?s)" using s' by simp
  note e = fee_then_move [OF p(1) mods refl this refl refl, of m, unfolded book_of_simps]
  show ?thesis
    using e arg_cong [OF b, of "\<lambda>s. bk_balance s f"] arg_cong [OF b, of "\<lambda>s. bk_balance s t"] arg_cong [OF b, of bk_supply]
      arg_cong [OF b, of bk_state] arg_cong [OF b, of "\<lambda>s. bk_pending s f"] arg_cong [OF b, of "\<lambda>s. bk_pending s t"]
      unsettled_owed [OF laws safe p(2)] unsettled_owed [OF laws safe p(3)]
    by simp
qed

theorem ChargeInclusiveFee_amounts_witness:
  "\<exists>c'. ChargeInclusiveFee ledger_sdk (app_hook ledger_sdk) demo ''bob'' ''alice'' [(AtoxBaseDenom, 100)] = Inr c' \<and>
     AtoxBalance ledger_sdk demo ''bob'' = 500 \<and> AtoxBalance ledger_sdk c' ''bob'' = 150 \<and>
     AtoxBalance ledger_sdk c' ''alice'' = AtoxBalance ledger_sdk demo ''alice'' + 90"
proof -
  have v: "AtoxBalance ledger_sdk demo ''bob'' = 500" "snd (Claimable ledger_sdk demo ''bob'') = 250"
    "snd (Claimable ledger_sdk demo ''alice'') = 0" "ComputeTransferFee 100 (get_TransferFeeBps demo) = 10"
    "isModuleAccount ledger_sdk demo ''bob'' = False" "isModuleAccount ledger_sdk demo ''alice'' = False" by code_simp+
  have "isl (ChargeInclusiveFee ledger_sdk (app_hook ledger_sdk) demo ''bob'' ''alice'' [(AtoxBaseDenom, 100)]) = False" by code_simp
  then obtain c' where c: "ChargeInclusiveFee ledger_sdk (app_hook ledger_sdk) demo ''bob'' ''alice'' [(AtoxBaseDenom, 100)] = Inr c'"
    unfolding isl_def by (cases "ChargeInclusiveFee ledger_sdk (app_hook ledger_sdk) demo ''bob'' ''alice'' [(AtoxBaseDenom, 100)]") auto
  have "''bob'' \<noteq> ExchangePoolAddress ledger_sdk" by (simp add: ExchangePoolAddress_def ledger_sdk_def)
  then show ?thesis
    using ChargeInclusiveFee_amounts [OF ledger_laws demo_atox_safe _ _ _ _ _ _ c] v c by simp
qed

section \<open>Claims\<close>

text \<open>
  C23: the account query tells the truth.  For a holder whose settlement goes through, the query says that
  a claim is possible exactly when \<open>ClaimAtos\<close> succeeds, and what the claim pays and burns is what the
  query announced.
\<close>

theorem claim_query_faithful:
  assumes laws: "sdk_laws K" and safe: "atox_safe K c"
    and a: "acc_from_bech32 (codec K) who = Some a" "\<not> isModuleAccount K c a" "\<not> blocked_addr K a"
    and reg: "module_registered K ExchangePoolName"
    and settled: "SettleAccount K (app_hook K) c a = (Inr v, c1)"
    and query: "atox_query_Account K c who = Inr r"
  shows "(ar_CanClaim r \<longleftrightarrow> (\<exists>paid c'. ClaimAtos K (app_hook K) c who = Inr (paid, c'))) \<and>
    (\<forall>paid c'. ClaimAtos K (app_hook K) c who = Inr (paid, c') \<longrightarrow>
       paid = ar_Claimable r \<and> AtoxBalance K c' a = ar_AtoxBalance r - ar_BurnOnSettle r \<and>
       Pending (GetAtoxAccount K c' a) = 0)"
proof -
  note d = atox_safeD [OF safe]
  note st = settled [unfolded SettleAccount_def]
  note ref = settle_refines [OF laws d(2) d(5) d(6) st]
  note safe1 = settle_safe(1) [OF laws safe st]
  note cl = unsettled_owed [OF laws safe a(2)]
  let ?n = "Pending (GetAtoxAccount K c1 a)"
  have n: "?n = fst (Claimable K c a) + snd (Claimable K c a)"
    "AtoxBalance K c1 a = AtoxBalance K c a - snd (Claimable K c a)"
    using arg_cong [OF ref(1), of "\<lambda>s. bk_pending s a"] arg_cong [OF ref(1), of "\<lambda>s. bk_balance s a"] a(2)
    by (simp_all add: cl settle_spec_def Let_def)
  have pool: "?n \<le> ExchangePoolBalance K c"
    using book_solvent(2) [OF atox_safeD(3) [OF safe1]] book_solvent(3) [OF atox_safeD(3) [OF safe1], of a]
      touch_simps(10) [OF ref(2) sdk_lawsD(7) [OF laws]] by (simp add: ExchangePoolBalance_def)
  have q: "ar_Claimable r = ?n" "ar_AtoxBalance r = AtoxBalance K c a" "ar_BurnOnSettle r = snd (Claimable K c a)"
    "ar_CanClaim r \<longleftrightarrow> Enabled (atox_GetParams c) \<and> 0 < ?n"
    using query a n pool by (auto simp: atox_query_Account_def Let_def claimStatus_def split: prod.splits if_splits)
  obtain x c' where p: "PayoutPending K (app_hook K) c a 0 = (x, c')" by fastforce
  from payout_cases [OF laws safe p] show ?thesis
  proof cases
    case (4 v c2)
    note paid = this
    then have e: "c2 = c1" using settled by simp
    have bk: "book_of K c' = (pay_spec a (book_of K c1))\<lparr>bk_pool := ExchangePoolBalance K c'\<rparr>"
      using paid(5) by (simp add: paid_book_def e)
    have "Pending (GetAtoxAccount K c' a) = 0" "AtoxBalance K c' a = AtoxBalance K c1 a"
      using arg_cong [OF bk, of "\<lambda>s. bk_pending s a"] arg_cong [OF bk, of "\<lambda>s. bk_balance s a"] by (simp_all add: pay_spec_def)
    then show ?thesis using q n p paid a(1) by (auto simp: ClaimAtos_def e)
  qed (use settled reg a p q in \<open>auto simp: ClaimAtos_def\<close>)
qed

theorem claim_query_faithful_witness:
  "\<exists>r c'. atox_query_Account ledger_sdk demo ''atos1bob'' = Inr r \<and> ar_Claimable r = 250 \<and>
     ClaimAtos ledger_sdk (app_hook ledger_sdk) demo ''atos1bob'' = Inr (250, c')"
proof -
  have q: "map_sum id (\<lambda>r. (ar_CanClaim r, ar_Claimable r)) (atox_query_Account ledger_sdk demo ''atos1bob'') = Inr (True, 250)"
    by code_simp
  obtain v c1 where s: "SettleAccount ledger_sdk (app_hook ledger_sdk) demo ''bob'' = (v, c1)" by fastforce
  have "fst (SettleAccount ledger_sdk (app_hook ledger_sdk) demo ''bob'') = Inr 250" by code_simp
  then have v: "v = Inr 250" using s by simp
  obtain r where r: "atox_query_Account ledger_sdk demo ''atos1bob'' = Inr r" "ar_CanClaim r" "ar_Claimable r = 250"
    using q by (cases "atox_query_Account ledger_sdk demo ''atos1bob''") auto
  have "acc_from_bech32 (codec ledger_sdk) ''atos1bob'' = Some ''bob''" "\<not> blocked_addr ledger_sdk ''bob''"
    "module_registered ledger_sdk ExchangePoolName" "\<not> isModuleAccount ledger_sdk demo ''bob''"
    by (simp_all add: ledger_sdk_def tag_codec_def isModuleAccount_def)
  note claim_query_faithful [OF ledger_laws demo_atox_safe this(1,4,2,3) s [unfolded v] r(1)]
  then show ?thesis using r by auto
qed

section \<open>Genesis\<close>

lemma fold_SetAtoxAccount:
  "fold SetAtoxAccount as c =
     upd_atox (\<lambda>s. s\<lparr>x_accounts := fold (\<lambda>a. kv_set (ax_Address a) a) as (x_accounts s)\<rparr>) c"
  by (induction as arbitrary: c) (simp_all add: SetAtoxAccount_def upd_atox_def)

text \<open>
  C35: exporting the module and importing the result into a chain without records succeeds and restores the
  parameters, the accumulator, every record, the cursor and the swept index, and changes nothing outside the
  module's store; exporting again gives the same genesis.
\<close>

theorem atox_genesis_round_trip:
  assumes "kv_inv (x_accounts (st_atox c))" "atox_records c" "atox_Params_Validate (atox_GetParams c) = Inr ()"
    and "x_accounts (st_atox c0) = []"
  shows "\<exists>c'. atox_InitGenesis True c0 (atox_ExportGenesis c) = Inr c' \<and> c' = c0\<lparr>st_atox := st_atox c'\<rparr> \<and>
    atox_GetParams c' = atox_GetParams c \<and> GetGlobalState c' = GetGlobalState c \<and>
    x_accounts (st_atox c') = x_accounts (st_atox c) \<and> GetScanCursor c' = GetScanCursor c \<and>
    GetSweptIndex c' = GetSweptIndex c \<and> atox_ExportGenesis c' = atox_ExportGenesis c"
proof -
  let ?es = "x_accounts (st_atox c)"
  have "\<forall>e \<in> set ?es. fst e = ax_Address (snd e)"
    using assms(1,2) by (auto simp: atox_records_def kv_entry_iff [OF assms(1)])
  then have "kv_get (fold (\<lambda>a. kv_set (ax_Address a) a) (map snd ?es) []) = kv_get ?es"
    using fold_kv_set [of ?es ax_Address "[]"] kv_inv_distinct [OF assms(1)] by (simp add: kv_get_map_of)
  then have acc: "fold (\<lambda>a. kv_set (ax_Address a) a) (map snd ?es) [] = ?es"
    by (intro kv_ext kv_inv_fold_set assms(1)) simp_all
  show ?thesis
    using assms(3,4) acc
    by (simp add: atox_InitGenesis_def atox_ExportGenesis_def atox_SetParams_def Let_def SetScanCursor_def SetSweptIndex_def
        upd_atox_def fold_SetAtoxAccount SetGlobalState_def atox_GetParams_def GetGlobalState_def GetScanCursor_def GetSweptIndex_def)
qed

theorem atox_genesis_round_trip_witness:
  "\<exists>c'. atox_InitGenesis True blank (atox_ExportGenesis demo) = Inr c' \<and> x_accounts (st_atox c') = x_accounts (st_atox demo) \<and>
     GlobalIndex (GetGlobalState c') = 500000000000000000 \<and> TotalReleasedToPool (GetGlobalState c') = 500"
proof -
  have v: "x_accounts (st_atox demo) = [(''atos1bob'', \<lparr>ax_Address = ''atos1bob'', Index = 0, Pending = 0, TotalClaimed = 0\<rparr>)]"
    "atox_Params_Validate (atox_GetParams demo) = Inr ()" "x_accounts (st_atox blank) = []"
    "GlobalIndex (GetGlobalState demo) = 500000000000000000" "TotalReleasedToPool (GetGlobalState demo) = 500" by code_simp+
  show ?thesis using atox_genesis_round_trip [OF _ atox_safeD(2) [OF demo_atox_safe] v(2,3)] v(1,4,5) by (auto simp: kv_inv_def)
qed

end
