(* ===== verification/AtoxSweep.thy ===== *)
theory AtoxSweep
  imports AtoxSpec
begin

text \<open>
  The sweep at the end of the block, over a whole pass: the keys and cursors of the store, what a payout
  does to its holder and leaves alone elsewhere, the end block as a batch of payouts, and that a pass reaches and pays
  every recorded holder.
\<close>

section \<open>Keys and cursors\<close>

lemma kv_set_keys: "kv_inv m \<Longrightarrow> k \<in> fst ` set m \<Longrightarrow> map fst (kv_set k v m) = map fst m"
  by (induction k v m rule: kv_set.induct) (force simp: kv_inv_Cons)+

text \<open>The cursor after a key, the key with a zero byte, is the least string above it.\<close>

lemma cursor_after: "k @ [char_of (0 :: nat)] \<le> k' \<longleftrightarrow> k < (k' :: string)"
proof (induction k arbitrary: k')
  case Nil
  have "char_of (0 :: nat) \<le> c" for c by (simp add: less_eq_char_def)
  then have "char_of (0 :: nat) < c \<or> char_of (0 :: nat) = c" for c by (simp add: order_le_less)
  then show ?case by (cases k') auto
next
  case (Cons c k)
  then show ?case by (cases k') auto
qed

lemma AccountKey_mono: "atox_AccountKey k < atox_AccountKey k' \<longleftrightarrow> k < k'"
  by (simp add: atox_AccountKey_def)

lemma AddressFromAccountKey_key: "AddressFromAccountKey (atox_AccountKey k) = k"
  by (simp add: AddressFromAccountKey_def atox_AccountKey_def)

lemma sorted_filter_drop:
  assumes "sorted_wrt (<) (ks :: string list)" "j < length ks"
  shows "filter (\<lambda>k. ks ! j < k) ks = drop (Suc j) ks"
proof -
  have "ks = take (Suc j) ks @ drop (Suc j) ks" by simp
  moreover have "filter (\<lambda>k. ks ! j < k) (take (Suc j) ks) = []"
    using assms by (auto simp: filter_empty_conv in_set_conv_nth sorted_wrt_iff_nth_less)
      (metis less_SucE less_asym less_irrefl)
  moreover have "filter (\<lambda>k. ks ! j < k) (drop (Suc j) ks) = drop (Suc j) ks"
    using assms by (auto simp: filter_id_conv in_set_conv_nth sorted_wrt_iff_nth_less)
  ultimately show ?thesis by (metis append_Nil filter_append)
qed

section \<open>What a payout leaves alone\<close>

definition sweep_keeps :: "'x sdk \<Rightarrow> addr \<Rightarrow> 'x ctx \<Rightarrow> 'x ctx \<Rightarrow> bool" where
  "sweep_keeps K a c c' \<longleftrightarrow> x_params (st_atox c') = x_params (st_atox c) \<and> x_cursor (st_atox c') = x_cursor (st_atox c) \<and>
     x_swept (st_atox c') = x_swept (st_atox c) \<and> GlobalIndex (GetGlobalState c') = GlobalIndex (GetGlobalState c) \<and>
     (kv_inv (x_accounts (st_atox c)) \<longrightarrow> acc_string (codec K) a \<in> fst ` set (x_accounts (st_atox c)) \<longrightarrow>
        map fst (x_accounts (st_atox c')) = map fst (x_accounts (st_atox c)))"

lemma sweep_keeps_refl [simp]: "sweep_keeps K a c c"
  by (simp add: sweep_keeps_def)

lemma sweep_keeps_trans [trans]:
  assumes "sweep_keeps K a c d" "sweep_keeps K a d e"
  shows "sweep_keeps K a c e"
proof -
  have "kv_inv (x_accounts (st_atox d)) \<longleftrightarrow> kv_inv (x_accounts (st_atox c))"
    "fst ` set (x_accounts (st_atox d)) = fst ` set (x_accounts (st_atox c))"
    if "map fst (x_accounts (st_atox d)) = map fst (x_accounts (st_atox c))"
    using that by (simp_all add: kv_inv_def) (metis list.set_map)
  then show ?thesis using assms by (auto simp: sweep_keeps_def)
qed

lemma sweep_keeps_store:
  "ax_Address r = acc_string (codec K) a \<Longrightarrow> sweep_keeps K a c (SetAtoxAccount r c)"
  "GlobalIndex gs = GlobalIndex (GetGlobalState c) \<Longrightarrow> sweep_keeps K a c (SetGlobalState gs c)"
  "st_atox c' = st_atox c \<Longrightarrow> sweep_keeps K a c c'"
  by (simp_all add: sweep_keeps_def SetAtoxAccount_def SetGlobalState_def upd_atox_def GetGlobalState_def kv_set_keys)

lemma settle_sweep_keeps:
  assumes laws: "sdk_laws K" and rec: "atox_records c" and s: "SettleAccountWithBalance K (app_hook K) c a b = (r, c')"
  shows "sweep_keeps K a c c'"
proof -
  let ?gs = "GetGlobalState c"
  obtain acct found where g: "getAtoxAccount K c a = (acct, found)" by fastforce
  then have ad: "ax_Address acct = acc_string (codec K) a" using ax_Address_Get [OF rec, of K a] by (simp add: GetAtoxAccount_def)
  obtain owed burn where o: "ComputeOwed (dmath K) b (Index acct) (GlobalIndex ?gs) = (owed, burn)" by fastforce
  have burnt: "st_atox c1 = st_atox c" if "0 < burn" "burnAtoxFor K (app_hook K) c a burn = (r1, c1)" for r1 c1
    using settle_burn_cases(2) [OF sdk_lawsD(1,7) [OF laws] that] by (rule quiet_simps)
  have both: "sweep_keeps K a c (SetGlobalState gs (SetAtoxAccount x c1))"
    if "st_atox c1 = st_atox c" "ax_Address x = ax_Address acct" "GlobalIndex gs = GlobalIndex ?gs" for gs x c1
  proof -
    have "sweep_keeps K a c c1" by (rule sweep_keeps_store(3) [OF that(1)])
    also have "sweep_keeps K a c1 (SetAtoxAccount x c1)" by (rule sweep_keeps_store(1)) (simp add: that(2) ad)
    also have "sweep_keeps K a (SetAtoxAccount x c1) (SetGlobalState gs (SetAtoxAccount x c1))"
      by (rule sweep_keeps_store(2)) (use that(1,3) in \<open>simp add: GetGlobalState_def SetAtoxAccount_def upd_atox_def\<close>)
    finally show ?thesis .
  qed
  show ?thesis
    using s unfolding SettleAccountWithBalance_def g o Let_def prod.case
    by (auto simp: ad split: if_splits sum.splits prod.splits
        intro: sweep_keeps_store(1) sweep_keeps_store(3) [OF burnt] both [OF burnt] both)
qed

lemma payout_sweep_keeps:
  assumes laws: "sdk_laws K" and safe: "atox_safe K c"
  shows "sweep_keeps K a c (snd (PayoutPending K (app_hook K) c a mn))"
proof (cases "SettleAccount K (app_hook K) c a")
  case (Pair r c1)
  note st = this [unfolded SettleAccount_def]
  note k1 = settle_sweep_keeps [OF laws atox_safeD(2) [OF safe] st]
  note rec = atox_safeD(2) [OF settle_safe(1) [OF laws safe st]]
  let ?acct = "GetAtoxAccount K c1 a"
  have paid: "sweep_keeps K a c (SetAtoxAccount x c2)" "sweep_keeps K a c (SetGlobalState gs (SetAtoxAccount x c2))"
    if "send_from_module K (app_hook K) c1 ExchangePoolName a cs = Inr c2" "new_coins (base_denom K) n = Inr cs" "0 < n"
      "ax_Address x = ax_Address ?acct" "GlobalIndex gs = GlobalIndex (GetGlobalState (SetAtoxAccount x c2))" for cs c2 n x gs
  proof -
    have "cs = [(base_denom K, n)]" using new_coins_Inr [OF that(2)] that(3) by simp
    then have "sweep_keeps K a c1 c2"
      using base_send(1) [OF laws] send_from_module_InrD [OF sdk_lawsD(1) [OF laws] that(1)] sweep_keeps_store(3) by blast
    moreover have "sweep_keeps K a c2 (SetAtoxAccount x c2)"
      by (rule sweep_keeps_store(1)) (simp add: that(4) ax_Address_Get [OF rec])
    ultimately show 1: "sweep_keeps K a c (SetAtoxAccount x c2)" using k1 by (blast intro: sweep_keeps_trans)
    show "sweep_keeps K a c (SetGlobalState gs (SetAtoxAccount x c2))"
      by (rule sweep_keeps_trans [OF 1 sweep_keeps_store(2) [OF that(5)]])
  qed
  show ?thesis
    unfolding PayoutPending_def Pair Let_def
    using k1 by (auto split: sum.split if_split intro: paid)
qed

lemma sweep_payouts_keeps:
  assumes laws: "sdk_laws K"
  shows "atox_safe K c \<Longrightarrow> kv_inv (x_accounts (st_atox c)) \<Longrightarrow> \<forall>k \<in> set keys. canonical (codec K) (AddressFromAccountKey k) \<and>
      AddressFromAccountKey k \<in> fst ` set (x_accounts (st_atox c)) \<Longrightarrow>
    sweep_payouts K (app_hook K) mn keys c = c' \<Longrightarrow>
    x_params (st_atox c') = x_params (st_atox c) \<and> x_cursor (st_atox c') = x_cursor (st_atox c) \<and>
    x_swept (st_atox c') = x_swept (st_atox c) \<and> GlobalIndex (GetGlobalState c') = GlobalIndex (GetGlobalState c) \<and>
    map fst (x_accounts (st_atox c')) = map fst (x_accounts (st_atox c)) \<and> atox_safe K c'"
proof (induction keys arbitrary: c)
  case (Cons k keys)
  obtain a where a: "acc_from_bech32 (codec K) (AddressFromAccountKey k) = Some a"
    "acc_string (codec K) a = AddressFromAccountKey k" using Cons.prems(3) by (auto simp: canonical_def)
  let ?c = "snd (PayoutPending K (app_hook K) c a mn)"
  have k: "sweep_keeps K a c ?c" "atox_safe K ?c"
    using payout_sweep_keeps [OF laws Cons.prems(1)] payout_safe [OF laws Cons.prems(1)] by blast+
  have keys: "map fst (x_accounts (st_atox ?c)) = map fst (x_accounts (st_atox c))"
    using k(1) Cons.prems(2,3) a(2) by (simp add: sweep_keeps_def)
  then have "kv_inv (x_accounts (st_atox ?c))" "fst ` set (x_accounts (st_atox ?c)) = fst ` set (x_accounts (st_atox c))"
    using Cons.prems(2) by (simp_all add: kv_inv_def) (metis list.set_map)
  then show ?case using Cons.IH [OF k(2)] Cons.prems(3,4) a(1) k(1) keys by (simp add: sweep_keeps_def)
qed simp

section \<open>Settlements that go through\<close>

text \<open>
  What the bank has to allow for a settlement to succeed: the ATOX module is registered, is no escrow account and
  may burn what it holds (\<open>atox_burner\<close>), and none of the account's ATOX is locked, as in a vesting account
  (\<open>atox_unlocked\<close>).
\<close>

definition atox_burner :: "'x sdk \<Rightarrow> bool" where
  "atox_burner K \<longleftrightarrow> module_registered K AtoxModuleName \<and>
     (\<forall>x. module_address K AtoxModuleName \<notin> set (channel_escrows K x)) \<and>
     (\<forall>c n. 0 < n \<longrightarrow> n \<le> balance K c (module_address K AtoxModuleName) AtoxBaseDenom \<longrightarrow>
        (\<exists>c'. burn_coins K c AtoxModuleName [(AtoxBaseDenom, n)] = Inr c'))"

definition atox_unlocked :: "'x sdk \<Rightarrow> addr \<Rightarrow> bool" where
  "atox_unlocked K a \<longleftrightarrow> (\<forall>x n. 0 < n \<longrightarrow> n \<le> bank_balance K x a AtoxBaseDenom \<longrightarrow>
     (\<exists>y. bank_sub K x a [(AtoxBaseDenom, n)] = Inr y))"

lemma burn_succeeds:
  assumes laws: "sdk_laws K" and b: "atox_burner K" "atox_unlocked K a" and n: "0 < n" "n \<le> AtoxBalance K c a"
  obtains c' where "burnAtoxFor K (app_hook K) c a n = (Inr (), c')"
proof -
  note bank = sdk_lawsD(1) [OF laws]
  let ?cs = "[(AtoxBaseDenom, n)]" and ?m = "module_address K AtoxModuleName" and ?c = "c\<lparr>fee_in_progress := True\<rparr>"
  obtain x1 where x1: "bank_sub K (ext c) a ?cs = Inr x1"
    using b(2) n by (auto simp: atox_unlocked_def AtoxBalance_def)
  obtain c1 where r: "energy_SendRestriction K (?c\<lparr>ext := x1\<rparr>) a ?m ?cs = Inr (?m, c1)" using restriction_total .
  note fr = frame_simps [OF restriction_frame(2) [OF r]]
  have h: "app_hook K (?c\<lparr>ext := x1\<rparr>) a ?m ?cs = Inr (?m, c1)"
    unfolding app_hook_eq [OF bank r] using fr b(1) n(1)
    by (simp add: atox_SendRestriction_def Let_def rejectIBCEscrow_def atox_burner_def)
  obtain x3 where x3: "bank_add K (ext c1) ?m ?cs = Inr x3" using credit_ok [OF laws n(1)] .
  have send: "send_to_module K (app_hook K) ?c a AtoxModuleName ?cs = Inr (c1\<lparr>ext := x3\<rparr>)"
    using b(1) x1 h x3 bank by (simp add: send_to_module_eq [OF bank] atox_burner_def bank_laws_def send_law_def)
  have "balance K (c1\<lparr>ext := x3\<rparr>) ?m AtoxBaseDenom \<ge> n"
    using bank_add_law(3) [OF bank x3, of ?m AtoxBaseDenom] bank_balance_nonneg [OF bank, of "ext c1" ?m AtoxBaseDenom] by simp
  then obtain c2 where "burn_coins K (c1\<lparr>ext := x3, fee_in_progress := fee_in_progress c\<rparr>) AtoxModuleName ?cs = Inr c2"
    using b(1) n(1) unfolding atox_burner_def by fastforce
  then show ?thesis using that send n(1) by (simp add: burnAtoxFor_def new_coins_def)
qed

text \<open>Hence a settlement goes through: what it burns is at most what the account holds.\<close>

lemma settle_succeeds:
  assumes laws: "sdk_laws K" and safe: "atox_safe K c" and b: "atox_burner K" "atox_unlocked K a"
  obtains v c1 where "SettleAccount K (app_hook K) c a = (Inr v, c1)"
proof (cases "SettleAccount K (app_hook K) c a")
  case (Pair r c1)
  note d = atox_safeD(2,5) [OF safe]
  have "\<exists>v. r = Inr v"
  proof (rule ccontr)
    assume "\<nexists>v. r = Inr v"
    then obtain e where e: "r = Inl e" by (cases r) auto
    let ?n = "owed_floor (AtoxBalance K c a) (Index (GetAtoxAccount K c a)) (GlobalIndex (GetGlobalState c))"
    obtain found where g: "getAtoxAccount K c a = (GetAtoxAccount K c a, found)"
      by (cases "getAtoxAccount K c a") (simp add: GetAtoxAccount_def)
    have n: "0 < ?n" "burnAtoxFor K (app_hook K) c a ?n = (Inl e, c1)"
      using Pair e ComputeOwed_owed_floor [OF sdk_lawsD(3) [OF laws] d(2)]
      by (auto simp: SettleAccount_def SettleAccountWithBalance_def g Let_def split: if_splits sum.splits prod.splits)
    have "?n \<le> AtoxBalance K c a" using n(1) by (simp add: owed_floor_def split: if_splits)
    then show False using burn_succeeds [OF laws b n(1)] n(2) by (metis Inl_Inr_False Pair_inject)
  qed
  then show ?thesis using that Pair by blast
qed


section \<open>What a payout does to a holder\<close>

text \<open>A holder as the sweep sees it: index, claim, ATOX and ATOS; and the holder after it was reached.\<close>

definition holder :: "'x sdk \<Rightarrow> 'x ctx \<Rightarrow> addr \<Rightarrow> int \<times> int \<times> int \<times> int" where
  "holder K c a = (Index (GetAtoxAccount K c a), Pending (GetAtoxAccount K c a), AtoxBalance K c a, balance K c a (base_denom K))"

definition swept :: "int \<Rightarrow> int \<Rightarrow> int \<times> int \<times> int \<times> int \<Rightarrow> int \<times> int \<times> int \<times> int" where
  "swept mn g h = (case h of (i, p, b, v) \<Rightarrow>
     let n = owed_floor b i g; due = p + n; pays = 0 < due \<and> mn \<le> due in
     (g, if pays then 0 else due, b - n, v + (if pays then due else 0)))"

definition reachable_holder :: "'x sdk \<Rightarrow> 'x ctx \<Rightarrow> addr \<Rightarrow> bool" where
  "reachable_holder K c a \<longleftrightarrow> \<not> isModuleAccount K c a \<and> \<not> blocked_addr K a \<and> atox_unlocked K a"

lemma holder_book:
  "holder K c a = (bk_index (book_of K c) a, bk_pending (book_of K c) a, bk_balance (book_of K c) a, balance K c a (base_denom K))"
  by (simp add: holder_def)

lemma payout_self:
  assumes laws: "sdk_laws K" and safe: "atox_safe K c" and reg: "module_registered K ExchangePoolName" and b: "atox_burner K"
    and a: "reachable_holder K c a"
  shows "holder K (snd (PayoutPending K (app_hook K) c a mn)) a = swept mn (GlobalIndex (GetGlobalState c)) (holder K c a)"
proof -
  obtain v c1 where st: "SettleAccount K (app_hook K) c a = (Inr v, c1)"
    using settle_succeeds [OF laws safe b] a by (auto simp: reachable_holder_def)
  note d = atox_safeD [OF safe] and ne = sdk_lawsD(7) [OF laws]
  note ref = settle_refines [OF laws d(2) d(5) d(6) st [unfolded SettleAccount_def]]
  obtain r c' where p: "PayoutPending K (app_hook K) c a mn = (r, c')" by fastforce
  have pool: "a \<noteq> ExchangePoolAddress K"
    using sdk_lawsD(6) [OF laws reg, of "ext c"] a by (auto simp: reachable_holder_def isModuleAccount_def ExchangePoolAddress_def)
  have one: "holder K c1 a = (GlobalIndex (GetGlobalState c),
      Pending (GetAtoxAccount K c a) + owed_floor (AtoxBalance K c a) (Index (GetAtoxAccount K c a)) (GlobalIndex (GetGlobalState c)),
      AtoxBalance K c a - owed_floor (AtoxBalance K c a) (Index (GetAtoxAccount K c a)) (GlobalIndex (GetGlobalState c)),
      balance K c a (base_denom K))"
    using a touch_simps(10) [OF ref(2) ne] by (simp add: holder_book ref(1) reachable_holder_def settle_spec_def Let_def)
  from payout_cases [OF laws safe p] have "holder K c' a = swept mn (GlobalIndex (GetGlobalState c)) (holder K c a)"
  proof cases
    case (4 v' c2)
    then have [simp]: "c2 = c1" using st by simp
    have bk: "book_of K c' = (pay_spec a (book_of K c1))\<lparr>bk_pool := ExchangePoolBalance K c'\<rparr>"
      and bal: "balance K c' a (base_denom K) = balance K c1 a (base_denom K) + Pending (GetAtoxAccount K c1 a)"
      using 4(5) pool ne by (simp_all add: paid_book_def)
    have "holder K c' a = (Index (GetAtoxAccount K c1 a), 0, AtoxBalance K c1 a, balance K c1 a (base_denom K) + Pending (GetAtoxAccount K c1 a))"
      by (simp add: holder_book bk bal pay_spec_def)
    then show ?thesis using one 4(3,4) by (auto simp: swept_def holder_def Let_def)
  next
    case 2
    then have "c' = c1" using st by simp
    then show ?thesis using one 2(3) by (auto simp: swept_def holder_def Let_def)
  qed (use st reg a in \<open>auto simp: reachable_holder_def\<close>)
  then show ?thesis by (simp add: p)
qed

lemma payout_frame:
  assumes laws: "sdk_laws K" and safe: "atox_safe K c"
  shows "isModuleAccount K (snd (PayoutPending K (app_hook K) c a mn)) = isModuleAccount K c"
    "GlobalIndex (GetGlobalState (snd (PayoutPending K (app_hook K) c a mn))) = GlobalIndex (GetGlobalState c)"
    "module_registered K ExchangePoolName \<Longrightarrow> b \<noteq> a \<Longrightarrow> \<not> isModuleAccount K c b \<Longrightarrow>
      holder K (snd (PayoutPending K (app_hook K) c a mn)) b = holder K c b"
proof -
  obtain r c' where p: "PayoutPending K (app_hook K) c a mn = (r, c')" by fastforce
  note d = atox_safeD [OF safe] and ne = sdk_lawsD(7) [OF laws]
  let ?ok = "\<lambda>c'. isModuleAccount K c' = isModuleAccount K c \<and> GlobalIndex (GetGlobalState c') = GlobalIndex (GetGlobalState c) \<and>
    (module_registered K ExchangePoolName \<longrightarrow> b \<noteq> a \<longrightarrow> \<not> isModuleAccount K c b \<longrightarrow> holder K c' b = holder K c b)"
  have settled: "?ok c1" if "SettleAccount K (app_hook K) c a = (Inr v, c1)" for v c1
  proof -
    note ref = settle_refines [OF laws d(2) d(5) d(6) that [unfolded SettleAccount_def]]
    have "GlobalIndex (GetGlobalState c1) = GlobalIndex (GetGlobalState c)"
      using arg_cong [OF ref(1), of "\<lambda>s. GlobalIndex (bk_state s)"] by (simp add: settle_spec_def Let_def)
    moreover have "holder K c1 b = holder K c b" if "b \<noteq> a"
      using that touch_simps(10) [OF ref(2)] ne by (simp add: holder_book ref(1)) (simp add: settle_spec_def Let_def)
    ultimately show ?thesis using touch_simps(8) [OF ref(2)] by simp
  qed
  have "?ok c'"
  proof (rule payout_cases [OF laws safe p])
    fix e assume st: "SettleAccount K (app_hook K) c a = (Inl e, c')"
    show ?thesis
    proof (rule settle_fails [OF laws d(2) d(5) st [unfolded SettleAccount_def]])
      fix n assume f: "module_registered K AtoxModuleName" "touch K c c'"
        "book_of K c' = move_spec a (module_address K AtoxModuleName) n (book_of K c)"
      have "b \<noteq> module_address K AtoxModuleName" if "\<not> isModuleAccount K c b"
        using sdk_lawsD(6) [OF laws f(1), of "ext c"] that by (auto simp: isModuleAccount_def)
      moreover have "GetGlobalState c' = GetGlobalState c" using arg_cong [OF f(3), of bk_state] by (simp add: move_spec_def)
      moreover have "holder K c' b = holder K c b" if "b \<noteq> a" "b \<noteq> module_address K AtoxModuleName"
        using that touch_simps(10) [OF f(2)] ne by (simp add: holder_book f(3)) (simp add: move_spec_def)
      ultimately show ?thesis using touch_simps(8) [OF f(2)] by simp
    qed simp
  next
    fix v c1 assume st: "SettleAccount K (app_hook K) c a = (Inr v, c1)" and b: "paid_book K a c1 c'"
    have pool: "b \<noteq> ExchangePoolAddress K" if "\<not> isModuleAccount K c b" "module_registered K ExchangePoolName"
      using sdk_lawsD(6) [OF laws that(2), of "ext c"] that(1) by (auto simp: isModuleAccount_def ExchangePoolAddress_def)
    have bk: "book_of K c' = (pay_spec a (book_of K c1))\<lparr>bk_pool := ExchangePoolBalance K c'\<rparr>"
      using b by (simp add: paid_book_def)
    have "isModuleAccount K c' = isModuleAccount K c1" "GlobalIndex (GetGlobalState c') = GlobalIndex (GetGlobalState c1)"
      using arg_cong [OF bk, of bk_module] arg_cong [OF bk, of "\<lambda>s. GlobalIndex (bk_state s)"] by (simp_all add: pay_spec_def)
    moreover have "holder K c' b = holder K c1 b"
      if "module_registered K ExchangePoolName" "b \<noteq> a" "\<not> isModuleAccount K c b"
      using b that pool ne by (simp add: holder_book bk) (simp add: paid_book_def pay_spec_def)
    ultimately show ?thesis using settled [OF st] by simp
  qed (use settled in blast)+
  then show "isModuleAccount K (snd (PayoutPending K (app_hook K) c a mn)) = isModuleAccount K c"
    "GlobalIndex (GetGlobalState (snd (PayoutPending K (app_hook K) c a mn))) = GlobalIndex (GetGlobalState c)"
    "module_registered K ExchangePoolName \<Longrightarrow> b \<noteq> a \<Longrightarrow> \<not> isModuleAccount K c b \<Longrightarrow>
      holder K (snd (PayoutPending K (app_hook K) c a mn)) b = holder K c b" by (simp_all add: p)
qed

lemma sweep_payouts_holder:
  assumes laws: "sdk_laws K" and reg: "module_registered K ExchangePoolName" and b: "atox_burner K"
  shows "atox_safe K c \<Longrightarrow> distinct keys \<Longrightarrow> \<forall>k \<in> set keys. \<exists>k'. k = atox_AccountKey k' \<and> canonical (codec K) k' \<Longrightarrow>
    reachable_holder K c a \<Longrightarrow>
    holder K (sweep_payouts K (app_hook K) mn keys c) a =
      (if atox_AccountKey (acc_string (codec K) a) \<in> set keys then swept mn (GlobalIndex (GetGlobalState c)) (holder K c a)
       else holder K c a) \<and>
    isModuleAccount K (sweep_payouts K (app_hook K) mn keys c) = isModuleAccount K c"
proof (induction keys arbitrary: c)
  case (Cons k keys)
  obtain x where x: "acc_from_bech32 (codec K) (AddressFromAccountKey k) = Some x" "k = atox_AccountKey (acc_string (codec K) x)"
    using Cons.prems(3) by (auto simp: canonical_def AddressFromAccountKey_key)
  let ?c = "snd (PayoutPending K (app_hook K) c x mn)"
  note fr = payout_frame [OF laws Cons.prems(1), where a = x and mn = mn]
  have "reachable_holder K ?c a" using Cons.prems(4) by (simp add: reachable_holder_def fr(1))
  note ih = Cons.IH [OF payout_safe [OF laws Cons.prems(1)] _ _ this]
  have "atox_AccountKey (acc_string (codec K) a) = k \<longleftrightarrow> a = x"
    using injD [OF sdk_lawsD(5) [OF laws]] by (auto simp: x(2) atox_AccountKey_def)
  then show ?case
    using ih Cons.prems payout_self [OF laws Cons.prems(1) reg b, of x mn] fr(3) [OF reg, of a] fr(1,2) x(1)
    by (auto simp: reachable_holder_def)
qed simp

section \<open>A pass of the sweep\<close>

definition sweep_keys :: "'x ctx \<Rightarrow> string list" where
  "sweep_keys c = map (\<lambda>e. atox_AccountKey (fst e)) (x_accounts (st_atox c))"

lemma sweep_keys_fst: "sweep_keys c = map atox_AccountKey (map fst (x_accounts (st_atox c)))"
  by (simp add: sweep_keys_def)

text \<open>The cursor stands before entry \<open>j\<close> of the account keys.\<close>

definition sweep_at :: "nat \<Rightarrow> 'x ctx \<Rightarrow> bool" where
  "sweep_at j c \<longleftrightarrow>
     (if j = 0 then GetScanCursor c = [] \<and> GetSweptIndex c \<noteq> GlobalIndex (GetGlobalState c)
      else j < length (sweep_keys c) \<and> GetScanCursor c = sweep_keys c ! (j - 1) @ [char_of (0 :: nat)] \<and>
           GetSweptIndex c = GlobalIndex (GetGlobalState c))"

lemma sweep_batch:
  assumes "kv_inv (x_accounts (st_atox c))" "sweep_at j c"
  shows "collectSweepBatch c limit = (take (unat limit) (drop j (sweep_keys c)), unat limit < length (drop j (sweep_keys c)))"
proof -
  let ?ks = "sweep_keys c"
  have srt: "sorted_wrt (<) ?ks"
    using assms(1) by (simp add: sweep_keys_def kv_inv_def sorted_wrt_map AccountKey_mono)
  have all: "atox_AccountKey [] \<le> atox_AccountKey k" for k by (simp add: atox_AccountKey_def)
  have "account_keys_from c (if GetScanCursor c = [] then atox_AccountKey [] else GetScanCursor c) = drop j ?ks"
  proof (cases "j = 0")
    case True
    then show ?thesis using assms(2) all
      by (simp add: sweep_at_def account_keys_from_def sweep_keys_def filter_id_conv)
  next
    case False
    then have "account_keys_from c (GetScanCursor c) = filter (\<lambda>k. ?ks ! (j - 1) < k) ?ks"
      using assms(2) by (simp add: sweep_at_def account_keys_from_def sweep_keys_def [symmetric] cursor_after)
    also have "\<dots> = drop j ?ks" using sorted_filter_drop [OF srt, of "j - 1"] assms(2) False by (auto simp: sweep_at_def)
    finally show ?thesis using assms(2) False by (simp add: sweep_at_def)
  qed
  then show ?thesis by (simp add: collectSweepBatch_def)
qed

definition sweep_ready :: "'x sdk \<Rightarrow> 'x ctx \<Rightarrow> bool" where
  "sweep_ready K c \<longleftrightarrow> atox_safe K c \<and> kv_inv (x_accounts (st_atox c)) \<and>
     (\<forall>k \<in> fst ` set (x_accounts (st_atox c)). canonical (codec K) k) \<and>
     Enabled (atox_GetParams c) \<and> 0 < unat (AutoSettlePerBlock (atox_GetParams c))"

text \<open>An end block in the middle of a pass: it opens the pass if the cursor is empty, pays its batch and moves the cursor.\<close>

definition sweep_open :: "'x ctx \<Rightarrow> 'x ctx" where
  "sweep_open c = (if GetScanCursor c = [] then SetSweptIndex (GlobalIndex (GetGlobalState c)) c else c)"

lemma sweep_open_simps:
  "atox_safe K (sweep_open c) = atox_safe K c" "x_accounts (st_atox (sweep_open c)) = x_accounts (st_atox c)"
  "x_params (st_atox (sweep_open c)) = x_params (st_atox c)" "x_cursor (st_atox (sweep_open c)) = x_cursor (st_atox c)"
  "GetGlobalState (sweep_open c) = GetGlobalState c" "ext (sweep_open c) = ext c"
  by (simp_all add: sweep_open_def cursor_safe)
    (simp_all add: SetSweptIndex_def upd_atox_def GetGlobalState_def)

lemma sweep_open_swept: "sweep_at j c \<Longrightarrow> GetSweptIndex (sweep_open c) = GlobalIndex (GetGlobalState c)"
  by (auto simp: sweep_open_def sweep_at_def split: if_splits) (simp add: SetSweptIndex_def upd_atox_def GetSweptIndex_def)

lemma sweep_block_eq:
  assumes ready: "sweep_ready K c" and at: "sweep_at j c"
  defines "m \<equiv> unat (AutoSettlePerBlock (atox_GetParams c))"
  defines "keys \<equiv> take m (drop j (sweep_keys c))"
  shows "atox_EndBlocker K (app_hook K) c =
    SetScanCursor (if j + m < length (sweep_keys c) then sweep_keys c ! (j + m - 1) @ [char_of (0 :: nat)] else [])
      (sweep_payouts K (app_hook K) (MinAutoPayout (atox_GetParams c)) keys (sweep_open c))"
proof -
  let ?p = "atox_GetParams c"
  have "collectSweepBatch (sweep_open c) (AutoSettlePerBlock ?p) = collectSweepBatch c (AutoSettlePerBlock ?p)"
    by (simp add: collectSweepBatch_def GetScanCursor_def account_keys_from_def sweep_open_simps)
  then have batch: "collectSweepBatch (sweep_open c) (AutoSettlePerBlock ?p) = (keys, m < length (drop j (sweep_keys c)))"
    using sweep_batch [OF _ at, of "AutoSettlePerBlock ?p"] ready by (simp add: sweep_ready_def keys_def m_def)
  have run: "\<not> (\<not> Enabled ?p \<or> AutoSettlePerBlock ?p = 0)" "\<not> (GetScanCursor c = [] \<and> GetSweptIndex c = GlobalIndex (GetGlobalState c))"
    using ready at by (auto simp: sweep_ready_def sweep_at_def split: if_splits)
  have "last keys = sweep_keys c ! (j + m - 1)" if "j + m < length (sweep_keys c)"
    using that ready by (simp add: keys_def last_conv_nth sweep_ready_def m_def)
  then show ?thesis
    unfolding atox_EndBlocker_def Let_def if_not_P [OF run(1)] if_not_P [OF run(2)] sweep_open_def [symmetric] batch prod.case
    by auto
qed

lemma sweep_keys_canonical:
  assumes "sweep_ready K c" "k \<in> set (sweep_keys c)"
  obtains k' where "k = atox_AccountKey k'" "canonical (codec K) k'" "k' \<in> fst ` set (x_accounts (st_atox c))"
  using assms by (auto simp: sweep_ready_def sweep_keys_def)

lemma sweep_keys_distinct: "sweep_ready K c \<Longrightarrow> distinct (sweep_keys c)"
  using kv_inv_distinct [of "x_accounts (st_atox c)"] unfolding sweep_keys_fst distinct_map [of atox_AccountKey]
  by (simp add: sweep_ready_def inj_on_def atox_AccountKey_def)

lemma sweep_block:
  assumes laws: "sdk_laws K" and ready: "sweep_ready K c" and at: "sweep_at j c"
  defines "c' \<equiv> atox_EndBlocker K (app_hook K) c" and "m \<equiv> unat (AutoSettlePerBlock (atox_GetParams c))"
  shows "sweep_ready K c'" "sweep_keys c' = sweep_keys c" "atox_GetParams c' = atox_GetParams c"
    "GlobalIndex (GetGlobalState c') = GlobalIndex (GetGlobalState c)" "GetSweptIndex c' = GlobalIndex (GetGlobalState c)"
    "GetScanCursor c' = (if j + m < length (sweep_keys c) then sweep_keys c ! (j + m - 1) @ [char_of (0 :: nat)] else [])"
proof -
  let ?p = "atox_GetParams c" and ?g = "GlobalIndex (GetGlobalState c)"
  define keys where "keys = take m (drop j (sweep_keys c))"
  define c2 where "c2 = sweep_payouts K (app_hook K) (MinAutoPayout ?p) keys (sweep_open c)"
  have sub: "set keys \<subseteq> set (sweep_keys c)" unfolding keys_def by (meson in_set_dropD in_set_takeD subsetI)
  have "\<forall>k \<in> set keys. canonical (codec K) (AddressFromAccountKey k) \<and>
      AddressFromAccountKey k \<in> fst ` set (x_accounts (st_atox (sweep_open c)))"
  proof
    fix k assume "k \<in> set keys"
    then obtain k' where "k = atox_AccountKey k'" "canonical (codec K) k'" "k' \<in> fst ` set (x_accounts (st_atox c))"
      using sub sweep_keys_canonical [OF ready] by (metis subsetD)
    then show "canonical (codec K) (AddressFromAccountKey k) \<and>
        AddressFromAccountKey k \<in> fst ` set (x_accounts (st_atox (sweep_open c)))"
      by (simp add: sweep_open_simps AddressFromAccountKey_key)
  qed
  from sweep_payouts_keeps [OF laws _ _ this, of "MinAutoPayout ?p" c2, folded c2_def]
  have two: "x_params (st_atox c2) = x_params (st_atox c)" "x_swept (st_atox c2) = x_swept (st_atox (sweep_open c))"
    "GlobalIndex (GetGlobalState c2) = ?g" "map fst (x_accounts (st_atox c2)) = map fst (x_accounts (st_atox c))" "atox_safe K c2"
    using ready by (simp_all add: sweep_open_simps sweep_ready_def)
  let ?k = "if j + m < length (sweep_keys c) then sweep_keys c ! (j + m - 1) @ [char_of (0 :: nat)] else []"
  have c': "c' = SetScanCursor ?k c2"
    unfolding c'_def c2_def keys_def m_def by (rule sweep_block_eq [OF ready at])
  have cur: "x_accounts (st_atox c') = x_accounts (st_atox c2)" "x_params (st_atox c') = x_params (st_atox c2)"
    "x_global (st_atox c') = x_global (st_atox c2)" "x_swept (st_atox c') = x_swept (st_atox c2)" "x_cursor (st_atox c') = ?k"
    by (simp_all add: c' SetScanCursor_def upd_atox_def)
  have safe: "atox_safe K c'" using two(5) by (simp add: c' cursor_safe)
  have ks: "map fst (x_accounts (st_atox c')) = map fst (x_accounts (st_atox c))" using two(4) by (simp add: cur(1))
  then show "sweep_keys c' = sweep_keys c" unfolding sweep_keys_fst by (simp only:)
  show par: "atox_GetParams c' = atox_GetParams c" using two(1) by (simp add: atox_GetParams_def cur(2))
  have "fst ` set (x_accounts (st_atox c')) = fst ` set (x_accounts (st_atox c))" using ks by (metis list.set_map)
  then show "sweep_ready K c'" using ready safe par ks by (simp add: sweep_ready_def kv_inv_def)
  show "GlobalIndex (GetGlobalState c') = ?g" "GetSweptIndex c' = ?g"
    using two(2,3) sweep_open_swept [OF at] by (simp_all add: GetGlobalState_def GetSweptIndex_def cur(3,4))
  show "GetScanCursor c' = ?k" by (simp add: GetScanCursor_def cur(5))
qed

lemma holder_cong:
  assumes "x_accounts (st_atox c') = x_accounts (st_atox c)" "x_global (st_atox c') = x_global (st_atox c)" "ext c' = ext c"
  shows "holder K c' a = holder K c a" "isModuleAccount K c' = isModuleAccount K c"
  using same_book(1) [OF assms, of K] assms(3) by (simp_all add: holder_book isModuleAccount_def fun_eq_iff)

text \<open>The holders of the batch are reached, the others are left alone.\<close>

lemma sweep_block_holder:
  assumes laws: "sdk_laws K" and ready: "sweep_ready K c" and at: "sweep_at j c"
    and reg: "module_registered K ExchangePoolName" and b: "atox_burner K" and a: "reachable_holder K c a"
  defines "c' \<equiv> atox_EndBlocker K (app_hook K) c" and "m \<equiv> unat (AutoSettlePerBlock (atox_GetParams c))"
  shows "holder K c' a = (if atox_AccountKey (acc_string (codec K) a) \<in> set (take m (drop j (sweep_keys c)))
      then swept (MinAutoPayout (atox_GetParams c)) (GlobalIndex (GetGlobalState c)) (holder K c a) else holder K c a)"
    "reachable_holder K c' a"
proof -
  let ?keys = "take m (drop j (sweep_keys c))"
  define c2 where "c2 = sweep_payouts K (app_hook K) (MinAutoPayout (atox_GetParams c)) ?keys (sweep_open c)"
  have c': "\<exists>k. c' = SetScanCursor k c2"
    unfolding c'_def c2_def m_def using sweep_block_eq [OF ready at] by blast
  have d: "distinct ?keys" using sweep_keys_distinct [OF ready] by simp
  have k: "\<forall>k \<in> set ?keys. \<exists>k'. k = atox_AccountKey k' \<and> canonical (codec K) k'"
    using sweep_keys_canonical [OF ready] by (metis in_set_dropD in_set_takeD)
  have o: "holder K (sweep_open c) a = holder K c a" "isModuleAccount K (sweep_open c) = isModuleAccount K c"
    by (rule holder_cong; simp add: sweep_open_def SetSweptIndex_def upd_atox_def)+
  have ra: "reachable_holder K (sweep_open c) a" using a by (simp add: reachable_holder_def o(2))
  have so: "atox_safe K (sweep_open c)" using ready by (simp add: sweep_open_simps sweep_ready_def)
  note s = sweep_payouts_holder [OF laws reg b so d k ra, of "MinAutoPayout (atox_GetParams c)", folded c2_def]
  have e: "holder K c' a = holder K c2 a" "isModuleAccount K c' = isModuleAccount K c2"
    using c' by (auto intro!: holder_cong simp: SetScanCursor_def upd_atox_def)
  show "holder K c' a = (if atox_AccountKey (acc_string (codec K) a) \<in> set ?keys
      then swept (MinAutoPayout (atox_GetParams c)) (GlobalIndex (GetGlobalState c)) (holder K c a) else holder K c a)"
    unfolding e(1) using s by (simp add: o(1) sweep_open_simps)
  show "reachable_holder K c' a" using s a by (simp add: reachable_holder_def e(2) o(2))
qed


lemma map_iterates: "map (\<lambda>i. f ((E ^^ i) x)) [0..<Suc n] = f x # map (\<lambda>i. f ((E ^^ i) (E x))) [0..<n]"
  by (simp add: upt_conv_Cons map_Suc_upt [symmetric] funpow_swap1 del: upt_Suc)

text \<open>
  From position \<open>j\<close> on, the blocks of a pass visit the remaining keys in order, and every holder among them
  is reached exactly once.
\<close>

lemma sweep_from:
  assumes laws: "sdk_laws K"
  shows "sweep_ready K c \<Longrightarrow> sweep_at j c \<Longrightarrow> j \<le> length (sweep_keys c) \<Longrightarrow> m = unat (AutoSettlePerBlock (atox_GetParams c)) \<Longrightarrow>
    E = atox_EndBlocker K (app_hook K) \<Longrightarrow>
    \<exists>n. n \<le> (length (sweep_keys c) - j) div m + 1 \<and>
      concat (map (\<lambda>i. fst (collectSweepBatch ((E ^^ i) c) (AutoSettlePerBlock (atox_GetParams c)))) [0..<n]) = drop j (sweep_keys c) \<and>
      GetScanCursor ((E ^^ n) c) = [] \<and> GetSweptIndex ((E ^^ n) c) = GlobalIndex (GetGlobalState c) \<and>
      (\<forall>a. module_registered K ExchangePoolName \<longrightarrow> atox_burner K \<longrightarrow> reachable_holder K c a \<longrightarrow>
         holder K ((E ^^ n) c) a = (if atox_AccountKey (acc_string (codec K) a) \<in> set (drop j (sweep_keys c))
           then swept (MinAutoPayout (atox_GetParams c)) (GlobalIndex (GetGlobalState c)) (holder K c a) else holder K c a))"
proof (induction "length (sweep_keys c) - j" arbitrary: c j rule: less_induct)
  case less
  note b = sweep_block [OF laws less.prems(1,2), folded less.prems(4,5)]
  note h = sweep_block_holder [OF laws less.prems(1,2), folded less.prems(4,5)]
  let ?ks = "sweep_keys c" and ?l = "AutoSettlePerBlock (atox_GetParams c)"
  have m: "0 < m" and inv: "kv_inv (x_accounts (st_atox c))" using less.prems(1,4) by (simp_all add: sweep_ready_def)
  have first: "fst (collectSweepBatch c ?l) = take m (drop j ?ks)"
    by (simp add: sweep_batch [OF inv less.prems(2)] less.prems(4))
  show ?case
  proof (cases "j + m < length ?ks")
    case False
    then have "take m (drop j ?ks) = drop j ?ks" by simp
    then show ?thesis using b(5,6) h(1) first False by (intro exI [of _ 1]) simp
  next
    case True
    have at: "sweep_at (j + m) (E c)" using b(2,4,5,6) True m by (simp add: sweep_at_def)
    have "length (sweep_keys (E c)) - (j + m) < length ?ks - j" using True m by (simp add: b(2))
    note hyp = less.hyps [OF this b(1) at _ _ less.prems(5)]
    obtain n where n: "n \<le> (length ?ks - (j + m)) div m + 1"
      "concat (map (\<lambda>i. fst (collectSweepBatch ((E ^^ i) (E c)) ?l)) [0..<n]) = drop (j + m) ?ks"
      "GetScanCursor ((E ^^ n) (E c)) = []" "GetSweptIndex ((E ^^ n) (E c)) = GlobalIndex (GetGlobalState c)"
      and reach: "\<forall>a. module_registered K ExchangePoolName \<longrightarrow> atox_burner K \<longrightarrow> reachable_holder K (E c) a \<longrightarrow>
         holder K ((E ^^ n) (E c)) a = (if atox_AccountKey (acc_string (codec K) a) \<in> set (drop (j + m) ?ks)
           then swept (MinAutoPayout (atox_GetParams c)) (GlobalIndex (GetGlobalState c)) (holder K (E c) a) else holder K (E c) a)"
      using hyp True less.prems(4) by (auto simp: b(2-4))
    have split: "drop j ?ks = take m (drop j ?ks) @ drop (j + m) ?ks" by (metis append_take_drop_id drop_drop add.commute)
    have "distinct (drop j ?ks)" using sweep_keys_distinct [OF less.prems(1)] by simp
    then have dis: "set (take m (drop j ?ks)) \<inter> set (drop (j + m) ?ks) = {}" by (subst (asm) split) simp
    have mem: "k \<in> set (drop j ?ks) \<longleftrightarrow> k \<in> set (take m (drop j ?ks)) \<or> k \<in> set (drop (j + m) ?ks)" for k
      by (subst split) simp
    have "(length ?ks - j) div m = (length ?ks - (j + m)) div m + 1"
      using True m by (simp add: le_div_geq)
    moreover have "concat (map (\<lambda>i. fst (collectSweepBatch ((E ^^ i) c) ?l)) [0..<Suc n]) = drop j ?ks"
      unfolding map_iterates [of "\<lambda>d. fst (collectSweepBatch d ?l)"] by (simp add: n(2) first split [symmetric])
    moreover have "holder K ((E ^^ Suc n) c) a = (if atox_AccountKey (acc_string (codec K) a) \<in> set (drop j ?ks)
        then swept (MinAutoPayout (atox_GetParams c)) (GlobalIndex (GetGlobalState c)) (holder K c a) else holder K c a)"
      if "module_registered K ExchangePoolName" "atox_burner K" "reachable_holder K c a" for a
      using reach h [OF that] dis that(1,2) unfolding mem by (auto simp: funpow_swap1)
    ultimately show ?thesis using n by (intro exI [of _ "Suc n"]) (simp add: funpow_swap1)
  qed
qed


text \<open>
  C19: the sweep reaches everyone.  When the index has moved since the last pass, the end blocks that follow
  visit every settlement record exactly once, in the order of the store, in no more blocks than the
  number of records divided by the batch size plus one, and then the pass is closed.  Every recorded holder
  whose ATOX the bank burns and to whom it pays has then been settled to the index at which the pass began: it
  was paid exactly what the claim query announced before the pass if that reaches the minimum payout, and
  otherwise has it booked as its claim.
\<close>

theorem sweep_pass_complete:
  assumes "sdk_laws K" "sweep_ready K c" "GetScanCursor c = []" "GetSweptIndex c \<noteq> GlobalIndex (GetGlobalState c)"
  shows "\<exists>n c'. n \<le> length (x_accounts (st_atox c)) div unat (AutoSettlePerBlock (atox_GetParams c)) + 1 \<and>
    c' = (atox_EndBlocker K (app_hook K) ^^ n) c \<and>
    concat (map (\<lambda>i. fst (collectSweepBatch ((atox_EndBlocker K (app_hook K) ^^ i) c) (AutoSettlePerBlock (atox_GetParams c)))) [0..<n]) =
      map (\<lambda>e. atox_AccountKey (fst e)) (x_accounts (st_atox c)) \<and>
    GetScanCursor c' = [] \<and> GetSweptIndex c' = GlobalIndex (GetGlobalState c) \<and>
    (\<forall>a due. acc_string (codec K) a \<in> fst ` set (x_accounts (st_atox c)) \<longrightarrow> \<not> isModuleAccount K c a \<longrightarrow>
       module_registered K ExchangePoolName \<longrightarrow> \<not> blocked_addr K a \<longrightarrow> atox_burner K \<longrightarrow> atox_unlocked K a \<longrightarrow>
       due = fst (Claimable K c a) + snd (Claimable K c a) \<longrightarrow>
       Index (GetAtoxAccount K c' a) = GlobalIndex (GetGlobalState c) \<and>
       AtoxBalance K c' a = AtoxBalance K c a - snd (Claimable K c a) \<and>
       (if 0 < due \<and> MinAutoPayout (atox_GetParams c) \<le> due
        then Pending (GetAtoxAccount K c' a) = 0 \<and> balance K c' a (base_denom K) = balance K c a (base_denom K) + due
        else Pending (GetAtoxAccount K c' a) = due \<and> balance K c' a (base_denom K) = balance K c a (base_denom K)))"
proof -
  have "sweep_at 0 c" using assms(3,4) by (simp add: sweep_at_def)
  from sweep_from [OF assms(1,2) this _ refl refl] obtain n where
    n: "n \<le> length (x_accounts (st_atox c)) div unat (AutoSettlePerBlock (atox_GetParams c)) + 1"
      "concat (map (\<lambda>i. fst (collectSweepBatch ((atox_EndBlocker K (app_hook K) ^^ i) c) (AutoSettlePerBlock (atox_GetParams c)))) [0..<n]) =
        map (\<lambda>e. atox_AccountKey (fst e)) (x_accounts (st_atox c))"
      "GetScanCursor ((atox_EndBlocker K (app_hook K) ^^ n) c) = []"
      "GetSweptIndex ((atox_EndBlocker K (app_hook K) ^^ n) c) = GlobalIndex (GetGlobalState c)"
    and h: "\<And>a. module_registered K ExchangePoolName \<Longrightarrow> atox_burner K \<Longrightarrow> reachable_holder K c a \<Longrightarrow>
      atox_AccountKey (acc_string (codec K) a) \<in> set (sweep_keys c) \<Longrightarrow>
      holder K ((atox_EndBlocker K (app_hook K) ^^ n) c) a =
        swept (MinAutoPayout (atox_GetParams c)) (GlobalIndex (GetGlobalState c)) (holder K c a)"
    by (auto simp: sweep_keys_def)
  have safe: "atox_safe K c" using assms(2) by (simp add: sweep_ready_def)
  let ?c' = "(atox_EndBlocker K (app_hook K) ^^ n) c"
  have "Index (GetAtoxAccount K ?c' a) = GlobalIndex (GetGlobalState c) \<and>
      AtoxBalance K ?c' a = AtoxBalance K c a - snd (Claimable K c a) \<and>
      (if 0 < due \<and> MinAutoPayout (atox_GetParams c) \<le> due
       then Pending (GetAtoxAccount K ?c' a) = 0 \<and> balance K ?c' a (base_denom K) = balance K c a (base_denom K) + due
       else Pending (GetAtoxAccount K ?c' a) = due \<and> balance K ?c' a (base_denom K) = balance K c a (base_denom K))"
    if "acc_string (codec K) a \<in> fst ` set (x_accounts (st_atox c))" "\<not> isModuleAccount K c a" "module_registered K ExchangePoolName"
      "\<not> blocked_addr K a" "atox_burner K" "atox_unlocked K a" "due = fst (Claimable K c a) + snd (Claimable K c a)" for a due
  proof -
    have "atox_AccountKey (acc_string (codec K) a) \<in> set (sweep_keys c)" using that(1) by (force simp: sweep_keys_def)
    from h [OF that(3,5) _ this] that(2,4,6,7) show ?thesis
      by (simp add: reachable_holder_def holder_def swept_def Let_def unsettled_owed [OF assms(1) safe] split: if_splits)
  qed
  then show ?thesis using n by blast
qed

lemma ledger_burns: "atox_burner ledger_sdk" "atox_unlocked ledger_sdk a"
  by (auto simp: atox_burner_def atox_unlocked_def ledger_sdk_def ledger_sub_def)

definition payday :: "ledger ctx" where
  "payday = upd_atox (\<lambda>s. s\<lparr>x_params := Some ((atox_GetParams demo)\<lparr>MinAutoPayout := 100\<rparr>)\<rparr>) demo"

lemma payday_safe: "atox_safe ledger_sdk payday"
proof -
  have "book_of ledger_sdk payday = book_of ledger_sdk demo" "atox_records payday = atox_records demo"
    by (rule same_book; simp add: payday_def upd_atox_def)+
  then show ?thesis using demo_atox_safe
    by (simp add: atox_safe_def) (simp add: payday_def upd_atox_def AtoxSupplyCap_def atox_GetParams_def)
qed

theorem sweep_pass_complete_witness:
  "\<exists>n c'. n \<le> 1 \<and> c' = (atox_EndBlocker ledger_sdk (app_hook ledger_sdk) ^^ n) payday \<and> GetScanCursor c' = [] \<and>
     balance ledger_sdk c' ''bob'' ''liao'' = balance ledger_sdk payday ''bob'' ''liao'' + 250 \<and>
     Pending (GetAtoxAccount ledger_sdk c' ''bob'') = 0"
proof -
  have v: "x_accounts (st_atox payday) = [(''atos1bob'', \<lparr>ax_Address = ''atos1bob'', Index = 0, Pending = 0, TotalClaimed = 0\<rparr>)]"
    "GetScanCursor payday = []" "GetSweptIndex payday = 0" "GlobalIndex (GetGlobalState payday) = 500000000000000000"
    "Enabled (atox_GetParams payday)" "AutoSettlePerBlock (atox_GetParams payday) = 50" "MinAutoPayout (atox_GetParams payday) = 100"
    "Claimable ledger_sdk payday ''bob'' = (0, 250)" by code_simp+
  have l: "acc_string (codec ledger_sdk) ''bob'' = ''atos1bob''" "\<not> isModuleAccount ledger_sdk payday ''bob''"
    "module_registered ledger_sdk ExchangePoolName" "\<not> blocked_addr ledger_sdk ''bob''" "base_denom ledger_sdk = ''liao''"
    by (simp_all add: ledger_sdk_def tag_codec_def isModuleAccount_def)
  have "sweep_ready ledger_sdk payday"
    using payday_safe by (simp add: sweep_ready_def v canonical_def ledger_sdk_def tag_codec_def kv_inv_def)
  then obtain n c' where n: "n \<le> 1" "c' = (atox_EndBlocker ledger_sdk (app_hook ledger_sdk) ^^ n) payday" "GetScanCursor c' = []"
    "if 0 < (250 :: int) \<and> 100 \<le> (250 :: int)
     then Pending (GetAtoxAccount ledger_sdk c' ''bob'') = 0 \<and> balance ledger_sdk c' ''bob'' ''liao'' = balance ledger_sdk payday ''bob'' ''liao'' + 250
     else Pending (GetAtoxAccount ledger_sdk c' ''bob'') = 250 \<and> balance ledger_sdk c' ''bob'' ''liao'' = balance ledger_sdk payday ''bob'' ''liao''"
    using sweep_pass_complete [OF ledger_laws _ v(2)] l ledger_burns by (force simp: v)
  then show ?thesis by auto
qed

end
