(* ===== verification/AnteSpec.thy ===== *)
theory AnteSpec
  imports ChainDemo
begin

text \<open>
  Properties of the ante handler of a Cosmos transaction.  Three decorators walk the tree of messages; the
  locale \<open>message_walk\<close> is what they have in common, and its interpretations on the three loops give that
  no message at any depth of an accepted transaction is one they refuse.
\<close>

section \<open>Messages inside messages\<close>

inductive inside :: "sdk_msg \<Rightarrow> sdk_msg list \<Rightarrow> bool" where
  here: "m \<in> set ms \<Longrightarrow> inside m ms"
| exec: "MsgExec (Some inner) \<in> set ms \<Longrightarrow> inside m inner \<Longrightarrow> inside m ms"

text \<open>
  A walk with a flag for the messages inside a \<^verbatim>\<open>MsgExec\<close>: what passes has only good members, and the
  inner messages of a member pass under the flag.
\<close>

locale message_walk =
  fixes passes :: "bool \<Rightarrow> sdk_msg list \<Rightarrow> bool" and good :: "bool \<Rightarrow> sdk_msg \<Rightarrow> bool"
  assumes member: "passes i ms \<Longrightarrow> m \<in> set ms \<Longrightarrow> good i m"
    and descend: "passes i ms \<Longrightarrow> MsgExec (Some inner) \<in> set ms \<Longrightarrow> passes True inner"
    and weaken: "good True m \<Longrightarrow> good False m"
begin

lemma walk_good: "inside m ms \<Longrightarrow> passes i ms \<Longrightarrow> good False m"
  by (induction arbitrary: i rule: inside.induct) (metis member weaken, blast intro: descend)

lemma walk_nested: "MsgExec (Some inner) \<in> set ms \<Longrightarrow> inside m inner \<Longrightarrow> passes i ms \<Longrightarrow> good True m"
proof -
  assume a: "MsgExec (Some inner) \<in> set ms" "inside m inner" "passes i ms"
  have "inside m inner \<Longrightarrow> passes True inner \<Longrightarrow> good True m"
    by (induction rule: inside.induct) (blast intro: member descend)+
  then show ?thesis using a descend by blast
qed

end

subsection \<open>The three walks\<close>

lemma isDisabledMsg_mem: "isDisabledMsg ds url \<longleftrightarrow> url \<in> set ds"
  by (induction ds) auto

definition limiter_good :: "string list \<Rightarrow> bool \<Rightarrow> sdk_msg \<Rightarrow> bool" where
  "limiter_good ds i m \<longleftrightarrow> m \<noteq> MsgExec None \<and> m \<noteq> MsgGrant None \<and> (\<forall>url. m = MsgGrant (Some url) \<longrightarrow> url \<notin> set ds) \<and>
     (i \<longrightarrow> (\<forall>ms. m \<noteq> MsgExec ms) \<longrightarrow> (\<forall>a. m \<noteq> MsgGrant a) \<longrightarrow> MsgTypeURL m \<notin> set ds)"

lemma check_disabled_loop_mem:
  "check_disabled_loop ds ms i lvl = Inr () \<Longrightarrow> m \<in> set ms \<Longrightarrow>
   limiter_good ds i m \<and> (\<forall>inner. m = MsgExec (Some inner) \<longrightarrow> (\<exists>lvl'. check_disabled_loop ds inner True lvl' = Inr ()))"
  by (induction ms arbitrary: lvl)
    (auto simp: limiter_good_def isDisabledMsg_mem split: sdk_msg.splits option.splits if_splits)

interpretation limiter: message_walk "\<lambda>i ms. \<exists>lvl. check_disabled_loop ds ms i lvl = Inr ()" "limiter_good ds" for ds
  by unfold_locales (use check_disabled_loop_mem in blast, use check_disabled_loop_mem in blast, simp add: limiter_good_def)

lemma reject_loop_mem:
  "reject_loop atox ms d = Inr () \<Longrightarrow> m \<in> set ms \<Longrightarrow>
   m \<noteq> MsgTransfer atox \<and> (\<forall>inner. m = MsgExec (Some inner) \<longrightarrow> (\<exists>d'. reject_loop atox inner d' = Inr ()))"
  by (induction ms) (auto split: sdk_msg.splits option.splits if_splits)

interpretation ibc: message_walk "\<lambda>i ms. \<exists>d. reject_loop atox ms d = Inr ()" "\<lambda>i m. m \<noteq> MsgTransfer atox" for atox
  by unfold_locales (use reject_loop_mem in blast)+

definition stake_good :: "int \<Rightarrow> sdk_msg \<Rightarrow> bool" where
  "stake_good least m \<longleftrightarrow> (\<forall>s a. m = MsgCreateValidator s a \<longrightarrow> (\<exists>n. s = Some n \<and> least \<le> n) \<and> least \<le> a) \<and>
     (\<forall>s. m = MsgEditValidator (Some s) \<longrightarrow> least \<le> s)"

lemma self_delegation_loop_mem:
  "self_delegation_loop ms least lvl = Inr () \<Longrightarrow> m \<in> set ms \<Longrightarrow>
   stake_good least m \<and> (\<forall>inner. m = MsgExec (Some inner) \<longrightarrow> (\<exists>lvl'. self_delegation_loop inner least lvl' = Inr ()))"
  by (induction ms) (auto simp: stake_good_def split: sdk_msg.splits option.splits if_splits)

interpretation stake: message_walk "\<lambda>i ms. \<exists>lvl. self_delegation_loop ms least lvl = Inr ()" "\<lambda>i. stake_good least" for least
  by unfold_locales (use self_delegation_loop_mem in blast)+

section \<open>What an accepted transaction contains\<close>

lemma RejectMessages_mem: "RejectMessages ms = Inr () \<Longrightarrow> MsgEthereumTx \<notin> set ms"
  by (induction ms) (auto split: if_splits)

text \<open>
  C24: a Cosmos transaction that the ante handler accepts contains, at no depth, a transfer of ATOX over
  IBC, an Ethereum transaction or an authorization for one; a vesting account is created by no message
  inside an authorization; and every validator created or edited in it, at any depth, keeps the floor on
  its own stake.
\<close>

theorem cosmos_ante_accepts:
  assumes acc: "newCosmosAnteHandler K H E S c tx msgs simulate = Inr (out, c')" and m: "inside m msgs"
  shows "m \<noteq> MsgTransfer AtoxBaseDenom \<and> m \<noteq> MsgEthereumTx \<and> m \<noteq> MsgGrant (Some (MsgTypeURL MsgEthereumTx)) \<and>
    (MsgTypeURL m = MsgCreateVestingAccountURL \<longrightarrow> m \<in> set msgs) \<and>
    (\<exists>c1. dec_setup S c tx = Inr c1 \<and>
       (0 < GetValidatorMinSelfDelegation c1 \<longrightarrow>
          (\<forall>s a. m = MsgCreateValidator s a \<longrightarrow>
             (\<exists>n. s = Some n \<and> GetValidatorMinSelfDelegation c1 \<le> n) \<and> GetValidatorMinSelfDelegation c1 \<le> a) \<and>
          (\<forall>s. m = MsgEditValidator (Some s) \<longrightarrow> GetValidatorMinSelfDelegation c1 \<le> s)))"
proof -
  let ?ds = "[MsgTypeURL MsgEthereumTx, MsgCreateVestingAccountURL]"
  obtain c1 where a: "RejectMessages msgs = Inr ()" "AuthzLimiter_AnteHandle ?ds msgs = Inr ()"
    "RejectAtoxIBC_AnteHandle AtoxBaseDenom msgs = Inr ()" "dec_setup S c tx = Inr c1" "MinSelfDelegation_AnteHandle c1 msgs = Inr ()"
    using acc unfolding newCosmosAnteHandler_def by (elim bindR_InrE) auto
  have lim: "\<exists>lvl. check_disabled_loop ?ds msgs False lvl = Inr ()"
    using a(2) by (auto simp: AuthzLimiter_AnteHandle_def checkDisabledMsgs_def split: if_splits)
  have ibc: "\<exists>d. reject_loop AtoxBaseDenom msgs d = Inr ()"
    using a(3) by (auto simp: RejectAtoxIBC_AnteHandle_def reject_def AtoxBaseDenom_def split: if_splits)
  have stk: "\<exists>lvl. self_delegation_loop msgs (GetValidatorMinSelfDelegation c1) lvl = Inr ()" if "0 < GetValidatorMinSelfDelegation c1"
    using a(5) that by (auto simp: MinSelfDelegation_AnteHandle_def self_delegation_check_def Let_def split: if_splits)
  have deep: "m \<in> set msgs \<or> limiter_good ?ds True m"
    using m
  proof cases
    case (exec inner)
    then show ?thesis using limiter.walk_nested [OF _ _ lim] by blast
  qed simp
  have "m \<noteq> MsgEthereumTx" "MsgTypeURL m = MsgCreateVestingAccountURL \<longrightarrow> m \<in> set msgs"
    using deep RejectMessages_mem [OF a(1)]
    by (auto simp: limiter_good_def MsgCreateVestingAccountURL_def)
  moreover have "m \<noteq> MsgGrant (Some (MsgTypeURL MsgEthereumTx))"
    using limiter.walk_good [OF m lim] by (auto simp: limiter_good_def)
  ultimately show ?thesis
    using ibc.walk_good [OF m ibc] stake.walk_good [OF m stk] a(4) by (auto simp: stake_good_def)
qed

definition demo_decorators :: "ledger sdk_decorators" where
  "demo_decorators = \<lparr> dec_setup = (\<lambda>c _. Inr c), dec_size = (\<lambda>c _. Inr c), dec_rest = (\<lambda>c _. Inr c) \<rparr>"

definition demo_tx :: fee_tx where
  "demo_tx = \<lparr> tx_gas = 1000, tx_msg_urls = [''/cosmos.authz.v1beta1.MsgExec''], tx_fee_payer = ''bob'', tx_fee_granter = [],
     tx_fee = [(''liao'', 0)] \<rparr>"

theorem cosmos_ante_accepts_witness:
  "\<exists>out c' m. newCosmosAnteHandler ledger_sdk (app_hook ledger_sdk) demo_env demo_decorators lent demo_tx
       [MsgExec (Some [MsgTransfer ''liao''])] False = Inr (out, c') \<and>
     inside m [MsgExec (Some [MsgTransfer ''liao''])] \<and> (\<forall>msgs. m \<noteq> MsgExec msgs) \<and> m \<noteq> MsgTransfer AtoxBaseDenom"
proof -
  let ?msgs = "[MsgExec (Some [MsgTransfer ''liao''])]"
  let ?run = "\<lambda>c. newCosmosAnteHandler ledger_sdk (app_hook ledger_sdk) demo_env demo_decorators c demo_tx ?msgs False"
  have v: "map_sum id (\<lambda>(_, _, c). isl (?run c)) lending = Inr False" by code_simp
  obtain locked where l: "lending = Inr (1, locked, lent)" using lending_lent by blast
  have "\<not> isl (?run lent)" using v unfolding l by simp
  then obtain out c' where r: "?run lent = Inr (out, c')" by (cases "?run lent") auto
  have i: "inside (MsgTransfer ''liao'') ?msgs" 
    by (rule inside.exec [of "[MsgTransfer ''liao'']"]) (simp_all add: inside.here)
  show ?thesis using cosmos_ante_accepts [OF r i] r i by blast
qed

section \<open>Siblings count as nesting\<close>

fun is_exec :: "sdk_msg \<Rightarrow> bool" where
  "is_exec (MsgExec _) = True"
| "is_exec _ = False"

lemma check_disabled_siblings:
  assumes "maxNestedMsgs \<le> length (filter is_exec ms) + lvl" "lvl < maxNestedMsgs"
  shows "\<exists>e. check_disabled_loop ds ms i lvl = Inl e"
  using assms
proof (induction ms arbitrary: lvl)
  case (Cons m ms)
  show ?case
  proof (cases "\<exists>inner. m = MsgExec (Some inner)")
    case True
    then obtain inner where m: "m = MsgExec (Some inner)" by blast
    show ?thesis
    proof (cases "lvl + 1 \<ge> maxNestedMsgs")
      case False
      then have "\<exists>e. check_disabled_loop ds ms i (lvl + 1) = Inl e" using Cons.prems by (intro Cons.IH) (auto simp: m)
      then show ?thesis using False by (cases "check_disabled_loop ds inner True (lvl + 1)") (auto simp: m)
    qed (simp add: m)
  next
    case False
    then show ?thesis using Cons by (cases m) (auto split: option.splits)
  qed
qed simp

text \<open>
  C37: the authorization limiter counts siblings as depth.  A transaction with six or more \<^verbatim>\<open>MsgExec\<close>
  messages side by side is refused whatever they hold, while the walk for ATOX over IBC, which keeps one
  depth for siblings, accepts any number of them.
\<close>

theorem authz_limiter_counts_siblings:
  assumes "6 \<le> length (filter is_exec msgs)"
  shows "(\<exists>e. AuthzLimiter_AnteHandle disabled msgs = Inl e) \<and>
    RejectAtoxIBC_AnteHandle AtoxBaseDenom (replicate n (MsgExec (Some []))) = Inr ()"
proof
  show "\<exists>e. AuthzLimiter_AnteHandle disabled msgs = Inl e"
    unfolding AuthzLimiter_AnteHandle_def checkDisabledMsgs_def
    using check_disabled_siblings [of msgs 1 disabled False] assms by (simp add: maxNestedMsgs_def)
  have "reject_loop AtoxBaseDenom (replicate n (MsgExec (Some []))) 1 = Inr ()"
    by (induction n) (simp_all add: maxNestedAtoxMsgs_def)
  then show "RejectAtoxIBC_AnteHandle AtoxBaseDenom (replicate n (MsgExec (Some []))) = Inr ()"
    by (simp add: RejectAtoxIBC_AnteHandle_def reject_def maxNestedAtoxMsgs_def)
qed

theorem authz_limiter_counts_siblings_witness:
  "\<exists>e. AuthzLimiter_AnteHandle [''x''] (replicate 6 (MsgExec (Some []))) = Inl e"
  using authz_limiter_counts_siblings [of "replicate 6 (MsgExec (Some []))" "[''x'']" 0] by simp

end
