(* ===== verification/MigrationSpec.thy ===== *)
theory MigrationSpec
  imports ChainDemo
begin

text \<open>
  The migration claims of the tokenomics module: the payload of a leaf determines its claimer and amount, a
  proof that verifies belongs to a leaf of the tree, every leaf has a proof, and no claimer is paid twice.
\<close>

section \<open>The encoding of a leaf\<close>

lemma char_of_eq: "(char_of (a :: nat) = char_of b) = (a mod 256 = b mod 256)"
  by (metis of_char_of char_of_mod_256)

text \<open>A length prefix delimits itself.\<close>

lemma uvarint_prefix: "uvarint n @ x = uvarint m @ y \<Longrightarrow> n = m \<and> x = y"
proof (induction n arbitrary: m rule: uvarint.induct)
  case (1 n)
  show ?case
  proof (cases "n < 128")
    case True
    have e: "char_of n # x = uvarint m @ y" using "1.prems" True by (simp add: uvarint.simps [of n])
    show ?thesis
    proof (cases "m < 128")
      case True
      then show ?thesis using e \<open>n < 128\<close> by (simp add: uvarint.simps [of m] char_of_eq)
    next
      case False
      have "m mod 128 < 128" by simp
      then have "(m mod 128 + 128) mod 256 = m mod 128 + 128" by (intro mod_less) linarith
      then show ?thesis using e \<open>n < 128\<close> False by (simp add: uvarint.simps [of m] char_of_eq)
    qed
  next
    case False
    have n: "(n mod 128 + 128) mod 256 = n mod 128 + 128" by (intro mod_less) (use mod_less_divisor [of 128 n] in linarith)
    have e: "char_of (n mod 128 + 128) # uvarint (n div 128) @ x = uvarint m @ y"
      using "1.prems" False by (simp add: uvarint.simps [of n])
    have m: "\<not> m < 128"
      using e n by (auto simp: uvarint.simps [of m] char_of_eq)
    have "(m mod 128 + 128) mod 256 = m mod 128 + 128" by (intro mod_less) (use mod_less_divisor [of 128 m] in linarith)
    then have d: "n mod 128 = m mod 128" "uvarint (n div 128) @ x = uvarint (m div 128) @ y"
      using e m n by (simp_all add: uvarint.simps [of m] char_of_eq)
    then have "n div 128 = m div 128 \<and> x = y" using "1.IH" False by blast
    then show ?thesis using d(1) by (metis div_mult_mod_eq)
  qed
qed

lemma show_nat_inj: "show_nat n = show_nat m \<Longrightarrow> n = m"
proof (induction n arbitrary: m rule: show_nat.induct)
  case (1 n)
  have ne: "show_nat k \<noteq> []" for k by (simp add: show_nat.simps [of k])
  have digit: "(48 + k) mod 256 = 48 + k" if "k < 10" for k :: nat using that by (intro mod_less) linarith
  show ?case
  proof (cases "n < 10")
    case True
    then have "m < 10" using "1.prems" ne [of "m div 10"] by (auto simp: show_nat.simps [of n] show_nat.simps [of m] split: if_splits)
    then show ?thesis using "1.prems" True by (simp add: show_nat.simps [of n] show_nat.simps [of m] char_of_eq digit)
  next
    case False
    then have m: "\<not> m < 10" using "1.prems" ne [of "n div 10"] by (auto simp: show_nat.simps [of n] show_nat.simps [of m] split: if_splits)
    have d: "show_nat (n div 10) = show_nat (m div 10)" "n mod 10 = m mod 10"
      using "1.prems" False m by (simp_all add: show_nat.simps [of n] show_nat.simps [of m] char_of_eq digit)
    then show ?thesis using "1.IH" [OF False d(1)] by (metis div_mult_mod_eq)
  qed
qed

lemma show_nat_digit: "CHR ''-'' \<noteq> hd (show_nat n)"
proof (induction n rule: show_nat.induct)
  case (1 n)
  have ne: "show_nat k \<noteq> []" for k by (simp add: show_nat.simps [of k])
  have "CHR ''-'' = char_of (45 :: nat)" by code_simp
  moreover have "(48 + n) mod 256 = 48 + n" if "n < 10" using that by (intro mod_less) linarith
  ultimately show ?case using 1 ne [of "n div 10"]
    by (auto simp: show_nat.simps [of n] char_of_eq)
qed

lemma show_int_inj: "show_int a = show_int b \<Longrightarrow> a = b"
proof -
  have ne: "show_nat k \<noteq> []" for k by (simp add: show_nat.simps [of k])
  have "CHR ''-'' # s \<noteq> show_nat n" "show_nat n \<noteq> CHR ''-'' # s" for s n using show_nat_digit [of n] by (metis list.sel(1))+
  moreover assume "show_int a = show_int b"
  ultimately show "a = b" using show_nat_inj by (auto simp: show_int_def split: if_splits dest!: show_nat_inj)
qed

lemma leaf_payload_inj: "leaf_payload a n = leaf_payload b m \<Longrightarrow> a = b \<and> n = m"
proof -
  assume "leaf_payload a n = leaf_payload b m"
  then have "uvarint (length a) @ a @ uvarint (length (show_int n)) @ show_int n =
      uvarint (length b) @ b @ uvarint (length (show_int m)) @ show_int m"
    by (simp only: leaf_payload_def Let_def)
  from uvarint_prefix [OF this] have "a = b" "uvarint (length (show_int n)) @ show_int n = uvarint (length (show_int m)) @ show_int m"
    using append_eq_append_conv [of a b] by blast+
  then show ?thesis using uvarint_prefix [of "length (show_int n)"] show_int_inj by blast
qed

section \<open>Trees of leaves\<close>

datatype merkle_tree = Leaf string int | Node merkle_tree merkle_tree

fun leaves :: "merkle_tree \<Rightarrow> (string \<times> int) set" where
  "leaves (Leaf a n) = {(a, n)}"
| "leaves (Node l r) = leaves l \<union> leaves r"

fun tree_root :: "(string \<Rightarrow> string) \<Rightarrow> merkle_tree \<Rightarrow> string" where
  "tree_root sha (Leaf a n) = migrationLeafHash sha a n"
| "tree_root sha (Node l r) = hash_pair sha (tree_root sha l) (tree_root sha r)"

definition sorted_pair :: "string \<Rightarrow> string \<Rightarrow> string" where
  "sorted_pair a b = (if a \<le> b then a @ b else b @ a)"

lemma hash_pair_sorted: "hash_pair sha a b = sha (sorted_pair a b)"
  by (simp add: hash_pair_def sorted_pair_def)

text \<open>What the digest is applied to when the tree is built and when a claim is checked.\<close>

fun leaf_inputs :: "(string \<Rightarrow> string) \<Rightarrow> string \<Rightarrow> int \<Rightarrow> string list" where
  "leaf_inputs sha a n = [leaf_payload a n, sha (leaf_payload a n)]"

fun tree_inputs :: "(string \<Rightarrow> string) \<Rightarrow> merkle_tree \<Rightarrow> string list" where
  "tree_inputs sha (Leaf a n) = leaf_inputs sha a n"
| "tree_inputs sha (Node l r) = sorted_pair (tree_root sha l) (tree_root sha r) # tree_inputs sha l @ tree_inputs sha r"

fun path_inputs :: "(string \<Rightarrow> string) \<Rightarrow> string \<Rightarrow> string list \<Rightarrow> string list" where
  "path_inputs sha cur [] = []"
| "path_inputs sha cur (s # ss) = sorted_pair cur s # path_inputs sha (hash_pair sha cur s) ss"

definition claim_inputs :: "(string \<Rightarrow> string) \<Rightarrow> string \<Rightarrow> int \<Rightarrow> string list \<Rightarrow> string list" where
  "claim_inputs sha a n path = leaf_inputs sha a n @ path_inputs sha (migrationLeafHash sha a n) path"


text \<open>Digests of the length of SHA-256.\<close>

definition digest32 :: "(string \<Rightarrow> string) \<Rightarrow> bool" where
  "digest32 sha \<longleftrightarrow> (\<forall>x. length (sha x) = 32)"

lemma digest32D: "digest32 sha \<Longrightarrow> length (sha x) = 32"
  by (simp add: digest32_def)

lemma root_size: "digest32 sha \<Longrightarrow> length (tree_root sha t) = 32"
  by (cases t) (simp_all add: migrationLeafHash_def hash_pair_def digest32D)

lemma pair_halves:
  assumes "sorted_pair a b = sorted_pair c d" "length a = 32" "length b = 32" "length c = 32" "length d = 32"
  shows "a = c \<and> b = d \<or> a = d \<and> b = c"
  using assms by (auto simp: sorted_pair_def split: if_splits)

lemma pair_size: "length a = 32 \<Longrightarrow> length b = 32 \<Longrightarrow> length (sorted_pair a b) = 64"
  by (simp add: sorted_pair_def)

text \<open>A path that ends in the root of a tree starts in the root of one of its subtrees.\<close>

lemma path_from_subtree:
  assumes sha: "digest32 sha"
  shows "merkle_loop sha cur path = Some (tree_root sha t) \<Longrightarrow> length cur = 32 \<Longrightarrow>
   inj_on sha (set (tree_inputs sha t) \<union> set (path_inputs sha cur path)) \<Longrightarrow>
   \<exists>s. tree_root sha s = cur \<and> leaves s \<subseteq> leaves t \<and> set (tree_inputs sha s) \<subseteq> set (tree_inputs sha t)"
proof (induction path arbitrary: cur)
  case Nil
  then show ?case by auto
next
  case (Cons x path)
  have x: "length x = 32" and loop: "merkle_loop sha (hash_pair sha cur x) path = Some (tree_root sha t)"
    using Cons.prems(1) by (simp_all split: if_splits)
  have "inj_on sha (set (tree_inputs sha t) \<union> set (path_inputs sha (hash_pair sha cur x) path))"
    by (rule inj_on_subset [OF Cons.prems(3)]) auto
  from Cons.IH [OF loop _ this] obtain s where s: "tree_root sha s = hash_pair sha cur x" "leaves s \<subseteq> leaves t"
    "set (tree_inputs sha s) \<subseteq> set (tree_inputs sha t)" by (auto simp: hash_pair_def digest32D [OF sha])
  show ?case
  proof (cases s)
    case (Leaf a n)
    have "sha (sha (leaf_payload a n)) = sha (sorted_pair cur x)"
      using s(1) by (simp add: Leaf migrationLeafHash_def hash_pair_sorted)
    then have "sha (leaf_payload a n) = sorted_pair cur x"
      by (rule inj_onD [OF Cons.prems(3)]) (use s(3) in \<open>auto simp: Leaf\<close>)
    then show ?thesis using pair_size [OF Cons.prems(2) x] digest32D [OF sha, of "leaf_payload a n"] by simp
  next
    case (Node l r)
    have "sha (sorted_pair (tree_root sha l) (tree_root sha r)) = sha (sorted_pair cur x)"
      using s(1) by (simp add: Node hash_pair_sorted)
    then have "sorted_pair (tree_root sha l) (tree_root sha r) = sorted_pair cur x"
      by (rule inj_onD [OF Cons.prems(3)]) (use s(3) in \<open>auto simp: Node\<close>)
    from pair_halves [OF this root_size [OF sha] root_size [OF sha] Cons.prems(2) x] show ?thesis
      using s(2,3) by (auto simp: Node)
  qed
qed

lemma claim_is_leaf:
  assumes sha: "digest32 sha" and path: "merkle_loop sha (migrationLeafHash sha a n) path = Some (tree_root sha t)"
    and inj: "inj_on sha (set (tree_inputs sha t) \<union> set (claim_inputs sha a n path))"
  shows "(a, n) \<in> leaves t"
proof -
  have "inj_on sha (set (tree_inputs sha t) \<union> set (path_inputs sha (migrationLeafHash sha a n) path))"
    by (rule inj_on_subset [OF inj]) (auto simp: claim_inputs_def)
  from path_from_subtree [OF sha path _ this] obtain s where s: "tree_root sha s = migrationLeafHash sha a n"
    "leaves s \<subseteq> leaves t" "set (tree_inputs sha s) \<subseteq> set (tree_inputs sha t)" by (auto simp: migrationLeafHash_def digest32D [OF sha])
  have d: "x = y" if "sha x = sha y" "x \<in> set (tree_inputs sha s)" "y \<in> set (leaf_inputs sha a n)" for x y
    by (rule inj_onD [OF inj that(1)]) (use that s(3) in \<open>auto simp: claim_inputs_def\<close>)
  show ?thesis
  proof (cases s)
    case (Leaf b m)
    have "sha (leaf_payload b m) = sha (leaf_payload a n)"
      by (rule d) (use s(1) in \<open>simp_all add: Leaf migrationLeafHash_def\<close>)
    then have "leaf_payload b m = leaf_payload a n" by (rule d) (simp_all add: Leaf)
    then show ?thesis using leaf_payload_inj s(2) by (auto simp: Leaf)
  next
    case (Node l r)
    have "sorted_pair (tree_root sha l) (tree_root sha r) = sha (leaf_payload a n)"
      by (rule d) (use s(1) in \<open>simp_all add: Node migrationLeafHash_def hash_pair_sorted\<close>)
    then show ?thesis using pair_size [OF root_size [OF sha, of l] root_size [OF sha, of r]] digest32D [OF sha, of "leaf_payload a n"] by simp
  qed
qed

lemma leaf_has_path:
  assumes sha: "digest32 sha"
  shows "(a, n) \<in> leaves t \<Longrightarrow> \<exists>path. merkle_loop sha (migrationLeafHash sha a n) path = Some (tree_root sha t)"
proof (induction t)
  case (Leaf b m)
  then show ?case by (intro exI [of _ "[]"]) simp
next
  case (Node l r)
  have app: "merkle_loop sha x p = Some y \<Longrightarrow> length z = 32 \<Longrightarrow> merkle_loop sha x (p @ [z]) = Some (hash_pair sha y z)" for x p y z
    by (induction sha x p rule: merkle_loop.induct) (auto split: if_splits)
  have comm: "hash_pair sha y z = hash_pair sha z y" for y z by (auto simp: hash_pair_def)
  consider "(a, n) \<in> leaves l" | "(a, n) \<in> leaves r" using Node.prems by auto
  then show ?case
  proof cases
    case 1
    then obtain p where "merkle_loop sha (migrationLeafHash sha a n) p = Some (tree_root sha l)" using Node.IH(1) by blast
    from app [OF this root_size [OF sha, of r]] show ?thesis by (intro exI) simp
  next
    case 2
    then obtain p where "merkle_loop sha (migrationLeafHash sha a n) p = Some (tree_root sha r)" using Node.IH(2) by blast
    from app [OF this root_size [OF sha, of l]] show ?thesis by (intro exI) (simp add: comm [of "tree_root sha l"])
  qed
qed

section \<open>Migration claims\<close>

text \<open>
  C15: a proof is accepted for the leaves of the migration tree and for nothing else.  For a digest of
  32 bytes that has no collision among the strings hashed for this tree and this claim, a claim that
  verifies against the root is one of the leaves, with its claimer and its amount; and every leaf has a
  proof that verifies.
\<close>

theorem migration_proof_sound:
  assumes "digest32 sha" "hex_decode rootHex = Some (tree_root sha t)"
    and "inj_on sha (set (tree_inputs sha t) \<union> set (claim_inputs sha claimer amount path))"
  shows "(verifyMerkleClaim sha claimer amount path rootHex \<longrightarrow> (claimer, amount) \<in> leaves t) \<and>
    ((claimer, amount) \<in> leaves t \<longrightarrow> (\<exists>path. verifyMerkleClaim sha claimer amount path rootHex))"
proof -
  have "tree_root sha t \<noteq> []" using root_size [OF assms(1), of t] by auto
  then show ?thesis
    using claim_is_leaf [OF assms(1) _ assms(3)] leaf_has_path [OF assms(1), of claimer amount t]
    by (simp add: verifyMerkleClaim_def assms(2))
qed

definition demo_sha :: "string \<Rightarrow> string" where
  "demo_sha x = take 32 (char_of (length x) # x @ replicate 32 CHR ''0'')"

definition demo_tree :: merkle_tree where
  "demo_tree = Node (Leaf ''atos1bob'' 70) (Leaf ''atos1al'' 5)"

definition hex_char :: "nat \<Rightarrow> char" where
  "hex_char n = (if n < 10 then char_of (48 + n) else char_of (87 + n))"

definition hex_encode :: "string \<Rightarrow> string" where
  "hex_encode s = concat (map (\<lambda>c. [hex_char (of_char c div 16), hex_char (of_char c mod 16)]) s)"

theorem migration_proof_sound_witness:
  "digest32 demo_sha \<and> (''atos1bob'', 70) \<in> leaves demo_tree \<and>
   verifyMerkleClaim demo_sha ''atos1bob'' 70 [migrationLeafHash demo_sha ''atos1al'' 5] (hex_encode (tree_root demo_sha demo_tree))"
proof -
  let ?path = "[migrationLeafHash demo_sha ''atos1al'' 5]" and ?root = "hex_encode (tree_root demo_sha demo_tree)"
  have d: "digest32 demo_sha" by (auto simp: digest32_def demo_sha_def min_def)
  have h: "hex_decode ?root = Some (tree_root demo_sha demo_tree)" by code_simp
  have "set (tree_inputs demo_sha demo_tree) \<union> set (claim_inputs demo_sha ''atos1bob'' 70 ?path) = set (tree_inputs demo_sha demo_tree)"
    by code_simp
  moreover have "distinct (map demo_sha (tree_inputs demo_sha demo_tree))" by code_simp
  ultimately have i: "inj_on demo_sha (set (tree_inputs demo_sha demo_tree) \<union> set (claim_inputs demo_sha ''atos1bob'' 70 ?path))"
    by (simp add: distinct_map)
  have "verifyMerkleClaim demo_sha ''atos1bob'' 70 ?path ?root" by code_simp
  then show ?thesis using migration_proof_sound [OF d h i] d by blast
qed

section \<open>Claims are paid once\<close>

fun claim_all :: "'x sdk \<Rightarrow> (string \<Rightarrow> string) \<Rightarrow> 'x ctx \<Rightarrow> msg_claim_migration list \<Rightarrow> (string \<times> int) list \<times> 'x ctx" where
  "claim_all K sha c [] = ([], c)"
| "claim_all K sha c (msg # msgs) =
     (case ClaimMigrationTokens K (app_hook K) sha c msg of
        Inl _ \<Rightarrow> claim_all K sha c msgs
      | Inr c1 \<Rightarrow> let (paid, c2) = claim_all K sha c1 msgs in ((mc_Claimer msg, mc_Amount msg) # paid, c2))"

lemma ClaimMigrationTokens_InrE:
  assumes laws: "sdk_laws K" and claim: "ClaimMigrationTokens K (app_hook K) sha c msg = Inr c'"
  obtains r where "acc_from_bech32 (codec K) (mc_Claimer msg) = Some r" "\<not> HasMigrationClaimed c (mc_Claimer msg)"
    "verifyMerkleClaim sha (mc_Claimer msg) (mc_Amount msg) (mc_MerkleProof msg) (MigrationMerkleRoot (tok_GetParams c))"
    "st_tokenomics c' = (st_tokenomics c)\<lparr>t_claimed := kv_set (mc_Claimer msg) () (t_claimed (st_tokenomics c))\<rparr>"
    "0 \<le> mc_Amount msg"
    "\<And>b. balance K c' b (base_denom K) = balance K c b (base_denom K) -
       (if b = module_address K MigrationPoolName then mc_Amount msg else 0) + (if b = r then mc_Amount msg else 0)"
proof -
  obtain r cs c1 where m: "acc_from_bech32 (codec K) (mc_Claimer msg) = Some r" "\<not> HasMigrationClaimed c (mc_Claimer msg)"
    "verifyMerkleClaim sha (mc_Claimer msg) (mc_Amount msg) (mc_MerkleProof msg) (MigrationMerkleRoot (tok_GetParams c))"
    "new_coins (base_denom K) (mc_Amount msg) = Inr cs" "send_from_module K (app_hook K) c MigrationPoolName r cs = Inr c1"
    "c' = SetMigrationClaimed (mc_Claimer msg) c1"
    using claim by (auto simp: ClaimMigrationTokens_def Let_def split: if_splits option.splits)
  note send = send_from_module_InrD [OF sdk_lawsD(1) [OF laws] m(5)]
  have cs: "AmountOf cs d = (if d = base_denom K then mc_Amount msg else 0)" for d by (rule new_coins_AmountOf [OF m(4)])
  have p: "\<not> 0 < AmountOf cs AtoxBaseDenom" using sdk_lawsD(7) [OF laws] by (simp add: cs)
  note b = plain_send [OF laws send p]
  show ?thesis
    by (rule that [OF m(1-3)]) (use b(7) [of "base_denom K"] b(8) [of _ "base_denom K"] in
      \<open>simp_all add: m(6) SetMigrationClaimed_def upd_tok_def b(2) cs\<close>)
qed

lemma claim_all_spec:
  assumes laws: "sdk_laws K"
  shows "\<forall>m \<in> set msgs. acc_from_bech32 (codec K) (mc_Claimer m) \<noteq> Some (module_address K MigrationPoolName) \<Longrightarrow>
    claim_all K sha c msgs = (paid, c') \<Longrightarrow> distinct (map fst paid) \<and>
    (\<forall>(a, n) \<in> set paid. 0 \<le> n \<and> \<not> HasMigrationClaimed c a \<and>
       (\<exists>path. verifyMerkleClaim sha a n path (MigrationMerkleRoot (tok_GetParams c)))) \<and>
    (\<forall>a. HasMigrationClaimed c' a \<longleftrightarrow> HasMigrationClaimed c a \<or> a \<in> fst ` set paid) \<and>
    pool_of K c' MigrationPoolName = pool_of K c MigrationPoolName - sum_list (map snd paid)"
proof (induction msgs arbitrary: c paid c')
  case (Cons msg msgs)
  show ?case
  proof (cases "ClaimMigrationTokens K (app_hook K) sha c msg")
    case (Inl e)
    then show ?thesis using Cons.IH [of c paid c'] Cons.prems by simp
  next
    case (Inr c1)
    obtain p where p: "claim_all K sha c1 msgs = (p, c')" "paid = (mc_Claimer msg, mc_Amount msg) # p"
      using Cons.prems(2) Inr by (auto split: prod.splits)
    from ClaimMigrationTokens_InrE [OF laws Inr] obtain r where r: "acc_from_bech32 (codec K) (mc_Claimer msg) = Some r"
      "\<not> HasMigrationClaimed c (mc_Claimer msg)"
      "verifyMerkleClaim sha (mc_Claimer msg) (mc_Amount msg) (mc_MerkleProof msg) (MigrationMerkleRoot (tok_GetParams c))"
      "st_tokenomics c1 = (st_tokenomics c)\<lparr>t_claimed := kv_set (mc_Claimer msg) () (t_claimed (st_tokenomics c))\<rparr>"
      "0 \<le> mc_Amount msg"
      "\<And>b. balance K c1 b (base_denom K) = balance K c b (base_denom K) -
         (if b = module_address K MigrationPoolName then mc_Amount msg else 0) + (if b = r then mc_Amount msg else 0)" by metis
    have pool: "pool_of K c1 MigrationPoolName = pool_of K c MigrationPoolName - mc_Amount msg"
      using r(1,6) Cons.prems(1) by (auto simp: pool_of_def)
    have claimed: "HasMigrationClaimed c1 a \<longleftrightarrow> HasMigrationClaimed c a \<or> a = mc_Claimer msg" for a
      by (auto simp: HasMigrationClaimed_def r(4) kv_get_set)
    have params: "tok_GetParams c1 = tok_GetParams c" by (simp add: tok_GetParams_def r(4))
    have ih: "distinct (map fst p)" "\<forall>(a, n) \<in> set p. 0 \<le> n \<and> \<not> HasMigrationClaimed c1 a \<and>
        (\<exists>path. verifyMerkleClaim sha a n path (MigrationMerkleRoot (tok_GetParams c)))"
      "\<forall>a. HasMigrationClaimed c' a \<longleftrightarrow> HasMigrationClaimed c1 a \<or> a \<in> fst ` set p"
      "pool_of K c' MigrationPoolName = pool_of K c1 MigrationPoolName - sum_list (map snd p)"
      using Cons.IH [OF _ p(1)] Cons.prems(1) by (simp_all add: params)
    then show ?thesis using r(2,3,5) pool claimed by (auto simp: p(2))
  qed
qed simp

text \<open>
  C6: migration claims are paid once.  Whatever claims arrive and in whatever order, no claimer is paid
  twice, nobody who had claimed before is paid again, every payment has a proof against the root, all of
  them are recorded as claimed, and the migration pool falls by exactly what was paid.
\<close>

theorem migration_paid_once:
  assumes "sdk_laws K" "\<forall>m \<in> set msgs. acc_from_bech32 (codec K) (mc_Claimer m) \<noteq> Some (module_address K MigrationPoolName)"
    and "claim_all K sha c msgs = (paid, c')"
  shows "distinct (map fst paid) \<and>
    (\<forall>(a, n) \<in> set paid. 0 \<le> n \<and> \<not> HasMigrationClaimed c a \<and>
       (\<exists>path. verifyMerkleClaim sha a n path (MigrationMerkleRoot (tok_GetParams c)))) \<and>
    (\<forall>a. HasMigrationClaimed c' a \<longleftrightarrow> HasMigrationClaimed c a \<or> a \<in> fst ` set paid) \<and>
    pool_of K c' MigrationPoolName = pool_of K c MigrationPoolName - sum_list (map snd paid)"
  using claim_all_spec [OF assms] .

definition claim_demo :: "ledger ctx" where
  "claim_demo = upd_tok (\<lambda>s. s\<lparr>t_params := Some ((tok_GetParams demo)
     \<lparr>MigrationMerkleRoot := hex_encode (tree_root demo_sha demo_tree)\<rparr>)\<rparr>) demo"

definition bob_claim :: msg_claim_migration where
  "bob_claim = \<lparr> mc_Claimer = ''atos1bob'', mc_Amount = 70, mc_MerkleProof = [migrationLeafHash demo_sha ''atos1al'' 5] \<rparr>"

theorem migration_paid_once_witness:
  "\<exists>c'. claim_all ledger_sdk demo_sha claim_demo [bob_claim, bob_claim] = ([(''atos1bob'', 70)], c') \<and>
     HasMigrationClaimed c' ''atos1bob'' \<and>
     pool_of ledger_sdk c' MigrationPoolName = pool_of ledger_sdk claim_demo MigrationPoolName - 70"
proof -
  obtain c' where c: "claim_all ledger_sdk demo_sha claim_demo [bob_claim, bob_claim] = ([(''atos1bob'', 70)], c')"
  proof -
    have "fst (claim_all ledger_sdk demo_sha claim_demo [bob_claim, bob_claim]) = [(''atos1bob'', 70)]" by code_simp
    then show ?thesis using that by (metis prod.collapse)
  qed
  have "\<forall>m \<in> set [bob_claim, bob_claim]. acc_from_bech32 (codec ledger_sdk) (mc_Claimer m) \<noteq> Some (module_address ledger_sdk MigrationPoolName)"
    by (simp add: bob_claim_def ledger_sdk_def tag_codec_def)
  from migration_paid_once [OF ledger_laws this c] show ?thesis using c by simp
qed

end
