(* ===== verification/TokenomicsSpec.thy ===== *)
theory TokenomicsSpec
  imports ChainDemo
begin

text \<open>
  Properties of the tokenomics module: the schedule of the block reward, the refill of the migration pool,
  the conditions and bounds of a tier release, the genesis round trip, and two deviations from what the
  comments of the module promise.
\<close>

section \<open>Block rewards\<close>

lemma halve_loop_div: "0 \<le> r \<Longrightarrow> halve_loop n r = r div 2 ^ n"
proof (induction n arbitrary: r)
  case (Suc n)
  have "0 \<le> r div 2" using Suc.prems by (simp add: pos_imp_zdiv_nonneg_iff)
  then have "halve_loop n (r div 2) = r div 2 div 2 ^ n" by (rule Suc.IH)
  then show ?case using Suc.prems by (auto simp: Let_def zdiv_zmult2_eq)
qed simp

definition scheduled_reward :: "'x ctx \<Rightarrow> int" where
  "scheduled_reward c = InitialBlockReward (tok_GetParams c) div
     2 ^ nat (block_height c div HalvingIntervalBlocks (tok_GetParams c))"

lemma reward_schedule:
  assumes "tokenomics_Params_Validate A (tok_GetParams c) = Inr ()" "0 \<le> block_height c"
  shows "GetCurrentBlockReward c = scheduled_reward c" "0 \<le> scheduled_reward c"
proof -
  have "0 < HalvingIntervalBlocks (tok_GetParams c)" "0 < InitialBlockReward (tok_GetParams c)"
    using assms(1) by (auto simp: tokenomics_Params_Validate_def split: if_splits)
  then show "GetCurrentBlockReward c = scheduled_reward c" "0 \<le> scheduled_reward c"
    using assms(2) by (simp_all add: GetCurrentBlockReward_def Let_def halve_loop_div scheduled_reward_def pos_imp_zdiv_nonneg_iff)
qed

lemma issue_to_module:
  assumes laws: "sdk_laws K" and safe: "atox_safe K c" and m: "m \<noteq> AtoxModuleName"
    and mint: "MintAtoxToModule K (app_hook K) c m n = Inr c'"
  shows "AtoxSupply K c' = AtoxSupply K c + n" "AtoxBalance K c' (module_address K m) = AtoxBalance K c (module_address K m) + n"
    "TotalBurned (GetGlobalState c') = TotalBurned (GetGlobalState c)" "st_tokenomics c' = st_tokenomics c" "block_height c' = block_height c"
proof -
  obtain cs c2 where s: "0 < n" "MintedAgainstCap K c + n \<le> AtoxSupplyCap c" "new_coins AtoxBaseDenom n = Inr cs"
    "mint_coins K c AtoxModuleName cs = Inr c2" "send_between_modules K (app_hook K) c2 AtoxModuleName m cs = Inr c'"
    using mint by (auto simp: MintAtoxToModule_def AtoxSupplyCap_def Let_def split: if_splits)
  note bl = sdk_lawsD(1) [OF laws]
  let ?x = "module_address K AtoxModuleName" and ?m = "module_address K m"
  have cs: "cs = [(AtoxBaseDenom, n)]" using new_coins_Inr [OF s(3)] s(1) by simp
  have reg: "module_registered K AtoxModuleName" "module_registered K m"
    using s(5) by (simp_all add: send_between_modules_eq [OF bl] split: if_splits)
  note mnt = mint_safe [OF laws safe s(4) [unfolded cs] reg(1) s(2)]
  note send = send_between_modules_InrD [OF bl s(5)]
  note ref = send_refines [OF laws atox_safeD(1,2,4) [OF mnt(1)] send]
  have ne: "?x \<noteq> ?m" using inj_eq [OF sdk_lawsD(4) [OF laws]] m by auto
  have mod: "bk_module (book_of K c) ?x" "bk_module (book_of K c) ?m"
    using sdk_lawsD(6) [OF laws] reg by (simp_all add: isModuleAccount_def)
  have bk: "book_of K c' = (move_spec ?x ?m n (issue_spec ?x n (book_of K c)))\<lparr>bk_pool := ExchangePoolBalance K c'\<rparr>"
    unfolding ref(1) mnt(2) using ne s(1) mod by (simp add: cs send_spec_def settle_spec_def issue_spec_def)
  show "AtoxSupply K c' = AtoxSupply K c + n" "AtoxBalance K c' ?m = AtoxBalance K c ?m + n"
    "TotalBurned (GetGlobalState c') = TotalBurned (GetGlobalState c)"
    using arg_cong [OF bk, of bk_supply] arg_cong [OF bk, of "\<lambda>b. bk_balance b ?m"] arg_cong [OF bk, of bk_state] ne
    by (simp_all add: move_spec_def issue_spec_def)
  obtain y where "c2 = c\<lparr>ext := y\<rparr>" using mint_coins_InrE [OF bl s(4)] by metis
  then show "st_tokenomics c' = st_tokenomics c" "block_height c' = block_height c"
    using sent_simps(2,5) [OF ref(3)] by simp_all
qed

text \<open>
  C18: the block reward.  At every height the reward is the initial one halved once per completed interval.
  A begin block issues the smaller of it and what the cap still allows, to the fee collector, when ATOX is
  enabled, something is staked, something is left to issue and the bank carries it out, and it leaves the
  state alone otherwise; the cap is never exceeded.
\<close>

theorem begin_block_issues_reward:
  assumes laws: "sdk_laws K" and safe: "atox_safe K c"
    and valid: "tokenomics_Params_Validate (codec K) (tok_GetParams c) = Inr ()" "0 \<le> block_height c"
    and run: "tok_BeginBlocker K (app_hook K) c = Inr c'"
  defines "n \<equiv> min (InitialBlockReward (tok_GetParams c) div 2 ^ nat (block_height c div HalvingIntervalBlocks (tok_GetParams c)))
      (AtoxSupplyCap c - MintedAgainstCap K c)"
  shows "if AtoxEnabled c \<and> total_bonded K (ext c) \<noteq> Inr 0 \<and> 0 < n \<and> \<not> isl (MintAtoxToModule K (app_hook K) c FeeCollectorName n)
    then AtoxSupply K c' = AtoxSupply K c + n \<and>
      AtoxBalance K c' (module_address K FeeCollectorName) = AtoxBalance K c (module_address K FeeCollectorName) + n \<and>
      TotalDistributed (GetBlockRewardState c') = TotalDistributed (GetBlockRewardState c) + n \<and>
      MintedAgainstCap K c' \<le> AtoxSupplyCap c
    else c' = c"
proof -
  note r = reward_schedule [OF valid]
  let ?left = "AtoxSupplyCap c - MintedAgainstCap K c" and ?r = "scheduled_reward c"
  have n: "n = min ?r ?left" by (simp add: n_def scheduled_reward_def)
  show ?thesis
  proof (cases "AtoxEnabled c \<and> total_bonded K (ext c) \<noteq> Inr 0 \<and> 0 < n \<and> \<not> isl (MintAtoxToModule K (app_hook K) c FeeCollectorName n)")
    case True
    obtain c1 where mint: "MintAtoxToModule K (app_hook K) c FeeCollectorName n = Inr c1"
      using True by (cases "MintAtoxToModule K (app_hook K) c FeeCollectorName n") auto
    obtain p where c': "c' = SetBlockRewardState ((GetBlockRewardState c)
        \<lparr>TotalDistributed := TotalDistributed (GetBlockRewardState c) + n, CurrentPeriod := p\<rparr>) c1"
      using run True mint r(2) unfolding tok_BeginBlocker_def r(1) Let_def clamp_min n by (auto split: if_splits)
    have "FeeCollectorName \<noteq> AtoxModuleName" by (simp add: FeeCollectorName_def AtoxModuleName_def)
    note i = issue_to_module [OF laws safe this mint]
    have "AtoxSupply K c' = AtoxSupply K c1" "AtoxBalance K c' = AtoxBalance K c1" "GetGlobalState c' = GetGlobalState c1"
      by (simp_all add: c' SetBlockRewardState_def upd_tok_def AtoxSupply_def AtoxBalance_def GetGlobalState_def fun_eq_iff)
    then show ?thesis using True i by (simp add: MintedAgainstCap_def n)
        (simp add: c' SetBlockRewardState_def upd_tok_def GetBlockRewardState_def MintedAgainstCap_def n)
  next
    case False
    then show ?thesis using run r(2) unfolding tok_BeginBlocker_def r(1) Let_def clamp_min n
      by (cases "MintAtoxToModule K (app_hook K) c FeeCollectorName (min ?r ?left)") (auto split: if_splits)
  qed
qed

theorem begin_block_issues_reward_witness:
  "\<exists>c'. tok_BeginBlocker ledger_sdk (app_hook ledger_sdk) demo = Inr c' \<and> AtoxSupply ledger_sdk c' \<le> AtoxSupply ledger_sdk demo + 800"
proof -
  have "isl (tok_BeginBlocker ledger_sdk (app_hook ledger_sdk) demo) = False" by code_simp
  then obtain c' where c: "tok_BeginBlocker ledger_sdk (app_hook ledger_sdk) demo = Inr c'"
    unfolding isl_def by (cases "tok_BeginBlocker ledger_sdk (app_hook ledger_sdk) demo") auto
  have v: "tokenomics_Params_Validate (codec ledger_sdk) (tok_GetParams demo) = Inr ()" "0 \<le> block_height demo"
    "InitialBlockReward (tok_GetParams demo) = 800" "block_height demo div HalvingIntervalBlocks (tok_GetParams demo) = 0" by code_simp+
  from begin_block_issues_reward [OF ledger_laws demo_atox_safe v(1,2) c] show ?thesis using c v(3,4) by (auto split: if_splits)
qed

section \<open>Refills\<close>

text \<open>
  C28: a refill of the migration pool moves what it takes from the project pool into the migration pool and
  out of the confirmed claim, and nothing else; it never takes more than was confirmed, never overdraws
  the project pool, and never lifts the migration pool above its total.
\<close>

theorem refill_conserves:
  assumes laws: "sdk_laws K" and run: "RefillMigrationPool K (app_hook K) c = Inr c'"
  shows "\<exists>n. 0 \<le> n \<and> pool_of K c' MigrationPoolName = pool_of K c MigrationPoolName + n \<and>
    pool_of K c' ProjectPoolName = pool_of K c ProjectPoolName - n \<and> GetProjectClaimable c' = GetProjectClaimable c - n \<and>
    (0 < n \<longrightarrow> n \<le> GetProjectClaimable c \<and> n \<le> pool_of K c ProjectPoolName \<and>
       pool_of K c' MigrationPoolName \<le> get_MigrationPoolTotal c)"
proof (cases "c' = c")
  case True
  then show ?thesis by (intro exI [of _ 0]) simp
next
  case False
  let ?n = "refill_amount K c" and ?p = "module_address K ProjectPoolName" and ?m = "module_address K MigrationPoolName"
  obtain c1 where m: "0 < ?n" "c' = SetProjectClaimable (GetProjectClaimable c - ?n) c1"
    "send_between_modules K (app_hook K) c ProjectPoolName MigrationPoolName [(base_denom K, ?n)] = Inr c1"
    using run False by (auto elim: Refill_InrE)
  note b = base_send [OF laws send_between_modules_InrD [OF sdk_lawsD(1) [OF laws] m(3)]]
  have ne: "?p \<noteq> ?m" using inj_eq [OF sdk_lawsD(4) [OF laws]] by (simp add: ProjectPoolName_def MigrationPoolName_def)
  have "pool_of K c' MigrationPoolName = pool_of K c MigrationPoolName + ?n" "pool_of K c' ProjectPoolName = pool_of K c ProjectPoolName - ?n"
    "GetProjectClaimable c' = GetProjectClaimable c - ?n"
    using b(5) [of ?m] b(5) [of ?p] ne by (simp_all add: m(2) pool_of_def SetProjectClaimable_def upd_tok_def GetProjectClaimable_def)
  moreover have "?n \<le> GetProjectClaimable c" "?n \<le> pool_of K c ProjectPoolName" "pool_of K c MigrationPoolName + ?n \<le> get_MigrationPoolTotal c"
    by (auto simp: refill_amount_def get_MigrationPoolTotal_def)
  ultimately show ?thesis using m(1) by (intro exI [of _ ?n]) simp
qed

definition drained :: "ledger ctx" where
  "drained = demo\<lparr>ext := (ext demo)\<lparr>l_accounts := ((module_address ledger_sdk MigrationPoolName, ''liao''), 100) # l_accounts (ext demo)\<rparr>\<rparr>"

theorem refill_conserves_witness:
  "\<exists>c'. RefillMigrationPool ledger_sdk (app_hook ledger_sdk) drained = Inr c' \<and> GetProjectClaimable c' = 0 \<and>
     pool_of ledger_sdk c' MigrationPoolName = pool_of ledger_sdk drained MigrationPoolName + 100"
proof -
  let ?r = "RefillMigrationPool ledger_sdk (app_hook ledger_sdk) drained"
  have v: "map_sum id GetProjectClaimable ?r = Inr 0" "GetProjectClaimable drained = 100" by code_simp+
  then obtain c' where c: "?r = Inr c'" by (cases ?r) auto
  have "GetProjectClaimable c' = 0" using v(1) unfolding c by simp
  then show ?thesis using refill_conserves [OF ledger_laws c] c v(2) by auto
qed

section \<open>Tier releases\<close>

lemma refill_keeps:
  assumes "sdk_laws K" "RefillMigrationPool K (app_hook K) c = Inr c'"
  shows "GetCirculatingSupply c' = GetCirculatingSupply c" "pool_of K c' MinerPoolName = pool_of K c MinerPoolName"
proof -
  have "GetCirculatingSupply c' = GetCirculatingSupply c \<and> pool_of K c' MinerPoolName = pool_of K c MinerPoolName"
  proof (cases "c' = c")
    case False
    let ?n = "refill_amount K c"
    obtain c1 where m: "c' = SetProjectClaimable (GetProjectClaimable c - ?n) c1"
      "send_between_modules K (app_hook K) c ProjectPoolName MigrationPoolName [(base_denom K, ?n)] = Inr c1"
      using assms(2) False by (auto elim: Refill_InrE)
    note b = base_send [OF assms(1) send_between_modules_InrD [OF sdk_lawsD(1) [OF assms(1)] m(2)]]
    have "module_address K MinerPoolName \<noteq> module_address K ProjectPoolName" "module_address K MinerPoolName \<noteq> module_address K MigrationPoolName"
      using inj_eq [OF sdk_lawsD(4) [OF assms(1)]] by (simp_all add: ProjectPoolName_def MigrationPoolName_def MinerPoolName_def)
    then show ?thesis using b(2,5)
      by (simp add: m(1) SetProjectClaimable_def upd_tok_def GetCirculatingSupply_def tok_GetParams_def GetReleaseState_def pool_of_def Let_def)
  qed simp
  then show "GetCirculatingSupply c' = GetCirculatingSupply c" "pool_of K c' MinerPoolName = pool_of K c MinerPoolName" by simp_all
qed

lemma take_sample_keeps:
  "ConsecutiveDays (take_sample K params now s c) = ConsecutiveDays s" "CurrentTier (take_sample K params now s c) = CurrentTier s"
  "CurrentSampleDay (take_sample K params now s c) = CurrentSampleDay s"
  by (simp_all add: take_sample_def Let_def split: sum.split)

text \<open>
  C14: a release needs its streak.  An end block authorises a release only when a day has ended, that day
  qualified, and with it the streak has the required length; the release resets the streak and raises the
  tier by one.  Together the two shares stay within the quota of the circulating supply, and the miners'
  share within the miner pool.
\<close>

theorem release_needs_streak:
  fixes K :: "'x sdk" and D :: "'x dispatcher"
  assumes laws: "sdk_laws K" and share: "uint (MinerReleaseShareBps (tok_GetParams c)) \<le> 10000"
    and required: "0 < ConsecutiveDaysRequired (tok_GetParams c)" and pos: "0 < GetCirculatingSupply c"
  defines "s \<equiv> GetReleaseState c" and "s' \<equiv> GetReleaseState (tok_EndBlocker K (app_hook K) D c)"
    and "today \<equiv> quoT (block_time c) (if DaySeconds (tok_GetParams c) \<le> 0 then DefaultDaySeconds else DaySeconds (tok_GetParams c))"
  shows "TotalMinerReleased s \<le> TotalMinerReleased s' \<and> TotalProjectReleased s \<le> TotalProjectReleased s' \<and>
    ((TotalMinerReleased s', TotalProjectReleased s') \<noteq> (TotalMinerReleased s, TotalProjectReleased s) \<longrightarrow>
       CurrentSampleDay s \<noteq> 0 \<and> CurrentSampleDay s < today \<and> DayQualified s \<and>
       ConsecutiveDaysRequired (tok_GetParams c) \<le> ConsecutiveDays s + 1 \<and>
       ConsecutiveDays s' = 0 \<and> CurrentTier s' = CurrentTier s + 1 \<and>
       TotalMinerReleased s' - TotalMinerReleased s \<le> pool_of K c MinerPoolName \<and>
       (TotalMinerReleased s' - TotalMinerReleased s) + (TotalProjectReleased s' - TotalProjectReleased s) \<le>
         quoT (GetCirculatingSupply c * uint (ReleasePercentageBps (tok_GetParams c))) 10000)"
proof (cases "block_time c \<le> 0")
  case True
  then show ?thesis by (simp add: s_def s'_def tok_EndBlocker_def)
next
  case False
  let ?p = "tok_GetParams c" and ?q = "quoT (GetCirculatingSupply c * uint (ReleasePercentageBps (tok_GetParams c))) 10000"
  define c1 where "c1 = (case RefillMigrationPool K (app_hook K) c of Inl _ \<Rightarrow> c | Inr c \<Rightarrow> c)"
  obtain st2 c2 where sd: "settle_day K D ?p today s c1 = (st2, c2)" by fastforce
  have eq: "tok_EndBlocker K (app_hook K) D c =
      SetReleaseState (take_sample K ?p (block_time c) (st2\<lparr>CurrentSampleDay := today\<rparr>) c2) c2"
    using False sd by (simp add: tok_EndBlocker_def Let_def today_def c1_def s_def)
  have s': "s' = take_sample K ?p (block_time c) (st2\<lparr>CurrentSampleDay := today\<rparr>) c2"
    unfolding s'_def eq by (simp add: SetReleaseState_def upd_tok_def GetReleaseState_def)
  have c1: "GetCirculatingSupply c1 = GetCirculatingSupply c" "pool_of K c1 MinerPoolName = pool_of K c MinerPoolName"
    using refill_keeps [OF laws] by (auto simp: c1_def split: sum.splits)
  have q: "0 \<le> ?q" using pos by (intro quoT_ge_0) simp_all
  from settle_day_cases [OF sdk_lawsD(1) [OF laws] share sd] show ?thesis
  proof cases
    case (3 m p)
    have "DayQualified s" using 3(3) required by (auto split: if_splits)
    then show ?thesis using 3 q c1 by (simp add: s' take_sample_keeps)
  qed (simp_all add: s')
qed

definition streak :: "ledger ctx" where
  "streak = SetReleaseState ((GetReleaseState demo)\<lparr>CurrentSampleDay := 1, DayQualified := True, ConsecutiveDays := 29\<rparr>)
     (demo\<lparr>block_time := 200000\<rparr>)"

theorem release_needs_streak_witness:
  "TotalMinerReleased (GetReleaseState streak) < TotalMinerReleased
     (GetReleaseState (tok_EndBlocker ledger_sdk (app_hook ledger_sdk) (DispatchTierRelease demo_core) streak)) \<and>
   CurrentTier (GetReleaseState (tok_EndBlocker ledger_sdk (app_hook ledger_sdk) (DispatchTierRelease demo_core) streak)) =
     CurrentTier (GetReleaseState streak) + 1"
proof -
  let ?e = "tok_EndBlocker ledger_sdk (app_hook ledger_sdk) (DispatchTierRelease demo_core) streak"
  have v: "uint (MinerReleaseShareBps (tok_GetParams streak)) \<le> 10000" "0 < ConsecutiveDaysRequired (tok_GetParams streak)"
    "0 < GetCirculatingSupply streak" "TotalMinerReleased (GetReleaseState streak) = 1000"
    "TotalMinerReleased (GetReleaseState ?e) = 1100" by code_simp+
  from release_needs_streak [OF ledger_laws v(1-3), of "DispatchTierRelease demo_core"] show ?thesis using v(4,5) by simp
qed

section \<open>Genesis\<close>

lemma fold_SetMigrationClaimed:
  "fold SetMigrationClaimed as c = upd_tok (\<lambda>s. s\<lparr>t_claimed := fold (\<lambda>a. kv_set a ()) as (t_claimed s)\<rparr>) c"
  by (induction as arbitrary: c) (simp_all add: SetMigrationClaimed_def upd_tok_def)

lemma fold_set_units:
  assumes "kv_inv m"
  shows "fold (\<lambda>a. kv_set a ()) (map fst m) [] = m"
proof -
  have get: "kv_get (fold (\<lambda>a. kv_set a ()) xs n) k = (if k \<in> set xs then Some () else kv_get n k)" for xs n and k :: 'a
    by (induction xs arbitrary: n) (simp_all add: kv_get_set)
  have inv: "kv_inv n \<Longrightarrow> kv_inv (fold (\<lambda>a. kv_set a ()) xs n)" for xs and n :: "('a, unit) kv"
    by (induction xs arbitrary: n) simp_all
  show ?thesis
  proof (rule kv_ext [OF inv assms])
    show "kv_get (fold (\<lambda>a. kv_set a ()) (map fst m) []) = kv_get m"
    proof
      fix k
      have "kv_get m k = (if k \<in> fst ` set m then Some () else None)" using kv_get_None [of m k] by (cases "kv_get m k") auto
      then show "kv_get (fold (\<lambda>a. kv_set a ()) (map fst m) []) k = kv_get m k" by (simp add: get kv_get_def [of "[]"])
    qed
  qed simp
qed

text \<open>
  C36: exporting the module and importing the result where the pools are funded succeeds and restores the parameters, the
  release and the reward state, the confirmed claim and the set of addresses that have claimed, so that none of them can
  claim again; it mints nothing and changes nothing outside the module's store.  Exporting again gives the same genesis.
\<close>

theorem tokenomics_genesis_round_trip:
  fixes K :: "'x sdk" and c c0 :: "'x ctx"
  assumes "kv_inv (t_claimed (st_tokenomics c))" "tokenomics_Params_Validate (codec K) (tok_GetParams c) = Inr ()"
    and "t_claimed (st_tokenomics c0) = []"
    and "0 < pool_of K c0 MinerPoolName" "0 < pool_of K c0 ProjectPoolName" "0 < pool_of K c0 MigrationPoolName"
  shows "\<exists>c'. tok_InitGenesis K H c0 (tok_ExportGenesis c) = Inr c' \<and> c' = c0\<lparr>st_tokenomics := st_tokenomics c'\<rparr> \<and>
    tok_GetParams c' = tok_GetParams c \<and> GetReleaseState c' = GetReleaseState c \<and>
    GetBlockRewardState c' = GetBlockRewardState c \<and> GetProjectClaimable c' = GetProjectClaimable c \<and>
    t_claimed (st_tokenomics c') = t_claimed (st_tokenomics c) \<and> tok_ExportGenesis c' = tok_ExportGenesis c \<and>
    (\<forall>sha msg. HasMigrationClaimed c (mc_Claimer msg) \<longrightarrow> ClaimMigrationTokens K H sha c' msg = Inl ErrAlreadyClaimed)"
proof -
  have pools: "pool_of K (c1 :: 'x ctx) m = pool_of K c0 m" if "ext c1 = ext c0" for c1 m using that by (simp add: pool_of_def)
  let ?c1 = "fold SetMigrationClaimed (AllMigrationClaimed c) (SetProjectClaimable (GetProjectClaimable c)
      (SetBlockRewardState (GetBlockRewardState c) (SetReleaseState (GetReleaseState c)
        (upd_tok (\<lambda>s. s\<lparr>t_params := Some (tok_GetParams c)\<rparr>) c0))))"
  have e: "?c1 = c0\<lparr>st_tokenomics := \<lparr>t_params = Some (tok_GetParams c), t_release = Some (GetReleaseState c),
      t_reward = Some (GetBlockRewardState c), t_claimable = Some (GetProjectClaimable c), t_claimed = t_claimed (st_tokenomics c)\<rparr>\<rparr>"
    using fold_set_units [OF assms(1)] assms(3)
    by (simp add: fold_SetMigrationClaimed SetProjectClaimable_def SetBlockRewardState_def SetReleaseState_def upd_tok_def AllMigrationClaimed_def)
  have run: "tok_InitGenesis K H c0 (tok_ExportGenesis c) = Inr ?c1"
    using assms(2,4-6) pools [of ?c1] e
    by (simp add: tok_InitGenesis_def tok_ExportGenesis_def tok_SetParams_def mintToModule_def Let_def)
  then show ?thesis unfolding e
    by (simp add: tok_ExportGenesis_def AllMigrationClaimed_def tok_GetParams_def GetReleaseState_def GetBlockRewardState_def
        GetProjectClaimable_def ClaimMigrationTokens_def HasMigrationClaimed_def)
qed

definition claimed_once :: "ledger ctx" where
  "claimed_once = SetMigrationClaimed ''atos1bob'' demo"

theorem tokenomics_genesis_round_trip_witness:
  "\<exists>c'. tok_InitGenesis ledger_sdk (app_hook ledger_sdk) demo (tok_ExportGenesis claimed_once) = Inr c' \<and>
     TotalMinerReleased (GetReleaseState c') = 1000 \<and> t_claimed (st_tokenomics c') = [(''atos1bob'', ())] \<and>
     ClaimMigrationTokens ledger_sdk (app_hook ledger_sdk) id c' \<lparr>mc_Claimer = ''atos1bob'', mc_Amount = 5, mc_MerkleProof = [[]]\<rparr> =
       Inl ErrAlreadyClaimed"
proof -
  have v: "tokenomics_Params_Validate (codec ledger_sdk) (tok_GetParams claimed_once) = Inr ()" "t_claimed (st_tokenomics demo) = []"
    "0 < pool_of ledger_sdk demo MinerPoolName" "0 < pool_of ledger_sdk demo ProjectPoolName"
    "0 < pool_of ledger_sdk demo MigrationPoolName" "t_claimed (st_tokenomics claimed_once) = [(''atos1bob'', ())]"
    "TotalMinerReleased (GetReleaseState claimed_once) = 1000" "HasMigrationClaimed claimed_once ''atos1bob''" by code_simp+
  have "kv_inv (t_claimed (st_tokenomics claimed_once))" by (simp add: v(6) kv_inv_def)
  from tokenomics_genesis_round_trip [OF this v(1-5), of "app_hook ledger_sdk"] obtain c' where
    "tok_InitGenesis ledger_sdk (app_hook ledger_sdk) demo (tok_ExportGenesis claimed_once) = Inr c'"
    "GetReleaseState c' = GetReleaseState claimed_once" "t_claimed (st_tokenomics c') = t_claimed (st_tokenomics claimed_once)"
    "\<forall>sha msg. HasMigrationClaimed claimed_once (mc_Claimer msg) \<longrightarrow>
       ClaimMigrationTokens ledger_sdk (app_hook ledger_sdk) sha c' msg = Inl ErrAlreadyClaimed" by blast
  then show ?thesis using v(6-8) by auto
qed

section \<open>Deviations of the streak and of the shares\<close>

text \<open>
  C38: the streak survives a gap.  When the last day with a block qualified, the day is counted and the
  streak goes on however many days passed without any sample since; the settlement does not look at the
  length of the gap.
\<close>

theorem streak_survives_gap:
  assumes "0 < block_time c" "CurrentSampleDay (GetReleaseState c) \<noteq> 0" "DayQualified (GetReleaseState c)"
    and "CurrentSampleDay (GetReleaseState c) <
      quoT (block_time c) (if DaySeconds (tok_GetParams c) \<le> 0 then DefaultDaySeconds else DaySeconds (tok_GetParams c))"
    and "ConsecutiveDays (GetReleaseState c) + 1 < ConsecutiveDaysRequired (tok_GetParams c)"
  shows "ConsecutiveDays (GetReleaseState (tok_EndBlocker K H D c)) = ConsecutiveDays (GetReleaseState c) + 1"
proof -
  define today where "today = quoT (block_time c) (if DaySeconds (tok_GetParams c) \<le> 0 then DefaultDaySeconds else DaySeconds (tok_GetParams c))"
  let ?s = "GetReleaseState c"
  define c1 where "c1 = (case RefillMigrationPool K H c of Inl _ \<Rightarrow> c | Inr c \<Rightarrow> c)"
  have "settle_day K D (tok_GetParams c) today ?s c1 =
      (?s\<lparr>ConsecutiveDays := ConsecutiveDays ?s + 1, DayQualified := False, SamplesToday := 0\<rparr>, c1)"
    using assms(2-4) assms(5) [unfolded not_le [symmetric]] by (simp add: settle_day_def Let_def today_def)
  then have "GetReleaseState (tok_EndBlocker K H D c) = take_sample K (tok_GetParams c) (block_time c)
      (?s\<lparr>ConsecutiveDays := ConsecutiveDays ?s + 1, DayQualified := False, SamplesToday := 0, CurrentSampleDay := today\<rparr>) c1"
    using assms(1) by (simp add: tok_EndBlocker_def Let_def today_def c1_def SetReleaseState_def upd_tok_def GetReleaseState_def)
  then show ?thesis by (simp add: take_sample_keeps)
qed

definition long_gap :: "ledger ctx" where
  "long_gap = SetReleaseState ((GetReleaseState demo)\<lparr>CurrentSampleDay := 1, DayQualified := True, ConsecutiveDays := 5\<rparr>)
     (demo\<lparr>block_time := 86400000\<rparr>)"

theorem streak_survives_gap_witness:
  "ConsecutiveDays (GetReleaseState (tok_EndBlocker ledger_sdk (app_hook ledger_sdk) (DispatchTierRelease demo_core) long_gap)) = 6"
proof -
  have v: "0 < block_time long_gap" "CurrentSampleDay (GetReleaseState long_gap) \<noteq> 0" "DayQualified (GetReleaseState long_gap)"
    "CurrentSampleDay (GetReleaseState long_gap) < quoT (block_time long_gap)
       (if DaySeconds (tok_GetParams long_gap) \<le> 0 then DefaultDaySeconds else DaySeconds (tok_GetParams long_gap))"
    "ConsecutiveDays (GetReleaseState long_gap) + 1 < ConsecutiveDaysRequired (tok_GetParams long_gap)"
    "ConsecutiveDays (GetReleaseState long_gap) = 5" by code_simp+
  show ?thesis unfolding streak_survives_gap [OF v(1-5)] v(6) by simp
qed

definition wrapped_shares :: tokenomics_params where
  "wrapped_shares = (tok_GetParams demo)\<lparr>MinerReleaseShareBps := 4294967295, ProjectReleaseShareBps := 10001\<rparr>"

text \<open>
  The validation of the two release shares adds them as 32-bit words.  Shares that wrap around to 10000
  are accepted although the miners' share is far above it, and a release under them lowers the cumulative
  project release, which is never meant to fall.
\<close>

lemma release_shares_wrap:
  "tokenomics_Params_Validate (codec ledger_sdk) wrapped_shares = Inr () \<and>
   10000 < uint (MinerReleaseShareBps wrapped_shares) \<and>
   TotalProjectReleased (fst (TriggerRelease ledger_sdk (DispatchTierRelease demo_core) demo (GetReleaseState demo) wrapped_shares)) <
     TotalProjectReleased (GetReleaseState demo)"
  by code_simp

end
