(* ===== verification/BridgeSpec.thy ===== *)
theory BridgeSpec
  imports ChainDemo
begin

text \<open>
  Properties of the bridge adapter: the wire format of its three payloads, the amounts and limits of
  transfers in both directions, which messages it accepts, that receipts are idempotent, and the emergency stop.
\<close>

section \<open>Big-endian numbers\<close>

lemma set_bytes_snoc: "set_bytes (bs @ [b]) = set_bytes bs * 256 + of_char b"
  by (simp add: set_bytes_def)

lemma of_char_bounds: "0 \<le> (of_char b :: int)" "(of_char b :: int) < 256"
proof -
  have "(of_char b :: int) = of_char b mod 256" by simp
  then show "0 \<le> (of_char b :: int)" "(of_char b :: int) < 256"
    by (metis pos_mod_sign zero_less_numeral, metis pos_mod_bound zero_less_numeral)
qed

lemma set_bytes_bounds: "0 \<le> set_bytes bs" "set_bytes bs < 256 ^ length bs"
proof -
  have "0 \<le> set_bytes bs \<and> set_bytes bs < 256 ^ length bs"
  proof (induction bs rule: rev_induct)
    case (snoc b bs)
    have "set_bytes bs + 1 \<le> 256 ^ length bs" using snoc by linarith
    then have "(set_bytes bs + 1) * 256 \<le> 256 ^ length bs * 256" by (rule mult_right_mono) simp
    then show ?case using snoc of_char_bounds [of b] by (simp add: set_bytes_snoc)
  qed (simp add: set_bytes_def)
  then show "0 \<le> set_bytes bs" "set_bytes bs < 256 ^ length bs" by simp_all
qed

lemma set_bytes_inj: "length as = length bs \<Longrightarrow> set_bytes as = set_bytes bs \<Longrightarrow> as = bs"
proof (induction as arbitrary: bs rule: rev_induct)
  case (snoc a as)
  obtain bs' b where b: "bs = bs' @ [b]" using snoc.prems(1) by (cases bs rule: rev_cases) auto
  have e: "set_bytes as * 256 + of_char a = set_bytes bs' * 256 + of_char b" using snoc.prems(2) by (simp add: b set_bytes_snoc)
  have digit: "(x * 256 + of_char d) div 256 = x" "(x * 256 + of_char d) mod 256 = of_char d" for x :: int and d
    using of_char_bounds [of d] by simp_all
  have "set_bytes as = set_bytes bs'" "(of_char a :: int) = of_char b"
    using arg_cong [OF e, of "\<lambda>x. x div 256"] arg_cong [OF e, of "\<lambda>x. x mod 256"] unfolding digit by simp_all
  then show ?case using snoc.IH [of bs'] snoc.prems(1) by (simp add: b of_char_eq_iff)
qed simp

lemma set_bytes_big_bytes: "0 \<le> n \<Longrightarrow> set_bytes (big_bytes n) = n"
proof (induction n rule: big_bytes.induct)
  case (1 n)
  show ?case
  proof (cases "n \<le> 0")
    case False
    have "0 \<le> n div 256" using "1.prems" by (simp add: pos_imp_zdiv_nonneg_iff)
    then show ?thesis using "1.IH" [OF False] False
      by (simp add: big_bytes.simps [of n] set_bytes_snoc)
  qed (use "1.prems" in \<open>simp add: big_bytes.simps [of 0] set_bytes_def\<close>)
qed

lemma big_bytes_short: "n < 256 ^ k \<Longrightarrow> length (big_bytes n) \<le> k"
proof (induction k arbitrary: n)
  case 0
  then show ?case by (simp add: big_bytes.simps [of n])
next
  case (Suc k)
  show ?case
  proof (cases "n \<le> 0")
    case False
    have "n div 256 < 256 ^ k" using Suc.prems by (intro div_less_int) simp_all
    then show ?thesis using Suc.IH [of "n div 256"] False by (simp add: big_bytes.simps [of n])
  qed (simp add: big_bytes.simps [of n])
qed

lemma set_bytes_zeros: "set_bytes (zero_bytes k @ bs) = set_bytes bs"
proof -
  have "(of_char (char_of (0 :: nat)) :: int) = 0"
    by (subst of_nat_of_char [symmetric]) (simp only: of_char_of mod_0 of_nat_0)
  then have "foldl (\<lambda>acc b. acc * 256 + of_char b) (0 :: int) (replicate k (char_of (0 :: nat))) = 0" by (induction k) simp_all
  then show ?thesis by (simp add: set_bytes_def zero_bytes_def)
qed

lemma word32_length: "length bs \<le> 32 \<Longrightarrow> length (word32 bs) = 32"
  by (simp add: word32_def zero_bytes_def)

lemma word32_value: "0 \<le> n \<Longrightarrow> set_bytes (word32 (big_bytes n)) = n"
  by (simp add: word32_def set_bytes_zeros set_bytes_big_bytes)

text \<open>A word of 32 bytes is the right-aligned form of the number it holds.\<close>

lemma word32_of_value:
  assumes "length bs = 32"
  shows "word32 (big_bytes (set_bytes bs)) = bs" "length (big_bytes (set_bytes bs)) \<le> 32"
proof -
  show l: "length (big_bytes (set_bytes bs)) \<le> 32"
    using set_bytes_bounds(2) [of bs] by (intro big_bytes_short) (simp add: assms)
  show "word32 (big_bytes (set_bytes bs)) = bs"
    by (rule set_bytes_inj) (simp_all add: assms word32_length [OF l] word32_value set_bytes_bounds(1))
qed

section \<open>Payloads\<close>

lemma tier_payload:
  assumes "ty < 256"
  shows "parseTierMessage p ty = Inr (a, b) \<longleftrightarrow> buildTierMessage ty a b = Inr p"
proof
  assume "buildTierMessage ty a b = Inr p"
  then have h: "0 \<le> a" "0 \<le> b" "length (big_bytes a) \<le> 32" "length (big_bytes b) \<le> 32"
    and p: "p = zero_bytes 31 @ [char_of ty] @ word32 (big_bytes a) @ word32 (big_bytes b)"
    by (auto simp: buildTierMessage_def Let_def split: if_splits)
  have len: "length (word32 (big_bytes a)) = 32" "length (word32 (big_bytes b)) = 32" "length (zero_bytes 31) = 31"
    using h by (simp_all add: word32_length) (simp add: zero_bytes_def)
  have "take 31 p = zero_bytes 31" "p ! 31 = char_of ty" "length p = 96"
    "take 32 (drop 32 p) = word32 (big_bytes a)" "drop 64 p = word32 (big_bytes b)"
    unfolding p using len by (simp_all add: nth_append)
  then show "parseTierMessage p ty = Inr (a, b)"
    using h len by (simp add: parseTierMessage_def TierMessagePayloadLen_def word32_value) (simp add: zero_bytes_def list_ex_iff)
next
  assume "parseTierMessage p ty = Inr (a, b)"
  then have h: "length p = 96" "\<forall>b \<in> set (take 31 p). b = char_of (0 :: nat)" "p ! 31 = char_of ty"
    "a = set_bytes (take 32 (drop 32 p))" "b = set_bytes (take 32 (drop 64 p))"
    by (auto simp: parseTierMessage_def TierMessagePayloadLen_def list_ex_iff split: if_splits)
  have "take 31 p = zero_bytes 31" using h(1,2) unfolding zero_bytes_def by (intro replicate_eqI) auto
  moreover have "p = take 31 p @ [p ! 31] @ take 32 (drop 32 p) @ take 32 (drop 64 p)"
  proof -
    have "p = take 31 p @ p ! 31 # drop 32 p" using id_take_nth_drop [of 31 p] h(1) by simp
    moreover have "take 32 (drop 32 p) @ drop (32 + 32) p = drop 32 p" unfolding drop_drop [symmetric] by (rule append_take_drop_id)
    moreover have "take 32 (drop 64 p) = drop 64 p" using h(1) by simp
    ultimately show ?thesis by simp
  qed
  ultimately show "buildTierMessage ty a b = Inr p"
    using word32_of_value [of "take 32 (drop 32 p)"] word32_of_value [of "take 32 (drop 64 p)"] h set_bytes_bounds(1)
    by (simp add: buildTierMessage_def Let_def not_less)
qed

lemma asset_payload: "ParseAssetPayload p = Inr (r, n) \<and> 0 < n \<longleftrightarrow> BuildAssetPayload r n = Inr p"
proof
  assume "BuildAssetPayload r n = Inr p"
  then have "length r = 32" "0 < n" "length (big_bytes n) \<le> 32" "p = r @ word32 (big_bytes n)"
    by (auto simp: BuildAssetPayload_def HexAddressLen_def Let_def split: if_splits)
  then show "ParseAssetPayload p = Inr (r, n) \<and> 0 < n"
    by (simp add: ParseAssetPayload_def AssetPayloadLen_def word32_length word32_value)
next
  assume "ParseAssetPayload p = Inr (r, n) \<and> 0 < n"
  then have h: "length p = 64" "r = take 32 p" "n = set_bytes (take 32 (drop 32 p))" "0 < n"
    by (auto simp: ParseAssetPayload_def AssetPayloadLen_def split: if_splits)
  have "take 32 p @ take 32 (drop 32 p) = p" using h(1) by simp
  then show "BuildAssetPayload r n = Inr p"
    using h word32_of_value [of "take 32 (drop 32 p)"] by (simp add: BuildAssetPayload_def HexAddressLen_def Let_def)
qed

lemma big_bytes_fits: "length (big_bytes n) \<le> k \<longleftrightarrow> n < 256 ^ k"
proof
  assume k: "length (big_bytes n) \<le> k"
  show "n < 256 ^ k"
  proof (cases "0 \<le> n")
    case True
    have "set_bytes (big_bytes n) < 256 ^ length (big_bytes n)" by (rule set_bytes_bounds)
    also have "\<dots> \<le> 256 ^ k" using k by (intro power_increasing) simp_all
    finally show ?thesis using True by (simp add: set_bytes_big_bytes)
  next
    case False
    then show ?thesis using zero_less_power [of "256 :: int" k] by linarith
  qed
qed (rule big_bytes_short)

lemma tier_fits: "isl (buildTierMessage ty a b) \<longleftrightarrow> a \<notin> {0 ..< 2 ^ 256} \<or> b \<notin> {0 ..< 2 ^ 256}"
proof -
  have w: "32 < length (big_bytes n) \<longleftrightarrow> (2 :: int) ^ 256 \<le> n" for n
    unfolding not_le [symmetric] big_bytes_fits by (simp flip: not_less)
  show ?thesis unfolding buildTierMessage_def Let_def w by (simp only: isl_def atLeastLessThan_iff if_split) (auto simp only: not_le not_less)
qed

text \<open>C29: A payload of the bridge parses to the values it was built from, and every payload that parses is the
  one the builder gives: the parsers accept no second form of a message, and no payload is a tier release
  and a receipt, or an asset transfer and either of them.  The builders of the tier messages succeed exactly on totals in
  the range of an unsigned 256-bit integer.\<close>

theorem bridge_payload_round_trip:
  "(ParseAssetPayload p = Inr (r, n) \<and> 0 < n \<longleftrightarrow> BuildAssetPayload r n = Inr p) \<and>
   (ParseReceipt p = Inr (a, b) \<longleftrightarrow> BuildReceipt a b = Inr p) \<and>
   (ParseTierRelease p = Inr (a, b) \<longleftrightarrow> BuildTierRelease a b = Inr p) \<and>
   (\<not> isl (BuildReceipt a b) \<longleftrightarrow> a \<in> {0 ..< 2 ^ 256} \<and> b \<in> {0 ..< 2 ^ 256}) \<and>
   (\<not> isl (BuildTierRelease a b) \<longleftrightarrow> a \<in> {0 ..< 2 ^ 256} \<and> b \<in> {0 ..< 2 ^ 256}) \<and>
   (isl (ParseReceipt p) \<or> isl (ParseTierRelease p)) \<and>
   (isl (ParseAssetPayload p) \<or> isl (ParseReceipt p) \<and> isl (ParseTierRelease p))"
proof -
  have ty: "MsgTypeReleaseReceipt < 256" "MsgTypeTierRelease < 256" "char_of MsgTypeReleaseReceipt \<noteq> char_of MsgTypeTierRelease"
    by (simp_all add: MsgTypeReleaseReceipt_def MsgTypeTierRelease_def char_of_eq_iff)
  have "isl (ParseReceipt p) \<or> isl (ParseTierRelease p)"
    using ty(3) by (auto simp: ParseReceipt_def ParseTierRelease_def parseTierMessage_def)
  moreover have "isl (ParseAssetPayload p) \<or> isl (ParseReceipt p) \<and> isl (ParseTierRelease p)"
    by (simp add: ParseAssetPayload_def ParseReceipt_def ParseTierRelease_def parseTierMessage_def AssetPayloadLen_def TierMessagePayloadLen_def)
  ultimately show ?thesis
    unfolding asset_payload ParseReceipt_def BuildReceipt_def ParseTierRelease_def BuildTierRelease_def tier_payload [OF ty(1)] tier_payload [OF ty(2)]
      tier_fits by blast
qed

section \<open>The Hyperlane core and the pool\<close>

lemma moves_keep:
  assumes laws: "sdk_laws K" and m: "bank_moves K P c c'" and safe: "atox_safe K c" and P: "\<And>a. a \<in> P \<Longrightarrow> outsider K a"
  shows "atox_safe K c' \<and> block_time c' = block_time c \<and> st_bridge c' = st_bridge c \<and>
     (\<forall>b. b \<notin> P \<longrightarrow> balance K c b (base_denom K) \<le> balance K c' b (base_denom K))"
  using m
proof induction
  case (transfer c1 f t cs c2)
  then have c1: "atox_safe K c1" by simp
  note s = sent_simps [OF send_refines(3) [OF laws atox_safeD(1,2,4) [OF c1] transfer(3)]]
  have f: "f \<noteq> ExchangePoolAddress K" using P transfer(2) by (auto simp: outsider_def)
  have "balance K c1 b (base_denom K) \<le> balance K c2 b (base_denom K)" if "b \<notin> P" for b
  proof -
    have "b \<noteq> f" using that transfer(2) by auto
    then show ?thesis using s(11) [of "base_denom K" b] s(10) [of "base_denom K"] sdk_lawsD(7) [OF laws] by simp
  qed
  then show ?case using transfer.IH send_safe [OF laws c1 transfer(3) f] by (auto simp: s(3,4) intro: order_trans)
next
  case (own c1 y)
  have "bank_moves K {} c1 (c1\<lparr>ext := y\<rparr>)" by (rule bank_moves.own [OF bank_moves.none own(2-4)])
  then show ?case using own(4,5) moves_atox [OF laws, of "{}"] by simp
qed (simp add: safe)

section \<open>Reading back what the adapter writes\<close>

lemma rate_day [simp]: "rl_Day (GetRateLimitState c) = DayOf (block_time c)"
  by (auto simp: GetRateLimitState_def freshRateLimitState_def Let_def split: option.split)

lemmas bridge_writes = SetReceiptState_def setAddressUsage_def setInboundAddressUsage_def setRateLimitState_def upd_bridge_def

lemma bridge_reads:
  "GetReceiptState (SetReceiptState s c) = s"
  "GetReceiptState (setAddressUsage a u c) = GetReceiptState c"
  "GetReceiptState (setInboundAddressUsage a u c) = GetReceiptState c"
  "GetReceiptState (setRateLimitState rl c) = GetReceiptState c"
  "GetAddressUsage (setAddressUsage a u c) a = u"
  "GetAddressUsage (SetReceiptState s c) b = GetAddressUsage c b"
  "GetInboundAddressUsage (setInboundAddressUsage a u c) a = u"
  "GetInboundAddressUsage (setRateLimitState rl c) b = GetInboundAddressUsage c b"
  "rl_Day rl = DayOf (block_time c) \<Longrightarrow> GetRateLimitState (setRateLimitState rl c) = rl"
  "GetRateLimitState (SetReceiptState s c) = GetRateLimitState c"
  "GetRateLimitState (setAddressUsage a u c) = GetRateLimitState c"
  "GetRateLimitState (setInboundAddressUsage a u c) = GetRateLimitState c"
  "br_GetParams (SetReceiptState s c) = br_GetParams c"
  "block_time (SetReceiptState s c) = block_time c" "block_time (setInboundAddressUsage a u c) = block_time c"
  by (simp_all add: bridge_writes GetReceiptState_def GetAddressUsage_def GetInboundAddressUsage_def GetRateLimitState_def
      usageAt_def br_GetParams_def kv_get_set split: option.split)

lemma AtosToErc20_exact: "AtosToErc20 n p = Inr e \<Longrightarrow> 0 < e \<and> e * uint p = n"
proof -
  assume "AtosToErc20 n p = Inr e"
  then have h: "0 < n" "p \<noteq> 0" "uint p dvd n" "e = quoT n (uint p)"
    by (auto simp: AtosToErc20_def Let_def mod_eq_0_iff_dvd split: if_splits)
  have "0 < uint p" using h(2) uint_ge_0 [of p] unsigned_eq_0_iff [of p, where 'a = int] by linarith
  then show ?thesis using h by (auto simp: quoT_def elim!: dvdE) (simp_all add: zero_less_mult_iff)
qed

text \<open>C7: A bridge transfer that leaves the chain sends exactly its worth at the peg, with no remainder: the released ERC-20 amount times
  the peg is the amount locked.  The migration pool holds at least the amount more, whatever the dispatch charges the sender, and the
  total, the day's usage, the usage of large transfers and of the sender grow by it.  Unless limits are switched off, the day's usage stays
  within the global cap, that of large transfers within their budget and the sender's within the cap per address.\<close>

theorem bridge_out_locks:
  fixes K :: "'x sdk" and c :: "'x ctx"
  defines "L \<equiv> Limits K c" and "rl \<equiv> GetRateLimitState c"
  assumes laws: "sdk_laws K" "core_law K Core" and safe: "atox_safe K c"
    and sender: "outsider K sender" "sender \<noteq> module_address K MigrationPoolName"
    and out: "ExecuteBridgeOut K (app_hook K) Core c sender recipient n fee = Inr (i, e, c')"
  shows "0 < e \<and> e * uint (AtosPerErc20 (br_GetParams c)) = n \<and>
    MigrationPoolBalance K c + n \<le> MigrationPoolBalance K c' \<and>
    TotalBridgedOut (GetReceiptState c') = TotalBridgedOut (GetReceiptState c) + n \<and>
    rl_Used (GetRateLimitState c') = rl_Used rl + n \<and>
    rl_UsedLarge (GetRateLimitState c') = rl_UsedLarge rl + (if IsSmall L n then 0 else n) \<and>
    GetAddressUsage c' (acc_string (codec K) sender) = GetAddressUsage c (acc_string (codec K) sender) + n \<and>
    (\<not> l_Disabled L \<longrightarrow> l_MinTransfer L \<le> n \<and> rl_Used rl + n \<le> l_Global L \<and>
       (\<not> IsSmall L n \<longrightarrow> rl_UsedLarge rl + n \<le> l_LargeBudget L) \<and>
       (0 < l_PerAddress L \<longrightarrow> GetAddressUsage c (acc_string (codec K) sender) + n \<le> l_PerAddress L))"
  using out
proof (rule bridge_out_InrE)
  fix c1 c2 body
  assume o: "0 < n" "AtosToErc20 n (AtosPerErc20 (br_GetParams c)) = Inr e"
    "CheckOutbound (Limits K c) n (rl_Used (GetRateLimitState c)) (rl_UsedLarge (GetRateLimitState c))
       (GetAddressUsage c (acc_string (codec K) sender)) = Inr ()"
    and s: "send_to_module K (app_hook K) c sender MigrationPoolName [(base_denom K, n)] = Inr c1"
    and d: "DispatchMessage Core c1 (MailboxId (br_GetParams c)) (AssetAppId (GetReceiptState c1)) fee
       (EthereumDomain (br_GetParams c)) (RemoteBridgeVault (br_GetParams c)) body sender = (Inr i, c2)"
    and c': "c' = SetReceiptState ((GetReceiptState c1)\<lparr>TotalBridgedOut := TotalBridgedOut (GetReceiptState c1) + n\<rparr>)
       (setAddressUsage (acc_string (codec K) sender) (GetAddressUsage c (acc_string (codec K) sender) + n)
       (setRateLimitState ((GetRateLimitState c)\<lparr>rl_Used := rl_Used (GetRateLimitState c) + n,
          rl_UsedLarge := rl_UsedLarge (GetRateLimitState c) + (if IsSmall (Limits K c) n then 0 else n)\<rparr>) c2))"
  note send = send_to_module_InrD [OF sdk_lawsD(1) [OF laws(1)] s]
  have "sender \<noteq> ExchangePoolAddress K" using sender(1) by (simp add: outsider_def)
  note c1 = send_safe [OF laws(1) safe send this] plain_send(3,5) [OF laws(1) send]
    base_send(5) [OF laws(1) send, of "module_address K MigrationPoolName"]
  have "bank_moves K {sender} c1 c2" using laws(2) d by (simp add: core_law_def)
  note c2 = moves_keep [OF laws(1) this c1(1)]
  have out: "outsider K a" if "a \<in> {sender}" for a using sender that by simp
  note c2 = c2 [OF out]
  have g: "GetReceiptState c1 = GetReceiptState c" "block_time c2 = block_time c"
    using c1(2,3) c2 sdk_lawsD(7) [OF laws(1)] by (simp_all add: GetReceiptState_def)
  have "rl_Used (GetRateLimitState c') = rl_Used rl + n"
    "rl_UsedLarge (GetRateLimitState c') = rl_UsedLarge rl + (if IsSmall L n then 0 else n)"
    "GetAddressUsage c' (acc_string (codec K) sender) = GetAddressUsage c (acc_string (codec K) sender) + n"
    "TotalBridgedOut (GetReceiptState c') = TotalBridgedOut (GetReceiptState c) + n"
    by (simp_all add: c' g rl_def L_def bridge_reads)
  moreover have "MigrationPoolBalance K c + n \<le> MigrationPoolBalance K c'"
  proof -
    have "MigrationPoolBalance K c' = balance K c2 (module_address K MigrationPoolName) (base_denom K)"
      by (simp add: c' bridge_writes MigrationPoolBalance_def pool_of_def)
    then show ?thesis using c2 c1(4) sender(2) by (force simp: MigrationPoolBalance_def pool_of_def)
  qed
  moreover have "l_MinTransfer L \<le> n \<and> rl_Used rl + n \<le> l_Global L \<and>
       (\<not> IsSmall L n \<longrightarrow> rl_UsedLarge rl + n \<le> l_LargeBudget L) \<and>
       (0 < l_PerAddress L \<longrightarrow> GetAddressUsage c (acc_string (codec K) sender) + n \<le> l_PerAddress L)" if "\<not> l_Disabled L"
    using o(1,3) that unfolding L_def rl_def by (auto simp: CheckOutbound_def limit_set_def Let_def split: if_splits)
  ultimately show ?thesis using AtosToErc20_exact [OF o(2)] by blast
qed

lemma i64_pos: "0 < i64_of_u64 p \<Longrightarrow> i64_of_u64 p = uint p"
proof -
  assume p: "0 < i64_of_u64 p"
  have u: "uint p < 2 ^ 64" using uint_bounded [of p] by simp
  have "uint p < 2 ^ 63"
  proof (rule ccontr)
    assume "\<not> uint p < 2 ^ 63"
    then have "(uint p - 2 ^ 63) mod 2 ^ 64 = uint p - 2 ^ 63" using u by (intro mod_pos_pos_trivial) simp_all
    moreover have "uint p + 2 ^ 63 = (uint p - 2 ^ 63) + 2 ^ 64" by simp
    ultimately show False using p u by (simp only: i64_of_u64_def wrap64_def mod_add_self2)
  qed
  then show ?thesis by (rule i64_of_u64_small)
qed

lemma asset_in_InrE:
  assumes "handleAssetTransfer K H c msg = Inr c'"
  obtains r e a n c1 where "BridgeEnabled (br_GetParams c)" "hm_Origin msg = EthereumDomain (br_GetParams c)"
    "length (RemoteBridgeVault (br_GetParams c)) = HexAddressLen" "RemoteBridgeVault (br_GetParams c) = hm_Sender msg"
    "ParseAssetPayload (hm_Body msg) = Inr (r, e)" "0 < e" "CosmosAddressFromHyperlane r = Inr a"
    "n = e * uint (AtosPerErc20 (br_GetParams c))" "0 < n" "n \<le> MigrationPoolBalance K c"
    "CheckInbound (Limits K c) n (rl_UsedInbound (GetRateLimitState c)) (GetInboundAddressUsage c (acc_string (codec K) a)) = Inr ()"
    "send_from_module K H c MigrationPoolName a [(base_denom K, n)] = Inr c1"
    "c' = setRateLimitState ((GetRateLimitState c1)\<lparr>rl_UsedInbound := rl_UsedInbound (GetRateLimitState c1) + n\<rparr>)
       (setInboundAddressUsage (acc_string (codec K) a) (GetInboundAddressUsage c (acc_string (codec K) a) + n)
       (SetReceiptState ((GetReceiptState c1)\<lparr>TotalBridgedIn := TotalBridgedIn (GetReceiptState c1) + n\<rparr>) c1))"
proof -
  let ?p = "AtosPerErc20 (br_GetParams c)"
  obtain r e a n where o: "BridgeEnabled (br_GetParams c)" "hm_Origin msg = EthereumDomain (br_GetParams c)"
    "length (RemoteBridgeVault (br_GetParams c)) = HexAddressLen" "RemoteBridgeVault (br_GetParams c) = hm_Sender msg"
    "ParseAssetPayload (hm_Body msg) = Inr (r, e)" "0 < e" "CosmosAddressFromHyperlane r = Inr a" "Erc20ToAtos e ?p = Inr n"
    "n \<le> MigrationPoolBalance K c"
    "CheckInbound (Limits K c) n (rl_UsedInbound (GetRateLimitState c)) (GetInboundAddressUsage c (acc_string (codec K) a)) = Inr ()"
    using assms unfolding handleAssetTransfer_def Let_def by (auto split: if_splits prod.splits)
  have n: "0 < n" using o(10) by (auto simp: CheckInbound_def split: if_splits)
  have "n = e * i64_of_u64 ?p" using o(6,8) n by (auto simp: Erc20ToAtos_def split: if_splits)
  then have "n = e * uint ?p" using i64_pos [of ?p] n o(6) by (simp add: zero_less_mult_iff)
  moreover obtain c1 where "send_from_module K H c MigrationPoolName a [(base_denom K, n)] = Inr c1"
    "c' = setRateLimitState ((GetRateLimitState c1)\<lparr>rl_UsedInbound := rl_UsedInbound (GetRateLimitState c1) + n\<rparr>)
       (setInboundAddressUsage (acc_string (codec K) a) (GetInboundAddressUsage c (acc_string (codec K) a) + n)
       (SetReceiptState ((GetReceiptState c1)\<lparr>TotalBridgedIn := TotalBridgedIn (GetReceiptState c1) + n\<rparr>) c1))"
    using assms n unfolding handleAssetTransfer_def Let_def
    by (auto simp: o new_coins_def bridge_reads split: if_splits)
  ultimately show ?thesis using that o(1-7) n o(9,10) by blast
qed

lemma handle_InrE:
  assumes "bridge_Handle K H Core c mb msg = Inr c'"
  obtains (asset) "mb = MailboxId (br_GetParams c)" "length mb = HexAddressLen" "hm_Recipient msg = AssetAppId (GetReceiptState c)"
    "length (hm_Recipient msg) = HexAddressLen" "handleAssetTransfer K H c msg = Inr c'"
  | (receipt) "mb = MailboxId (br_GetParams c)" "length mb = HexAddressLen" "hm_Recipient msg \<noteq> AssetAppId (GetReceiptState c)"
    "hm_Recipient msg = AppId (GetReceiptState c)" "length (hm_Recipient msg) = HexAddressLen" "applyReceipt K H Core c msg = Inr c'"
proof -
  let ?st = "GetReceiptState c"
  have m: "mb = MailboxId (br_GetParams c)" "length mb = HexAddressLen"
    using assms by (auto simp: bridge_Handle_def Let_def split: if_splits)
  show ?thesis
  proof (cases "length (AssetAppId ?st) = HexAddressLen \<and> AssetAppId ?st = hm_Recipient msg")
    case True
    then show ?thesis using assms m by (intro asset) (auto simp: bridge_Handle_def)
  next
    case False
    have "(if length (AppId ?st) = HexAddressLen \<and> AppId ?st = hm_Recipient msg
        then applyReceipt K H Core c msg else Inl (BridgeErr ErrUnknownRecipient)) = Inr c'"
      using assms m unfolding bridge_Handle_def Let_def if_not_P [OF False] by simp
    then show ?thesis using m False by (intro receipt) (auto split: if_splits)
  qed
qed

lemma asset_in_bridge:
  assumes laws: "sdk_laws K" and b: "handleAssetTransfer K (app_hook K) c msg = Inr c'"
  obtains n where "GetReceiptState c' = (GetReceiptState c)\<lparr>TotalBridgedIn := TotalBridgedIn (GetReceiptState c) + n\<rparr>" "0 < n"
  using b
proof (rule asset_in_InrE)
  fix a n c1
  assume n: "0 < n" "send_from_module K (app_hook K) c MigrationPoolName a [(base_denom K, n)] = Inr c1"
    "c' = setRateLimitState ((GetRateLimitState c1)\<lparr>rl_UsedInbound := rl_UsedInbound (GetRateLimitState c1) + n\<rparr>)
       (setInboundAddressUsage (acc_string (codec K) a) (GetInboundAddressUsage c (acc_string (codec K) a) + n)
       (SetReceiptState ((GetReceiptState c1)\<lparr>TotalBridgedIn := TotalBridgedIn (GetReceiptState c1) + n\<rparr>) c1))"
  note send = base_send(3) [OF laws send_from_module_InrD [OF sdk_lawsD(1) [OF laws] n(2)]]
  then have "GetReceiptState c1 = GetReceiptState c" by (simp add: GetReceiptState_def)
  then show thesis using that n(1) by (simp add: n(3) bridge_reads)
qed

lemma receipt_bridge:
  assumes laws: "sdk_laws K" and b: "applyReceipt K (app_hook K) Core c msg = Inr c'"
  obtains tb tp where "ParseReceipt (hm_Body msg) = Inr (tb, tp)" "AppliedToBridge (GetReceiptState c) \<le> tb" "AppliedToProject (GetReceiptState c) \<le> tp"
    "st_bridge c' = (st_bridge c)\<lparr>b_receipt := Some (receipt_after Core msg tb tp (GetReceiptState c))\<rparr>"
    "br_Enabled (br_GetParams c)" "hm_Origin msg = EthereumDomain (br_GetParams c)" "VaultMatches (br_GetParams c) (hm_Sender msg)"
  using b
proof (rule receipt_InrE)
  fix tb tp
  assume "ParseReceipt (hm_Body msg) = Inr (tb, tp)" "br_Enabled (br_GetParams c)"
    "hm_Origin msg = EthereumDomain (br_GetParams c)" "VaultMatches (br_GetParams c) (hm_Sender msg)"
    "tb = AppliedToBridge (GetReceiptState c)" "tp = AppliedToProject (GetReceiptState c)"
    "c' = SetReceiptState (receipt_after Core msg tb tp (GetReceiptState c)) c"
  then show thesis using that by (simp add: bridge_writes)
next
  fix tb tp ap pp c1
  assume a: "ParseReceipt (hm_Body msg) = Inr (tb, tp)" "br_Enabled (br_GetParams c)"
    "hm_Origin msg = EthereumDomain (br_GetParams c)" "VaultMatches (br_GetParams c) (hm_Sender msg)"
    "AppliedToBridge (GetReceiptState c) \<le> tb" "AppliedToProject (GetReceiptState c) \<le> tp"
    and c1: "(if ap > 0 then AddToExchangePool K (app_hook K) c MinerPoolName ap else Inr c) = Inr c1"
    and c': "c' = SetReceiptState (receipt_after Core msg tb tp (GetReceiptState c))
       (if pp > 0 then SetProjectClaimable (GetProjectClaimable c1 + pp) c1 else c1)"
  have "st_bridge c1 = st_bridge c"
  proof (cases "ap > 0")
    case True
    then obtain gs c2 where "send_between_modules K (app_hook K) c MinerPoolName ExchangePoolName [(base_denom K, ap)] = Inr c2"
      "c1 = SetGlobalState gs c2"
      using c1 by (auto simp: AddToExchangePool_def new_coins_def Let_def split: if_splits)
    then show ?thesis using base_send(3) [OF laws send_between_modules_InrD [OF sdk_lawsD(1) [OF laws]]]
      by (simp add: SetGlobalState_def upd_atox_def)
  qed (use c1 in simp)
  then show thesis using that a by (simp add: c' bridge_writes SetProjectClaimable_def upd_tok_def)
qed

text \<open>C9: A Hyperlane message is only processed from the configured mailbox, the configured domain, for one of the two
  applications of the adapter, and from the contract that owns the route: the bridge vault for assets while the bridge is enabled, the
  release vault for receipts while receipts are enabled.  An asset message changes nothing of the receipt state but the
  total bridged in, a receipt nothing but the two confirmed totals, which never fall, and the last message.\<close>

theorem handle_provenance:
  assumes "sdk_laws K" "bridge_Handle K (app_hook K) Core c mb msg = Inr c'"
  shows "mb = MailboxId (br_GetParams c) \<and> hm_Origin msg = EthereumDomain (br_GetParams c) \<and> bridge_Exists c (hm_Recipient msg) \<and>
    length mb = HexAddressLen \<and> length (hm_Sender msg) = HexAddressLen \<and>
    (if hm_Recipient msg = AssetAppId (GetReceiptState c)
     then BridgeEnabled (br_GetParams c) \<and> hm_Sender msg = RemoteBridgeVault (br_GetParams c) \<and>
       (\<exists>n > 0. GetReceiptState c' = (GetReceiptState c)\<lparr>TotalBridgedIn := TotalBridgedIn (GetReceiptState c) + n\<rparr>)
     else br_Enabled (br_GetParams c) \<and> hm_Sender msg = TierReleaseVault (br_GetParams c) \<and>
       (\<exists>tb tp. ParseReceipt (hm_Body msg) = Inr (tb, tp) \<and> AppliedToBridge (GetReceiptState c) \<le> tb \<and> AppliedToProject (GetReceiptState c) \<le> tp \<and>
          GetReceiptState c' = (GetReceiptState c)\<lparr>AppliedToBridge := tb, AppliedToProject := tp, LastMessageId := message_id Core msg\<rparr>))"
  using assms(2)
proof (cases rule: handle_InrE)
  case asset
  show ?thesis using asset(5)
  proof (rule asset_in_InrE)
    assume "BridgeEnabled (br_GetParams c)" "hm_Origin msg = EthereumDomain (br_GetParams c)"
      "length (RemoteBridgeVault (br_GetParams c)) = HexAddressLen" "RemoteBridgeVault (br_GetParams c) = hm_Sender msg"
    then show ?thesis using asset asset_in_bridge [OF assms(1) asset(5)] by (auto simp: bridge_Exists_def Let_def)
  qed
next
  case receipt
  obtain tb tp where "ParseReceipt (hm_Body msg) = Inr (tb, tp)" "AppliedToBridge (GetReceiptState c) \<le> tb" "AppliedToProject (GetReceiptState c) \<le> tp"
    "st_bridge c' = (st_bridge c)\<lparr>b_receipt := Some (receipt_after Core msg tb tp (GetReceiptState c))\<rparr>"
    "br_Enabled (br_GetParams c)" "hm_Origin msg = EthereumDomain (br_GetParams c)" "VaultMatches (br_GetParams c) (hm_Sender msg)"
    by (rule receipt_bridge [OF assms(1) receipt(6)])
  moreover from this have "GetReceiptState c' = receipt_after Core msg tb tp (GetReceiptState c)" by (simp add: GetReceiptState_def)
  ultimately show ?thesis using receipt by (auto simp: bridge_Exists_def Let_def VaultMatches_def receipt_after_def split: if_splits)
qed

text \<open>C16: Receipts are idempotent: handling a processed receipt again succeeds and changes nothing, so a relayer that
  delivers it twice releases nothing twice.\<close>

theorem receipt_replay:
  assumes "sdk_laws K" "bridge_Handle K (app_hook K) Core c mb msg = Inr c'" "hm_Recipient msg \<noteq> AssetAppId (GetReceiptState c)"
  shows "bridge_Handle K (app_hook K) Core c' mb msg = Inr c'"
  using assms(2)
proof (cases rule: handle_InrE)
  case receipt
  obtain tb tp where r: "ParseReceipt (hm_Body msg) = Inr (tb, tp)"
    "st_bridge c' = (st_bridge c)\<lparr>b_receipt := Some (receipt_after Core msg tb tp (GetReceiptState c))\<rparr>"
    "br_Enabled (br_GetParams c)" "hm_Origin msg = EthereumDomain (br_GetParams c)" "VaultMatches (br_GetParams c) (hm_Sender msg)"
    by (rule receipt_bridge [OF assms(1) receipt(6)])
  then have g: "GetReceiptState c' = receipt_after Core msg tb tp (GetReceiptState c)" "br_GetParams c' = br_GetParams c"
    by (simp_all add: GetReceiptState_def br_GetParams_def)
  have "SetReceiptState (GetReceiptState c') c' = c'" by (simp add: g(1) bridge_writes r(2))
  then have "applyReceipt K (app_hook K) Core c' msg = Inr c'"
    using r(1,3-5) g by (simp add: applyReceipt_def Let_def receipt_after_def)
  then show ?thesis using receipt(1-5) g by (simp add: bridge_Handle_def receipt_after_def)
qed (use assms(3) in simp)

lemma guardian_loop: "is_guardian_loop a gs \<longleftrightarrow> a \<in> set gs"
  by (induction a gs rule: is_guardian_loop.induct) auto

text \<open>C17: Only a guardian can halt the adapter, and halting changes nothing but the two switches.  Afterwards no transfer leaves or
  enters, no receipt is applied and no tier release is dispatched, whatever the message; halting again changes nothing, and the
  parameters only change through the governance authority.\<close>

theorem halt_stops:
  assumes "EmergencyHalt c g = Inr c'"
  shows "g \<in> set (Guardians (br_GetParams c)) \<and>
    c' = c\<lparr>st_bridge := (st_bridge c)\<lparr>b_params := b_params (st_bridge c')\<rparr>\<rparr> \<and>
    br_GetParams c' = (br_GetParams c)\<lparr>br_Enabled := False, BridgeEnabled := False\<rparr> \<and>
    isl (BridgeOut K H Core c' out) \<and> isl (bridge_Handle K H Core c' mb msg) \<and>
    (\<exists>e. DispatchTierRelease Core c' m p = (Inl e, c')) \<and> EmergencyHalt c' g = Inr c' \<and>
    (a \<noteq> authority \<longrightarrow> isl (br_UpdateParams K authority c' a params))"
proof -
  have g: "IsGuardian (br_GetParams c) g" and c': "c' = setParamsUnchecked ((br_GetParams c)\<lparr>br_Enabled := False, BridgeEnabled := False\<rparr>) c"
    using assms by (auto simp: EmergencyHalt_def Let_def split: if_splits)
  then have p: "br_GetParams c' = (br_GetParams c)\<lparr>br_Enabled := False, BridgeEnabled := False\<rparr>"
    by (simp add: setParamsUnchecked_def upd_bridge_def br_GetParams_def)
  have "g \<in> set (Guardians (br_GetParams c))" using g by (auto simp: IsGuardian_def guardian_loop split: if_splits)
  moreover have "IsGuardian (br_GetParams c') g" using g by (auto simp: p IsGuardian_def split: if_splits)
  then have "EmergencyHalt c' g = Inr c'"
    by (simp add: EmergencyHalt_def p) (simp add: c' setParamsUnchecked_def upd_bridge_def)
  moreover have "isl (BridgeOut K H Core c' out)"
    by (simp add: BridgeOut_def ExecuteBridgeOut_def p Let_def split: option.split)
  moreover have "isl (bridge_Handle K H Core c' mb msg)"
    by (simp add: bridge_Handle_def handleAssetTransfer_def applyReceipt_def p Let_def)
  moreover have "\<exists>e. DispatchTierRelease Core c' m p' = (Inl e, c')" for p' by (simp add: DispatchTierRelease_def p Let_def)
  moreover have "isl (br_UpdateParams K authority c' a params)" if "a \<noteq> authority" using that by (auto simp: br_UpdateParams_def)
  moreover have "c' = c\<lparr>st_bridge := (st_bridge c)\<lparr>b_params := b_params (st_bridge c')\<rparr>\<rparr>"
    by (simp add: c' setParamsUnchecked_def upd_bridge_def)
  ultimately show ?thesis using p by blast
qed

text \<open>C8: An asset message pays the 20-byte account named in its payload exactly the ERC-20 amount times the peg out of
  the migration pool, which has to hold it, and touches no other balance of ATOS; the day's inbound usage and that of the account
  grow by the amount.  Unless limits are switched off each of the four inbound limits that is set holds: the day's usage stays
  within the inbound cap, the account's usage within the cap of one recipient, the amount within the largest transfer, and in
  crisis mode only small transfers are paid.\<close>

theorem bridge_in_pays:
  fixes K :: "'x sdk" and c :: "'x ctx"
  defines "L \<equiv> Limits K c" and "rl \<equiv> GetRateLimitState c"
  assumes laws: "sdk_laws K" and b: "bridge_Handle K (app_hook K) Core c mb msg = Inr c'"
    and own: "hm_Recipient msg = AssetAppId (GetReceiptState c)"
  shows "\<exists>r e a n. ParseAssetPayload (hm_Body msg) = Inr (r, e) \<and> CosmosAddressFromHyperlane r = Inr a \<and>
    n = e * uint (AtosPerErc20 (br_GetParams c)) \<and> 0 < n \<and> n \<le> MigrationPoolBalance K c \<and>
    (\<forall>x. balance K c' x (base_denom K) = balance K c x (base_denom K)
       - (if x = module_address K MigrationPoolName then n else 0) + (if x = a then n else 0)) \<and>
    rl_UsedInbound (GetRateLimitState c') = rl_UsedInbound rl + n \<and>
    GetInboundAddressUsage c' (acc_string (codec K) a) = GetInboundAddressUsage c (acc_string (codec K) a) + n \<and>
    (\<not> l_Disabled L \<longrightarrow> (0 < l_Inbound L \<longrightarrow> rl_UsedInbound rl + n \<le> l_Inbound L) \<and>
       (0 < l_InboundPerAddress L \<longrightarrow> GetInboundAddressUsage c (acc_string (codec K) a) + n \<le> l_InboundPerAddress L) \<and>
       (0 < l_MaxTransferIn L \<longrightarrow> n \<le> l_MaxTransferIn L) \<and> (l_CrisisMode L \<longrightarrow> IsSmallInbound L n))"
  using b
proof (cases rule: handle_InrE)
  case asset
  show ?thesis using asset(5)
  proof (rule asset_in_InrE)
    fix r e a n c1
    assume o: "ParseAssetPayload (hm_Body msg) = Inr (r, e)" "CosmosAddressFromHyperlane r = Inr a"
      "n = e * uint (AtosPerErc20 (br_GetParams c))" "0 < n" "n \<le> MigrationPoolBalance K c"
      and chk: "CheckInbound (Limits K c) n (rl_UsedInbound (GetRateLimitState c)) (GetInboundAddressUsage c (acc_string (codec K) a)) = Inr ()"
      and s: "send_from_module K (app_hook K) c MigrationPoolName a [(base_denom K, n)] = Inr c1"
      and c': "c' = setRateLimitState ((GetRateLimitState c1)\<lparr>rl_UsedInbound := rl_UsedInbound (GetRateLimitState c1) + n\<rparr>)
       (setInboundAddressUsage (acc_string (codec K) a) (GetInboundAddressUsage c (acc_string (codec K) a) + n)
       (SetReceiptState ((GetReceiptState c1)\<lparr>TotalBridgedIn := TotalBridgedIn (GetReceiptState c1) + n\<rparr>) c1))"
    note send = send_from_module_InrD [OF sdk_lawsD(1) [OF laws] s]
    have c1: "st_bridge c1 = st_bridge c" "block_time c1 = block_time c"
      using plain_send(3,5) [OF laws send] sdk_lawsD(7) [OF laws] by simp_all
    then have "GetRateLimitState c1 = rl" by (simp add: GetRateLimitState_def rl_def)
    then have "rl_UsedInbound (GetRateLimitState c') = rl_UsedInbound rl + n"
      "GetInboundAddressUsage c' (acc_string (codec K) a) = GetInboundAddressUsage c (acc_string (codec K) a) + n"
      using rate_day [of c] by (simp_all add: c' bridge_reads c1(2) rl_def)
    moreover have "balance K c' x (base_denom K) = balance K c x (base_denom K)
       - (if x = module_address K MigrationPoolName then n else 0) + (if x = a then n else 0)" for x
      using base_send(5) [OF laws send, of x] by (simp add: c' bridge_writes)
    moreover have "(0 < l_Inbound L \<longrightarrow> rl_UsedInbound rl + n \<le> l_Inbound L) \<and>
       (0 < l_InboundPerAddress L \<longrightarrow> GetInboundAddressUsage c (acc_string (codec K) a) + n \<le> l_InboundPerAddress L) \<and>
       (0 < l_MaxTransferIn L \<longrightarrow> n \<le> l_MaxTransferIn L) \<and> (l_CrisisMode L \<longrightarrow> IsSmallInbound L n)" if "\<not> l_Disabled L"
      using chk that unfolding L_def rl_def by (auto simp: CheckInbound_def limit_set_def split: if_splits)
    ultimately show ?thesis using o by blast
  qed
qed (use own in simp)

section \<open>A chain with the bridge open\<close>

definition crossing :: "ledger ctx" where
  "crossing = setParamsUnchecked ((br_GetParams demo)\<lparr>BridgeEnabled := True, RemoteBridgeVault := replicate 32 CHR ''r'',
     AtosPerErc20 := 4, GlobalDailyCap := 100, GlobalDailyCapBpsOfPool := 0, InboundDailyCap := 60, InboundDailyCapBpsOfPool := 0,
     PerAddressDailyBps := 1000, MinTransferOut := 2, SmallTransferThreshold := 3, InboundSmallThreshold := 20, InboundPerAddressDailyBps := 5000,
     Guardians := [''atos1guard'']\<rparr>) demo"

lemma crossing_safe: "atox_safe ledger_sdk crossing"
proof -
  have "book_of ledger_sdk crossing = book_of ledger_sdk demo" "atox_records crossing = atox_records demo"
    by (rule same_book; simp add: crossing_def setParamsUnchecked_def upd_bridge_def)+
  then show ?thesis using demo_atox_safe
    by (simp add: atox_safe_def, simp add: crossing_def setParamsUnchecked_def upd_bridge_def AtoxSupplyCap_def atox_GetParams_def)
qed

definition leaving :: "(string \<times> int \<times> ledger ctx) result" where
  "leaving = ExecuteBridgeOut ledger_sdk (app_hook ledger_sdk) demo_core crossing ''alice'' (replicate 32 CHR ''e'') 8 []"

lemma leaving_ok: "map_sum id (\<lambda>(i, e, c). (e, rl_UsedLarge (GetRateLimitState c), pool_of ledger_sdk c MigrationPoolName)) leaving
    = Inr (2, 8, 2008)"
  by code_simp

definition arrival :: hyperlane_message where
  "arrival = \<lparr> hm_Version = 3, hm_Nonce = 1, hm_Origin = 1, hm_Sender = replicate 32 CHR ''r'', hm_Destination = 2,
     hm_Recipient = replicate 32 CHR ''q'',
     hm_Body = (case BuildAssetPayload (zero_bytes 12 @ replicate 20 CHR ''d'') 3 of Inr b \<Rightarrow> b | Inl _ \<Rightarrow> []) \<rparr>"

definition arriving :: "ledger ctx result" where
  "arriving = bridge_Handle ledger_sdk (app_hook ledger_sdk) demo_core crossing (replicate 32 CHR ''b'') arrival"

lemma arriving_ok: "map_sum id (\<lambda>c. (rl_UsedInbound (GetRateLimitState c), pool_of ledger_sdk c MigrationPoolName)) arriving = Inr (12, 1988)"
  by code_simp

section \<open>Witnesses\<close>

lemma crossing_limits:
  "\<not> l_Disabled (Limits ledger_sdk crossing)" "l_Global (Limits ledger_sdk crossing) = 100"
  "l_LargeBudget (Limits ledger_sdk crossing) = 80" "l_PerAddress (Limits ledger_sdk crossing) = 10"
  "l_Inbound (Limits ledger_sdk crossing) = 60" "l_InboundPerAddress (Limits ledger_sdk crossing) = 30" "rl_Used (GetRateLimitState crossing) = 0" "rl_UsedInbound (GetRateLimitState crossing) = 0"
  "AtosPerErc20 (br_GetParams crossing) = 4" "AssetAppId (GetReceiptState crossing) = replicate 32 CHR ''q''"
  by code_simp+

lemma leavingE:
  obtains i c where "leaving = Inr (i, 2, c)" "rl_UsedLarge (GetRateLimitState c) = 8"
proof (cases leaving)
  case (Inl e)
  then show ?thesis using leaving_ok unfolding Inl by simp
next
  case (Inr r)
  then show ?thesis using leaving_ok that unfolding Inr by (cases r) auto
qed

lemma arrivingE:
  obtains c where "arriving = Inr c" "rl_UsedInbound (GetRateLimitState c) = 12"
proof (cases arriving)
  case (Inl e)
  then show ?thesis using arriving_ok unfolding Inl by simp
next
  case (Inr r)
  then show ?thesis using arriving_ok that unfolding Inr by simp
qed

theorem bridge_out_locks_witness:
  "\<exists>i c. leaving = Inr (i, 2, c) \<and> MigrationPoolBalance ledger_sdk crossing + 8 \<le> MigrationPoolBalance ledger_sdk c \<and>
     rl_Used (GetRateLimitState c) = 8 \<and> rl_Used (GetRateLimitState c) \<le> l_Global (Limits ledger_sdk crossing)"
proof -
  obtain i c where l: "leaving = Inr (i, 2, c)" by (rule leavingE)
  have "outsider ledger_sdk ''alice''" "''alice'' \<noteq> module_address ledger_sdk MigrationPoolName"
    by (simp_all add: outsider_def ledger_sdk_def ExchangePoolAddress_def)
  from bridge_out_locks [OF ledger_laws demo_core_law crossing_safe this l [unfolded leaving_def]]
  show ?thesis using l by (intro exI [of _ i] exI [of _ c]) (simp add: crossing_limits)
qed

theorem bridge_in_pays_witness:
  "\<exists>c r a. arriving = Inr c \<and> ParseAssetPayload (hm_Body arrival) = Inr (r, 3) \<and> CosmosAddressFromHyperlane r = Inr a \<and>
     a = replicate 20 CHR ''d'' \<and> balance ledger_sdk c a ''liao'' = balance ledger_sdk crossing a ''liao'' + 12 \<and>
     GetInboundAddressUsage crossing (acc_string (codec ledger_sdk) a) + 12 \<le> l_InboundPerAddress (Limits ledger_sdk crossing)"
proof -
  obtain c where l: "arriving = Inr c" by (rule arrivingE)
  have b: "map_sum id (\<lambda>(r, e). (e, CosmosAddressFromHyperlane r)) (ParseAssetPayload (hm_Body arrival)) = Inr (3, Inr (replicate 20 CHR ''d''))"
    by code_simp
  have d: "base_denom ledger_sdk = ''liao''" "replicate 20 CHR ''d'' \<noteq> module_address ledger_sdk MigrationPoolName"
    by (simp add: ledger_sdk_def) (simp add: ledger_sdk_def numeral_eq_Suc)
  have own: "hm_Recipient arrival = AssetAppId (GetReceiptState crossing)" by (simp add: crossing_limits) (simp add: arrival_def)
  from bridge_in_pays [OF ledger_laws l [unfolded arriving_def] own] obtain r e a n where o: "ParseAssetPayload (hm_Body arrival) = Inr (r, e)"
    "CosmosAddressFromHyperlane r = Inr a" "n = e * uint (AtosPerErc20 (br_GetParams crossing))"
    "\<forall>x. balance ledger_sdk c x (base_denom ledger_sdk) = balance ledger_sdk crossing x (base_denom ledger_sdk)
       - (if x = module_address ledger_sdk MigrationPoolName then n else 0) + (if x = a then n else 0)"
    "\<not> l_Disabled (Limits ledger_sdk crossing) \<longrightarrow> 0 < l_InboundPerAddress (Limits ledger_sdk crossing) \<longrightarrow>
       GetInboundAddressUsage crossing (acc_string (codec ledger_sdk) a) + n \<le> l_InboundPerAddress (Limits ledger_sdk crossing)"
    by blast
  have "e = 3" "a = replicate 20 CHR ''d''" using b o(1,2) by simp_all
  then show ?thesis using l o d by (auto simp: crossing_limits)
qed

theorem handle_provenance_witness:
  "\<exists>c n. arriving = Inr c \<and> 0 < n \<and> TotalBridgedIn (GetReceiptState c) = TotalBridgedIn (GetReceiptState crossing) + n \<and>
     hm_Sender arrival = RemoteBridgeVault (br_GetParams crossing)"
proof -
  obtain c where l: "arriving = Inr c" by (rule arrivingE)
  have own: "hm_Recipient arrival = AssetAppId (GetReceiptState crossing)" by (simp add: crossing_limits) (simp add: arrival_def)
  from handle_provenance [OF ledger_laws l [unfolded arriving_def]] show ?thesis using l own by (auto simp: if_P)
qed

definition confirmation :: hyperlane_message where
  "confirmation = receipt\<lparr>hm_Body := (case BuildReceipt 510 100 of Inr b \<Rightarrow> b | Inl _ \<Rightarrow> [])\<rparr>"

lemma confirming: "map_sum id (\<lambda>c. AppliedToBridge (GetReceiptState c))
    (bridge_Handle ledger_sdk (app_hook ledger_sdk) demo_core demo (replicate 32 CHR ''b'') confirmation) = Inr 510"
  by code_simp

theorem receipt_replay_witness:
  "\<exists>c. bridge_Handle ledger_sdk (app_hook ledger_sdk) demo_core demo (replicate 32 CHR ''b'') confirmation = Inr c \<and>
     bridge_Handle ledger_sdk (app_hook ledger_sdk) demo_core c (replicate 32 CHR ''b'') confirmation = Inr c \<and>
     AppliedToBridge (GetReceiptState c) = 510"
proof (cases "bridge_Handle ledger_sdk (app_hook ledger_sdk) demo_core demo (replicate 32 CHR ''b'') confirmation")
  case (Inl e)
  then show ?thesis using confirming unfolding Inl by simp
next
  case (Inr c)
  have "hm_Recipient confirmation \<noteq> AssetAppId (GetReceiptState demo)" by code_simp
  from receipt_replay [OF ledger_laws Inr this] show ?thesis using Inr confirming unfolding Inr by simp
qed

theorem halt_stops_witness:
  "\<exists>c. EmergencyHalt crossing ''atos1guard'' = Inr c \<and>
     isl (bridge_Handle ledger_sdk (app_hook ledger_sdk) demo_core c (replicate 32 CHR ''b'') arrival) \<and>
     \<not> isl arriving \<and> isl (br_UpdateParams ledger_sdk ''gov'' c ''mallory'' (br_GetParams crossing))"
proof -
  have "\<not> isl (EmergencyHalt crossing ''atos1guard'')" by code_simp
  then obtain c where h: "EmergencyHalt crossing ''atos1guard'' = Inr c" by (cases "EmergencyHalt crossing ''atos1guard''") simp_all
  have "\<not> isl arriving" by (rule arrivingE) (metis sum.disc(2))
  then show ?thesis
    using h halt_stops [OF h, where K = ledger_sdk and H = "app_hook ledger_sdk" and Core = demo_core and mb = "replicate 32 CHR ''b''" and
      msg = arrival and authority = "''gov''" and a = "''mallory''" and params = "br_GetParams crossing"] by simp
qed

end
