(* ===== verification/Spec2Isabelle.thy ===== *)
theory Spec2Isabelle
  imports OracleSpec EnergySpec AtoxSweep AnteSpec MigrationSpec TokenomicsSpec BridgeSpec
begin

text \<open>
  A verification development of the Atoshi chain, a Cosmos SDK application with five modules of its own:
  a price oracle, energy that pays for transactions, the ATOX token with its conversion into ATOS, the
  tokenomics of the pools, and the adapter of the Ethereum bridge.

  \<^bold>\<open>The program and how its parts interact.\<close>  Feeders report prices to \<^verbatim>\<open>x/oracle\<close>.  \<^verbatim>\<open>x/tokenomics\<close> issues the
  block reward in ATOX, samples the oracle at the end of a block and, after a streak of qualifying days,
  authorises a tier release, which \<^verbatim>\<open>x/bridgeadapter\<close> announces to Ethereum; the receipt that comes back moves
  ATOS into the exchange pool of \<^verbatim>\<open>x/atox\<close>, whose holders claim it through an index.  The adapter also bridges
  ATOS in and out of the migration pool.  Every bank transfer runs the send restrictions of \<^verbatim>\<open>x/energy\<close>, which
  keeps the snapshot that energy accrues on, and of \<^verbatim>\<open>x/atox\<close>, which settles both parties; a transaction
  passes the ante handler of \<^verbatim>\<open>app/ante\<close>, where \<^verbatim>\<open>x/energy/ante\<close> takes energy before it takes a fee.

  \<^bold>\<open>Vocabulary.\<close>  \<open>Prelude\<close>: Go results and errors (\<open>'a result\<close>, a panic is an error), \<^verbatim>\<open>uint64\<close> and \<^verbatim>\<open>uint32\<close> as words,
  \<^verbatim>\<open>int64\<close> as \<open>int\<close> with \<open>wrap64\<close>, \<^verbatim>\<open>math.Int\<close> as \<open>int\<close>, \<^verbatim>\<open>LegacyDec\<close> as an \<open>int\<close> scaled by \<open>10 ^ 18\<close>.  \<open>KVStore\<close>: a store
  as a list sorted by key, with the locale \<open>ordered_store\<close>.  \<open>Chain\<close>: the context \<open>ctx\<close> with the store of every
  module, and the SDK as the parameter \<open>K\<close>, whose documented behaviour is \<open>sdk_laws\<close>; \<open>ledger_sdk\<close> is an
  executable instance that satisfies them.

  \<^bold>\<open>Components.\<close>  Each has its types in \<open>*Types\<close>, its keeper in the theory of its name, one definition per function.
  \<^item> \<open>Oracle\<close>: \<^verbatim>\<open>x/oracle\<close>; state \<open>oracle_store\<close>; reports, history, median, average, messages, queries, genesis.
  \<^item> \<open>EnergyTypes\<close>, \<open>Energy\<close>, \<open>EnergyModule\<close>, \<open>EnergyAnte\<close>: \<^verbatim>\<open>x/energy\<close>; state \<open>energy_store\<close>; \<open>Settle\<close>, \<open>Consume\<close>,
    \<open>RefundEnergy\<close>, delegations, the sweep, the send restriction, hooks, decorators, messages, genesis, migration.
  \<^item> \<open>AtoxTypes\<close>, \<open>Atox\<close>, \<open>AtoxWrapper\<close>: \<^verbatim>\<open>x/atox\<close> and its bank wrapper; state \<open>atox_store\<close>; settlement, payout,
    releases, issuance, burns, the sweep, the inclusive fee, and \<open>app_hook\<close>, the two restrictions as registered.
  \<^item> \<open>TokenomicsTypes\<close>, \<open>Tokenomics\<close>: \<^verbatim>\<open>x/tokenomics\<close>; state \<open>tokenomics_store\<close>; rewards, sampling, releases, migration
    claims, refills, genesis.
  \<^item> \<open>BridgeTypes\<close>, \<open>Bridge\<close>: \<^verbatim>\<open>x/bridgeadapter\<close>; state \<open>bridge_store\<close>; payloads, limits, \<open>ExecuteBridgeOut\<close>,
    \<open>bridge_Handle\<close>, \<open>DispatchTierRelease\<close>, halt, parameters, genesis.  The Hyperlane core is the parameter \<open>Core\<close>.
  \<^item> \<open>AppAnte\<close>: \<^verbatim>\<open>app/ante/cosmos.go\<close> and the decorators of \<^verbatim>\<open>app/ante/cosmos\<close> that walk the messages.

  \<^bold>\<open>What the lemmas show.\<close>
  \<^item> \<open>OracleSpec\<close>: one vote per feeder, the quorum over distinct feeders and the ballot of their newest reports, the deviation cap on reachable histories (\<open>oracle_reach\<close>), averages in range.
  \<^item> \<open>EnergySettle\<close>, \<open>EnergyBooks\<close>, \<open>EnergyInv\<close>, \<open>EnergySafe\<close>: capacity and accrual, the sums over the delegation records,
    and the invariant \<open>energy_inv\<close> under every operation; the locale \<open>energy_hook\<close> is what the module needs of the
    registered restriction, interpreted on its own one and on \<open>app_hook\<close>.  \<open>EnergySpec\<close>: the properties.
  \<^item> \<open>AtoxBook\<close>: the abstract book of the conversion with \<open>book_sound\<close> and its solvency.  \<open>AtoxRefine\<close>, \<open>AtoxSafe\<close>: the
    keeper refines the book (\<open>settle_refines\<close>, \<open>send_refines\<close>, \<open>release_refines\<close>).  \<open>AtoxSpec\<close>: the properties; \<open>AtoxSweep\<close>: a whole pass of
    the sweep at the end of the blocks.
  \<^item> \<open>MigrationSpec\<close>, \<open>TokenomicsSpec\<close>, \<open>BridgeSpec\<close>, \<open>AnteSpec\<close>: the properties of these components.
  \<^item> \<open>ChainBooks\<close>, \<open>ChainOps\<close>, \<open>ChainReach\<close>: \<open>chain_reach\<close>, the reachable states of all modules with their messages,
    block hooks, decorators and the environment interleaved, and the invariant \<open>chain_reach_safe\<close>.  \<open>ChainDemo\<close>: a
    run on \<open>ledger_sdk\<close> for the witnesses.  This theory has the properties that span the modules.

  \<^bold>\<open>Bounds.\<close>  No definition uses fuel: every loop is a total function with its termination proof.  The recursion
  between the bank and the restriction of \<^verbatim>\<open>x/atox\<close> is cut after two levels, because a send inside a
  settlement carries a guard; \<open>app_hook_unfold\<close> proves that the two levels are its solution.  Where \<^verbatim>\<open>uint64\<close>
  arithmetic can wrap or saturate, the definitions do, and the properties say where they need it not to.

  \<^bold>\<open>Not modelled.\<close>  Events, logs, gas metering and telemetry, and the protobuf codec (values are stored at their
  type).  The EVM (\<^verbatim>\<open>x/evm\<close>, \<^verbatim>\<open>precompiles\<close>, \<^verbatim>\<open>app/ante/evm\<close>), because its interpreter is not part of the sources;
  the precompiles of the modules above only decode arguments for keeper functions that are modelled.  The
  modules inherited from the base chain (\<^verbatim>\<open>x/feemarket\<close>, \<^verbatim>\<open>x/inflation\<close>, \<^verbatim>\<open>x/epochs\<close>, \<^verbatim>\<open>x/erc20\<close>, \<^verbatim>\<open>x/vesting\<close>, \<^verbatim>\<open>x/staking\<close>,
  \<^verbatim>\<open>x/ibc\<close>), of which the modelled code only reads staking totals and channels.  Signature and gas price
  decorators, generated code (\<^verbatim>\<open>api\<close>), and the node around the application (\<^verbatim>\<open>rpc\<close>, \<^verbatim>\<open>server\<close>, \<^verbatim>\<open>client\<close>, \<^verbatim>\<open>cmd\<close>, \<^verbatim>\<open>indexer\<close>,
  \<^verbatim>\<open>crypto\<close>).  \<^verbatim>\<open>FeeInclusiveBank\<close> of the wrapper, which the application does not install.
\<close>

section \<open>The conversion pool\<close>

text \<open>
  C1: solvency.  In every reachable state of the chain the exchange pool holds the ATOS of all claims that
  were booked, the claims of any accounts together are covered by the booked total, no more was booked
  and paid than was released into the pool, and the ATOX that was ever issued stays within the supply
  cap.
\<close>

theorem chain_pool_solvent:
  assumes "sdk_laws K" "grant_law K E" "core_law K Core" "chain_reach K E Core c R" "finite A"
  shows "TotalPending (GetGlobalState c) \<le> ExchangePoolBalance K c \<and>
    (\<Sum>a\<in>A. Pending (GetAtoxAccount K c a)) \<le> TotalPending (GetGlobalState c) \<and>
    TotalPending (GetGlobalState c) + TotalPaidOut (GetGlobalState c) \<le> TotalReleasedToPool (GetGlobalState c) \<and>
    MintedAgainstCap K c \<le> AtoxSupplyCap c"
proof (intro conjI)
  have b: "book_sound (AtoxSupplyCap c) (book_of K c)"
    using chain_safeD(1) [OF chain_reach_safe [OF assms(1-4)]] by (simp add: atox_safe_def)
  note s = book_solvent [OF b]
  show "TotalPending (GetGlobalState c) \<le> ExchangePoolBalance K c"
    "TotalPending (GetGlobalState c) + TotalPaidOut (GetGlobalState c) \<le> TotalReleasedToPool (GetGlobalState c)"
    "MintedAgainstCap K c \<le> AtoxSupplyCap c"
    using s(1,2,4) by (simp_all add: MintedAgainstCap_def)
  have "sum (bk_pending (book_of K c)) A \<le> TotalPending (GetGlobalState c)"
    using book_soundD(2) [OF b] assms(5) unfolding accounts_sound_def book_of_simps(1) by blast
  then show "(\<Sum>a\<in>A. Pending (GetAtoxAccount K c a)) \<le> TotalPending (GetGlobalState c)" by simp
qed

theorem chain_pool_solvent_witness:
  "chain_reach ledger_sdk demo_env demo_core demo {} \<and> 0 < ExchangePoolBalance ledger_sdk demo \<and>
   TotalPending (GetGlobalState demo) \<le> ExchangePoolBalance ledger_sdk demo \<and>
   MintedAgainstCap ledger_sdk demo \<le> AtoxSupplyCap demo"
proof -
  have "0 < ExchangePoolBalance ledger_sdk demo" by code_simp
  then show ?thesis
    using demo_reach chain_pool_solvent [OF ledger_laws demo_env_law demo_core_law demo_reach, of "{}"] by simp
qed

text \<open>
  C2: a claim is paid.  In every reachable state, an account whose settlement succeeds and that then has a
  claim of at least the minimum is paid exactly that claim out of the pool; the branches that report an
  insolvent pool are never taken.
\<close>

theorem chain_payout_pays:
  assumes "sdk_laws K" "grant_law K E" "core_law K Core" "chain_reach K E Core c R"
    and "SettleAccount K (app_hook K) c a = (Inr v, c1)" "module_registered K ExchangePoolName" "\<not> blocked_addr K a"
    and "0 < Pending (GetAtoxAccount K c1 a)" "minPayout \<le> Pending (GetAtoxAccount K c1 a)"
  shows "\<exists>c'. PayoutPending K (app_hook K) c a minPayout = (Inr (Pending (GetAtoxAccount K c1 a)), c') \<and>
    Pending (GetAtoxAccount K c' a) = 0 \<and>
    TotalPaidOut (GetGlobalState c') = TotalPaidOut (GetGlobalState c) + Pending (GetAtoxAccount K c1 a) \<and>
    (a \<noteq> ExchangePoolAddress K \<longrightarrow>
       balance K c' a (base_denom K) = balance K c a (base_denom K) + Pending (GetAtoxAccount K c1 a) \<and>
       ExchangePoolBalance K c' = ExchangePoolBalance K c - Pending (GetAtoxAccount K c1 a))"
proof -
  let ?n = "Pending (GetAtoxAccount K c1 a)"
  have safe: "atox_safe K c" using chain_safeD(1) [OF chain_reach_safe [OF assms(1-4)]] .
  note d = atox_safeD [OF safe] and ne = sdk_lawsD(7) [OF assms(1)]
  have st: "SettleAccountWithBalance K (app_hook K) c a (AtoxBalance K c a) = (Inr v, c1)"
    using assms(5) by (simp add: SettleAccount_def)
  note ref = settle_refines [OF assms(1) d(2) d(5) d(6) st]
  have po: "TotalPaidOut (GetGlobalState c1) = TotalPaidOut (GetGlobalState c)"
    using arg_cong [OF ref(1), of "\<lambda>b. TotalPaidOut (bk_state b)"] by (simp add: settle_spec_def Let_def)
  have bal: "balance K c1 x (base_denom K) = balance K c x (base_denom K)" for x
    using touch_simps(10) [OF ref(2) ne] .
  obtain r c' where p: "PayoutPending K (app_hook K) c a minPayout = (r, c')" by (cases "PayoutPending K (app_hook K) c a minPayout")
  from payout_cases [OF assms(1) safe p] have "r = Inr ?n \<and> paid_book K a c1 c'"
    by cases (use assms(5-9) in auto)
  then have r: "r = Inr ?n" and b: "paid_book K a c1 c'" by simp_all
  have bk: "book_of K c' = (pay_spec a (book_of K c1))\<lparr>bk_pool := ExchangePoolBalance K c'\<rparr>"
    using b by (simp add: paid_book_def)
  have "Pending (GetAtoxAccount K c' a) = 0" "TotalPaidOut (GetGlobalState c') = TotalPaidOut (GetGlobalState c1) + ?n"
    using arg_cong [OF bk, of "\<lambda>b. bk_pending b a"] arg_cong [OF bk, of "\<lambda>b. TotalPaidOut (bk_state b)"]
    by (simp_all add: pay_spec_def)
  moreover have "balance K c' x (base_denom K) = balance K c1 x (base_denom K) -
      (if x = ExchangePoolAddress K then ?n else 0) + (if x = a then ?n else 0)" for x
    using b ne by (simp add: paid_book_def)
  ultimately show ?thesis using p r po bal by (auto simp: ExchangePoolBalance_def)
qed

theorem chain_payout_pays_witness:
  "\<exists>c'. PayoutPending ledger_sdk (app_hook ledger_sdk) demo ''bob'' 0 = (Inr 250, c') \<and>
     ExchangePoolBalance ledger_sdk c' = ExchangePoolBalance ledger_sdk demo - 250"
proof -
  obtain v c1 where s: "SettleAccount ledger_sdk (app_hook ledger_sdk) demo ''bob'' = (v, c1)" by fastforce
  have "case SettleAccount ledger_sdk (app_hook ledger_sdk) demo ''bob'' of
      (v, c1) \<Rightarrow> v = Inr 250 \<and> Pending (GetAtoxAccount ledger_sdk c1 ''bob'') = 250"
    by code_simp
  then have v: "v = Inr 250" "Pending (GetAtoxAccount ledger_sdk c1 ''bob'') = 250" using s by simp_all
  have "module_registered ledger_sdk ExchangePoolName" "\<not> blocked_addr ledger_sdk ''bob''"
    "''bob'' \<noteq> ExchangePoolAddress ledger_sdk"
    by (simp_all add: ledger_sdk_def ExchangePoolAddress_def)
  then show ?thesis
    using chain_payout_pays [OF ledger_laws demo_env_law demo_core_law demo_reach s [unfolded v(1)], of 0] v(2) by auto
qed

text \<open>
  C3: the release accounting across modules.  In every reachable state the conversion pool has received
  exactly the peg times what the bridge has confirmed, the confirmed amounts stay within what the
  tokenomics module authorised, and what the project may still move is part of what was confirmed.
\<close>

theorem chain_release_accounts:
  assumes "sdk_laws K" "grant_law K E" "core_law K Core" "chain_reach K E Core c R"
  shows "TotalReleasedToPool (GetGlobalState c) = AppliedToBridge (GetReceiptState c) * i64_of_u64 (AtosPerErc20 (br_GetParams c)) \<and>
    TotalReleasedToPool (GetGlobalState c) \<le> fst (AuthorizedReleases c) \<and>
    AppliedToProject (GetReceiptState c) * i64_of_u64 (AtosPerErc20 (br_GetParams c)) \<le> snd (AuthorizedReleases c) \<and>
    0 \<le> GetProjectClaimable c \<and>
    GetProjectClaimable c \<le> AppliedToProject (GetReceiptState c) * i64_of_u64 (AtosPerErc20 (br_GetParams c))"
  using chain_safeD(3) [OF chain_reach_safe [OF assms]]
  by (simp add: link_ok_def peg_def AuthorizedReleases_def Let_def)

theorem chain_release_accounts_witness:
  "TotalReleasedToPool (GetGlobalState demo) = 500 \<and> AppliedToBridge (GetReceiptState demo) = 500 \<and>
   TotalReleasedToPool (GetGlobalState demo) \<le> fst (AuthorizedReleases demo) \<and> GetProjectClaimable demo = 100"
proof -
  have "TotalReleasedToPool (GetGlobalState demo) = 500" "AppliedToBridge (GetReceiptState demo) = 500"
    "GetProjectClaimable demo = 100" by code_simp+
  then show ?thesis using chain_release_accounts [OF ledger_laws demo_env_law demo_core_law demo_reach] by simp
qed

section \<open>Delegated energy\<close>

text \<open>
  C4: delegated energy is backed.  In every reachable state, what an account has lent out and what it
  may still use of the energy lent to it are covered by live delegation records, and so is the ATOS
  locked for it; the pool of locked ATOS holds the locks of all live records together, so every one of
  them can be returned.
\<close>

theorem chain_energy_backed:
  assumes "sdk_laws K" "grant_law K E" "core_law K Core" "chain_reach K E Core c R"
  shows "uint (DelegatedOut (GetEnergyAccount K c a)) \<le>
      (\<Sum>(_, d)\<leftarrow>e_delegations (st_energy c). if d_Delegator d = acc_string (codec K) a then uint (d_Amount d) else 0) \<and>
    uint (DelegatedInUsable (GetEnergyAccount K c a)) \<le>
      (\<Sum>(_, d)\<leftarrow>e_delegations (st_energy c). if d_Delegatee d = acc_string (codec K) a then uint (d_Amount d) - uint (d_Used d) else 0) \<and>
    0 \<le> LockedAtos (GetEnergyAccount K c a) \<and>
    LockedAtos (GetEnergyAccount K c a) \<le>
      (\<Sum>(_, d)\<leftarrow>e_delegations (st_energy c). if d_Delegator d = acc_string (codec K) a then d_LockedAtos d else 0) \<and>
    (\<Sum>(_, d)\<leftarrow>e_delegations (st_energy c). d_LockedAtos d) \<le>
      balance K c (module_address K LockedEnergyPoolName) (base_denom K)"
proof -
  have e: "energy_inv K c" using chain_safeD(2) [OF chain_reach_safe [OF assms]] by (rule energy_safeD)
  have b: "backed (st_energy c)" "lock_total (st_energy c) \<le> pool_balance K c" using e by (simp_all add: energy_inv_def)
  let ?k = "acc_string (codec K) a"
  have "uint (in_usable (st_energy c) ?k) \<le> in_sum (st_energy c) ?k" "uint (lent_out (st_energy c) ?k) \<le> out_sum (st_energy c) ?k"
    "0 \<le> locked_of (st_energy c) ?k \<and> locked_of (st_energy c) ?k \<le> lock_sum (st_energy c) ?k"
    using b(1) unfolding backed_def by blast+
  then show ?thesis
    using b(2) unfolding account_books in_sum_def out_sum_def lock_sum_def lock_total_def pool_balance_def kv.total_def
    by simp
qed

theorem chain_energy_backed_witness:
  "chain_reach ledger_sdk demo_env demo_core lent {} \<and>
   40000 \<le> (\<Sum>(_, d)\<leftarrow>e_delegations (st_energy lent). if d_Delegatee d = ''atos1bob'' then uint (d_Amount d) - uint (d_Used d) else 0)"
  using lent_reach lent_values(2) chain_energy_backed [OF ledger_laws demo_env_law demo_core_law lent_reach, of "''bob''"]
  by (simp add: ledger_sdk_def tag_codec_def)

end
